(* ===== verification/Euth_Prelude.thy ===== *)
theory Euth_Prelude imports Main "HOL-Library.Word" begin

text \<open>
  Shared vocabulary of the development: the fixed-width integers of the C++ code, byte memory
  (an object the code addresses by offset), and the generic lemmas on lists that more than one
  component needs.

  The host is the one the build files target (g++ on x86-64 Linux): \<open>int\<close> and
  \<open>unsigned int\<close> have 32 bits, \<open>long\<close>, \<open>time_t\<close> and \<open>size_t\<close> have 64, and integers are
  stored least significant byte first.
\<close>

section \<open>Types\<close>

type_synonym u8 = "8 word"
type_synonym u16 = "16 word"
type_synonym u32 = "32 word"
type_synonym u64 = "64 word"
type_synonym byte = u8
type_synonym bytes = "byte list"

text \<open>
  \<open>mem\<close> is one C++ object seen through a \<open>char *\<close>: the byte at each offset. Bounds of the
  object are not part of it; the components that could leave them check offsets explicitly.
\<close>

type_synonym mem = "nat \<Rightarrow> byte"

text \<open>A \<open>Message\<close> of the code is a shared pointer to an immutable string of bytes.\<close>

type_synonym message = bytes

named_theorems mem_simps "loads and stores on byte memory"
named_theorems wire_simps "the byte representation of integers"
named_theorems layout_simps "sizes and offsets of C structures"
named_theorems op_defs "definitions of component operations"

text \<open>Small offsets stay numerals.\<close>

declare add_2_eq_Suc [simp del] add_2_eq_Suc' [simp del]

lemma unat_u8_bound: "unat (w :: u8) < 256"
  using unsigned_less [of w] by simp

lemma unat_u16_bound: "unat (w :: u16) < 65536"
  using unsigned_less [of w] by simp

lemma unat_u32_bound: "unat (w :: u32) < 2 ^ 32"
  using unsigned_less [of w] by simp

lemma unat_u64_bound: "unat (w :: u64) < 2 ^ 64"
  using unsigned_less [of w] by simp

section \<open>Byte memory\<close>

definition load :: "mem \<Rightarrow> nat \<Rightarrow> nat \<Rightarrow> bytes" where
  "load m off n = map m [off..<off + n]"

definition store :: "mem \<Rightarrow> nat \<Rightarrow> bytes \<Rightarrow> mem" where
  "store m off bs = (\<lambda>i. if off \<le> i \<and> i < off + length bs then bs ! (i - off) else m i)"

text \<open>The object that holds the bytes \<open>bs\<close>, with \<open>0\<close> past their end.\<close>

definition mem_of :: "bytes \<Rightarrow> mem" where
  "mem_of bs = store (\<lambda>_. 0) 0 bs"

lemma length_load [simp, mem_simps]: "length (load m off n) = n"
  by (simp add: load_def)

lemma nth_load [simp]: "i < n \<Longrightarrow> load m off n ! i = m (off + i)"
  by (simp add: load_def)

lemma load_zero [simp, mem_simps]: "load m off 0 = []"
  by (simp add: load_def)

lemma load_append: "load m off (a + b) = load m off a @ load m (off + a) b"
  by (rule nth_equalityI) (auto simp: nth_append)

lemma take_load [simp]: "take k (load m off n) = load m off (min k n)"
  by (rule nth_equalityI) auto

lemma drop_load [simp]: "drop k (load m off n) = load m (off + k) (n - k)"
  by (rule nth_equalityI) (auto simp: add.assoc)

lemma load_cong: "(\<And>i. off \<le> i \<Longrightarrow> i < off + n \<Longrightarrow> m i = m' i) \<Longrightarrow> load m off n = load m' off n"
  by (simp add: load_def)

lemma load_store_same [simp, mem_simps]: "load (store m off bs) off (length bs) = bs"
  by (rule nth_equalityI) (auto simp: store_def)

lemma load_store_same' [mem_simps]: "n = length bs \<Longrightarrow> load (store m off bs) off n = bs"
  by simp

lemma load_store_disjoint [mem_simps]:
  "off' + n \<le> off \<or> off + length bs \<le> off' \<Longrightarrow> load (store m off bs) off' n = load m off' n"
  by (rule load_cong) (auto simp: store_def)

lemma store_Nil [simp]: "store m off [] = m"
  by (rule ext) (auto simp: store_def)

lemma store_store_append:
  "store (store m off as) (off + length as) bs = store m off (as @ bs)"
  by (rule ext) (auto simp: store_def nth_append)

lemma load_mem_of: "n \<le> length bs \<Longrightarrow> load (mem_of bs) 0 n = take n bs"
  by (rule nth_equalityI) (auto simp: mem_of_def store_def)

lemma load_mem_of_all [simp]: "load (mem_of bs) 0 (length bs) = bs"
  by (simp add: load_mem_of)

lemma load_nth_eqI: "load m off n = load m' off n \<Longrightarrow> i < n \<Longrightarrow> m (off + i) = m' (off + i)"
  by (metis nth_load)

lemma map_filter_append: "List.map_filter f (xs @ ys) = List.map_filter f xs @ List.map_filter f ys"
  by (simp add: List.map_filter_def)

lemma map_filter_Cons_append: "List.map_filter f (x # xs) = List.map_filter f [x] @ List.map_filter f xs"
  by (simp add: List.map_filter_simps split: option.split)

section \<open>Runs over event lists\<close>

text \<open>
  Every component with state is a function from a state and an input to the next state and a
  list of outputs; \<open>run\<close> feeds it a list of inputs and collects what it emits.
\<close>

fun run :: "('s \<Rightarrow> 'e \<Rightarrow> 's \<times> 'o list) \<Rightarrow> 's \<Rightarrow> 'e list \<Rightarrow> 's \<times> 'o list" where
  "run step s [] = (s, [])"
| "run step s (e # es) =
     (let (s', os) = step s e; (s'', os') = run step s' es in (s'', os @ os'))"

lemma run_append:
  "run step s (es @ fs) =
     (let (s', os) = run step s es; (s'', os') = run step s' fs in (s'', os @ os'))"
  by (induction es arbitrary: s) (auto simp: split_beta)

lemma fst_run_Cons: "fst (run step s (e # es)) = fst (run step (fst (step s e)) es)"
  by (simp add: split_beta)

lemma snd_run_Cons: "snd (run step s (e # es)) = snd (step s e) @ snd (run step (fst (step s e)) es)"
  by (simp add: split_beta)

lemma run_invariant:
  assumes "I s" and "\<And>s e. I s \<Longrightarrow> I (fst (step s e))"
  shows "I (fst (run step s es))"
  using assms(1) by (induction es arbitrary: s) (auto simp: split_beta assms(2))

lemma run_frame:
  assumes "\<And>s e. f (fst (step s e)) = f s"
  shows "f (fst (run step s es)) = f s"
  using run_invariant [where I = "\<lambda>t. f t = f s"] assms by metis

subsection \<open>Projecting an interleaved run onto one of its components\<close>

lemma append_in_shuffles:
  "zs \<in> shuffles xs ys \<Longrightarrow> zs' \<in> shuffles xs' ys' \<Longrightarrow> zs @ zs' \<in> shuffles (xs @ xs') (ys @ ys')"
proof (induction zs arbitrary: xs ys)
  case (Cons z zs)
  from Cons.prems(1) consider xs1 where "xs = z # xs1" "zs \<in> shuffles xs1 ys"
    | ys1 where "ys = z # ys1" "zs \<in> shuffles xs ys1"
    by (auto simp: Cons_in_shuffles_iff neq_Nil_conv)
  then show ?case
    using Cons.IH Cons.prems(2) by cases (auto intro: Cons_in_shuffles_leftI Cons_in_shuffles_rightI)
qed simp

lemma map_filter_Some: "List.map_filter Some xs = xs"
  by (induction xs) (simp_all add: List.map_filter_simps)

lemma map_filter_empty: "List.map_filter f xs = [] \<longleftrightarrow> (\<forall>x \<in> set xs. f x = None)"
  by (auto simp: List.map_filter_def filter_empty_conv)

lemma take_snoc_ex: "(\<exists>n. P (take n (xs @ [x]))) \<longleftrightarrow> (\<exists>n. P (take n xs)) \<or> P (xs @ [x])"
proof
  assume "\<exists>n. P (take n (xs @ [x]))"
  then obtain n where "P (take n (xs @ [x]))" by blast
  then show "(\<exists>n. P (take n xs)) \<or> P (xs @ [x])" by (cases "n \<le> length xs") auto
next
  assume "(\<exists>n. P (take n xs)) \<or> P (xs @ [x])"
  then show "\<exists>n. P (take n (xs @ [x]))"
  proof
    assume "\<exists>n. P (take n xs)"
    then obtain n where "P (take n xs)" by blast
    then have "P (take (min n (length xs)) xs)" by (cases "n \<le> length xs") (simp_all add: min_def)
    then show ?thesis by (intro exI [of _ "min n (length xs)"]) simp
  next
    assume "P (xs @ [x])"
    then show ?thesis by (intro exI [of _ "Suc (length xs)"]) simp
  qed
qed

text \<open>
  A program interleaves its components in one event loop and its threads. \<open>ev s e\<close> are the events
  one component sees when the whole takes the event \<open>e\<close> in state \<open>s\<close>. If every step of the whole is,
  for the component, the run of those events, then the whole run, seen from the component, is
  the component's own run on the events it saw, whatever the interleaving.
\<close>

primrec events_along ::
    "('s \<Rightarrow> 'e \<Rightarrow> 's \<times> 'o list) \<Rightarrow> ('s \<Rightarrow> 'e \<Rightarrow> 'f list) \<Rightarrow> 's \<Rightarrow> 'e list \<Rightarrow> 'f list" where
  "events_along step ev s [] = []"
| "events_along step ev s (e # es) = ev s e @ events_along step ev (fst (step s e)) es"

lemma events_along_append:
  "events_along step ev s (es @ fs) = events_along step ev s es @ events_along step ev (fst (run step s es)) fs"
  by (induction es arbitrary: s) (simp_all add: fst_run_Cons del: run.simps(2))

lemma events_along_const:
  assumes "I s" and "\<And>s e. I s \<Longrightarrow> I (fst (step s e))" and "\<And>s e. I s \<Longrightarrow> ev s e = f e"
  shows "events_along step ev s es = concat (map f es)"
  using assms(1) by (induction es arbitrary: s) (simp_all add: assms(2,3))

locale projection =
  fixes step :: "'s \<Rightarrow> 'e \<Rightarrow> 's \<times> 'o list"
    and cstep :: "'c \<Rightarrow> 'f \<Rightarrow> 'c \<times> 'p list"
    and proj :: "'s \<Rightarrow> 'c"
    and ev :: "'s \<Rightarrow> 'e \<Rightarrow> 'f list"
    and out :: "'o \<Rightarrow> 'p option"
  assumes own_step: "proj (fst (step s e)) = fst (run cstep (proj s) (ev s e))"
    and own_out: "List.map_filter out (snd (step s e)) = snd (run cstep (proj s) (ev s e))"
begin

lemma run_both:
  "proj (fst (run step s es)) = fst (run cstep (proj s) (events_along step ev s es)) \<and>
   List.map_filter out (snd (run step s es)) = snd (run cstep (proj s) (events_along step ev s es))"
proof (induction es arbitrary: s)
  case Nil
  then show ?case by (simp add: List.map_filter_def)
next
  case (Cons e es)
  then show ?case
    by (simp add: fst_run_Cons snd_run_Cons own_step own_out map_filter_append run_append split_beta
        del: run.simps)
qed

lemmas run_proj = run_both [THEN conjunct1]
lemmas run_out = run_both [THEN conjunct2]

end

end
