(* ===== verification/Byte_Order.thy ===== *)
theory Byte_Order imports Euth_Prelude begin

text \<open>
  Integers in memory and on the wire: the object representation of an unsigned integer on the
  little-endian host, and the byte-order conversions the code calls (\<open>htons\<close>, \<open>htonl\<close>,
  \<open>ntohs\<close>, \<open>ntohl\<close>, \<open>htobe64\<close>). The lemmas show that storing a converted value puts its
  most significant byte first, and that loading and converting reads it back.
\<close>

unbundle bit_operations_syntax

section \<open>Object representation\<close>

definition bytes_of_word :: "nat \<Rightarrow> 'a::len word \<Rightarrow> bytes" where
  "bytes_of_word n w = map (\<lambda>i. ucast (drop_bit (8 * i) w)) [0..<n]"

fun word_of_bytes :: "bytes \<Rightarrow> 'a::len word" where
  "word_of_bytes [] = 0"
| "word_of_bytes (b # bs) = ucast b OR push_bit 8 (word_of_bytes bs)"

lemma length_bytes_of_word [simp, wire_simps]: "length (bytes_of_word n w) = n"
  by (simp add: bytes_of_word_def)

lemma nth_bytes_of_word: "i < n \<Longrightarrow> bytes_of_word n w ! i = ucast (drop_bit (8 * i) w)"
  by (simp add: bytes_of_word_def)

lemma bit_word_of_bytes:
  "bit (word_of_bytes bs :: 'a::len word) n \<longleftrightarrow>
     n < LENGTH('a) \<and> n div 8 < length bs \<and> bit (bs ! (n div 8)) (n mod 8)"
proof (induction bs arbitrary: n)
  case Nil
  then show ?case by simp
next
  case (Cons b bs)
  show ?case
  proof (cases "n < 8")
    case True
    then show ?thesis by (auto simp: bit_simps)
  next
    case False
    then obtain k where k: "n = k + 8" by (metis add.commute le_Suc_ex not_less)
    have "\<not> bit b (k + 8)" using bit_imp_le_length [of b "k + 8"] by auto
    moreover have "(k + 8) div 8 = Suc (k div 8)" by simp
    ultimately show ?thesis
      by (auto simp: k bit_simps Cons.IH bit_imp_le_length)
  qed
qed

lemma word_of_bytes_of_word:
  "LENGTH('a) = 8 * n \<Longrightarrow> word_of_bytes (bytes_of_word n w) = (w :: 'a::len word)"
  by (rule bit_word_eqI)
    (auto simp: bit_word_of_bytes nth_bytes_of_word bit_simps less_mult_imp_div_less mult.commute)

lemma bytes_of_word_of_bytes:
  assumes "LENGTH('a) = 8 * length bs"
  shows "bytes_of_word (length bs) (word_of_bytes bs :: 'a::len word) = bs"
proof (rule nth_equalityI)
  fix i assume "i < length (bytes_of_word (length bs) (word_of_bytes bs :: 'a word))"
  then have i: "i < length bs" by simp
  show "bytes_of_word (length bs) (word_of_bytes bs :: 'a word) ! i = bs ! i"
  proof (rule bit_word_eqI)
    fix k assume "k < LENGTH(8)"
    then have k: "k < 8" by simp
    then have "8 * i + k < 8 * length bs" using i by simp
    moreover have "(8 * i + k) div 8 = i" "(8 * i + k) mod 8 = k" using k by simp_all
    ultimately show "bit (bytes_of_word (length bs) (word_of_bytes bs :: 'a word) ! i) k = bit (bs ! i) k"
      using i k assms by (simp add: nth_bytes_of_word bit_simps bit_word_of_bytes add.commute)
  qed
qed simp

section \<open>Byte-order conversion\<close>

definition bswap :: "nat \<Rightarrow> 'a::len word \<Rightarrow> 'a word" where
  "bswap n w = word_of_bytes (rev (bytes_of_word n w))"

definition htons :: "u16 \<Rightarrow> u16" where "htons w = bswap 2 w"
definition ntohs :: "u16 \<Rightarrow> u16" where "ntohs w = bswap 2 w"
definition htonl :: "u32 \<Rightarrow> u32" where "htonl w = bswap 4 w"
definition ntohl :: "u32 \<Rightarrow> u32" where "ntohl w = bswap 4 w"
definition htobe64 :: "u64 \<Rightarrow> u64" where "htobe64 w = bswap 8 w"

definition be_bytes :: "nat \<Rightarrow> 'a::len word \<Rightarrow> bytes" where
  "be_bytes n w = rev (bytes_of_word n w)"

definition word_of_be :: "bytes \<Rightarrow> 'a::len word" where
  "word_of_be bs = word_of_bytes (rev bs)"

lemma length_be_bytes [simp, wire_simps]: "length (be_bytes n w) = n"
  by (simp add: be_bytes_def)

lemma bytes_of_bswap:
  "LENGTH('a) = 8 * n \<Longrightarrow> bytes_of_word n (bswap n w) = be_bytes n (w :: 'a::len word)"
  using bytes_of_word_of_bytes [where 'a = 'a and bs = "rev (bytes_of_word n w)"]
  by (simp add: bswap_def be_bytes_def)

lemma bswap_of_bytes:
  "LENGTH('a) = 8 * length bs \<Longrightarrow> bswap (length bs) (word_of_bytes bs) = (word_of_be bs :: 'a::len word)"
  by (simp add: bswap_def word_of_be_def bytes_of_word_of_bytes)

lemma bswap_bswap: "LENGTH('a) = 8 * n \<Longrightarrow> bswap n (bswap n w) = (w :: 'a::len word)"
  by (simp add: bswap_def [of n "bswap n w"] bytes_of_bswap be_bytes_def word_of_bytes_of_word)

lemma word_of_be_bytes: "LENGTH('a) = 8 * n \<Longrightarrow> word_of_be (be_bytes n w) = (w :: 'a::len word)"
  by (simp add: word_of_be_def be_bytes_def word_of_bytes_of_word)

lemma be_bytes_word_of_be:
  "LENGTH('a) = 8 * length bs \<Longrightarrow> be_bytes (length bs) (word_of_be bs :: 'a::len word) = bs"
  using bytes_of_word_of_bytes [where 'a = 'a and bs = "rev bs"]
  by (simp add: word_of_be_def be_bytes_def)

lemma stored_htons [wire_simps]: "bytes_of_word 2 (htons w) = be_bytes 2 w"
  by (simp add: htons_def bytes_of_bswap)

lemma stored_htonl [wire_simps]: "bytes_of_word 4 (htonl w) = be_bytes 4 w"
  by (simp add: htonl_def bytes_of_bswap)

lemma stored_htobe64 [wire_simps]: "bytes_of_word 8 (htobe64 w) = be_bytes 8 w"
  by (simp add: htobe64_def bytes_of_bswap)

lemma ntohs_loaded: "length bs = 2 \<Longrightarrow> ntohs (word_of_bytes bs) = word_of_be bs"
  using bswap_of_bytes [where 'a = 16 and bs = bs] by (simp add: ntohs_def)

lemma ntohl_loaded: "length bs = 4 \<Longrightarrow> ntohl (word_of_bytes bs) = word_of_be bs"
  using bswap_of_bytes [where 'a = 32 and bs = bs] by (simp add: ntohl_def)

lemma ntohs_htons [simp]: "ntohs (htons w) = w"
  by (simp add: ntohs_def htons_def bswap_bswap)

lemma ntohl_htonl [simp]: "ntohl (htonl w) = w"
  by (simp add: ntohl_def htonl_def bswap_bswap)

text \<open>Explicit forms, for evaluation.\<close>

lemma upt_2_4_8:
  "[0..<2] = [0, 1::nat]" "[0..<4] = [0, 1, 2, 3::nat]" "[0..<8] = [0, 1, 2, 3, 4, 5, 6, 7::nat]"
  by (simp_all add: upt_rec)

lemma bytes_of_word_1: "bytes_of_word 1 w = [ucast w]"
  by (simp add: bytes_of_word_def)

lemma bytes_of_word_2: "bytes_of_word 2 w = [ucast w, ucast (drop_bit 8 w)]"
  by (simp add: bytes_of_word_def upt_2_4_8)

lemma be_bytes_2: "be_bytes 2 w = [ucast (drop_bit 8 w), ucast w]"
  by (simp add: be_bytes_def bytes_of_word_2)

lemma be_bytes_4:
  "be_bytes 4 w = [ucast (drop_bit 24 w), ucast (drop_bit 16 w), ucast (drop_bit 8 w), ucast w]"
  by (simp add: be_bytes_def bytes_of_word_def upt_2_4_8)

section \<open>Fixed-width codecs\<close>

text \<open>
  The contract of a fixed-width field: every value takes exactly \<open>width\<close> bytes, and decoding
  them gives the value back. Sequences of fields and arrays inherit both laws.
\<close>

locale fixed_codec =
  fixes enc :: "'v \<Rightarrow> bytes"
    and dec :: "bytes \<Rightarrow> 'v"
    and width :: nat
  assumes enc_width: "length (enc v) = width"
    and dec_enc: "dec (enc v) = v"
begin

lemma dec_take: "dec (take width (enc v @ rest)) = v"
  by (simp add: enc_width dec_enc)

lemma drop_enc: "drop width (enc v @ rest) = rest"
  by (simp add: enc_width)

lemma enc_inject: "enc v = enc w \<longleftrightarrow> v = w"
  by (metis dec_enc)

lemma load_dec: "dec (load (store m off (enc v)) off width) = v"
  by (metis enc_width dec_enc load_store_same)

lemma length_concat_enc: "length (concat (map enc vs)) = width * length vs"
  by (induction vs) (simp_all add: enc_width)

end

interpretation be16: fixed_codec "be_bytes 2 :: u16 \<Rightarrow> bytes" word_of_be 2
  by unfold_locales (simp_all add: word_of_be_bytes)

interpretation be32: fixed_codec "be_bytes 4 :: u32 \<Rightarrow> bytes" word_of_be 4
  by unfold_locales (simp_all add: word_of_be_bytes)

interpretation be64: fixed_codec "be_bytes 8 :: u64 \<Rightarrow> bytes" word_of_be 8
  by unfold_locales (simp_all add: word_of_be_bytes)

end
