(* ===== verification/OpenFlow_Enums.thy ===== *)
theory OpenFlow_Enums imports Byte_Order begin

text \<open>
  The enumerations of \<open>openflow.h\<close>, one datatype each with the source's enumerators in the
  source's order. \<open><name>_val\<close> is the value C gives an enumerator (in the 32-bit underlying
  type), \<open><name>_all\<close> lists the enumerators. Two contracts are proved of them: \<open>c_enum\<close> (the
  values are pairwise different, so a cast from the value finds the one enumerator it came from)
  and \<open>c_flags\<close> (the values are single bits, so a bitmap is the set of its flags).
\<close>

section \<open>Contracts\<close>

definition cast_enum :: "('e \<Rightarrow> u32) \<Rightarrow> 'e list \<Rightarrow> u32 \<Rightarrow> 'e option" where
  "cast_enum val es n = List.find (\<lambda>e. val e = n) es"

locale c_enum =
  fixes val :: "'e \<Rightarrow> u32"
    and enumerators :: "'e list"
  assumes complete: "e \<in> set enumerators"
    and distinct_values: "distinct (map val enumerators)"
begin

lemma val_inject: "val a = val b \<longleftrightarrow> a = b"
  using distinct_values complete by (auto simp: distinct_map dest: inj_onD)

lemma cast_val: "cast_enum val enumerators (val e) = Some e"
proof (cases "cast_enum val enumerators (val e)")
  case None
  then show ?thesis using complete [of e] by (auto simp: cast_enum_def find_None_iff)
next
  case (Some f)
  then have "val f = val e" by (auto simp: cast_enum_def find_Some_iff)
  then show ?thesis using Some val_inject by simp
qed

lemma cast_Some_iff: "cast_enum val enumerators n = Some e \<longleftrightarrow> val e = n"
proof
  assume "cast_enum val enumerators n = Some e"
  then show "val e = n" by (auto simp: cast_enum_def find_Some_iff)
next
  assume "val e = n"
  then show "cast_enum val enumerators n = Some e" using cast_val by blast
qed

lemma cast_None_iff: "cast_enum val enumerators n = None \<longleftrightarrow> (\<forall>e. val e \<noteq> n)"
  using complete by (auto simp: cast_enum_def find_None_iff)

end

definition single_bit :: "u32 \<Rightarrow> bool" where
  "single_bit w \<longleftrightarrow> list_ex (\<lambda>k. w = push_bit k 1) [0..<32]"

definition bitmap :: "('e \<Rightarrow> u32) \<Rightarrow> 'e list \<Rightarrow> u32" where
  "bitmap val es = foldr (\<lambda>e w. val e OR w) es 0"

definition has_flag :: "('e \<Rightarrow> u32) \<Rightarrow> u32 \<Rightarrow> 'e \<Rightarrow> bool" where
  "has_flag val w e \<longleftrightarrow> w AND val e \<noteq> 0"

locale c_flags = c_enum +
  assumes single_bits: "list_all (\<lambda>e. single_bit (val e)) enumerators"
begin

lemma val_bit: "\<exists>k<32. val e = push_bit k 1"
  using single_bits complete [of e] by (fastforce simp: list_all_iff single_bit_def list_ex_iff)

lemma flags_disjoint: "a \<noteq> b \<Longrightarrow> val a AND val b = 0"
proof -
  assume "a \<noteq> b"
  moreover obtain i j where "val a = push_bit i 1" "val b = push_bit j 1"
    using val_bit by meson
  moreover from this have "i \<noteq> j" if "a \<noteq> b" using that val_inject [of a b] by auto
  ultimately show ?thesis
    by (auto intro!: bit_word_eqI simp: bit_simps simp del: push_bit_of_1)
qed

lemma flag_nonzero: "val e \<noteq> 0"
proof -
  obtain k where k: "k < 32" "val e = push_bit k 1" using val_bit by meson
  then have "bit (val e) k" by (simp add: bit_simps del: push_bit_of_1)
  then show ?thesis by auto
qed

lemma has_flag_bitmap: "has_flag val (bitmap val es) e \<longleftrightarrow> e \<in> set es"
proof (induction es)
  case Nil
  then show ?case by (simp add: has_flag_def bitmap_def)
next
  case (Cons f es)
  have "bitmap val (f # es) AND val e = (val f AND val e) OR (bitmap val es AND val e)"
    by (simp add: bitmap_def bit.conj_disj_distrib2)
  moreover have "val f AND val e = (if f = e then val e else 0)"
    by (simp add: flags_disjoint)
  ultimately show ?case
    using Cons flag_nonzero [of e] by (auto simp: has_flag_def or_eq_0_iff)
qed

end

section \<open>The enumerations\<close>

subsection \<open>\<open>enum ofp_port_no\<close>\<close>

datatype ofp_port_no =
    OFPP_MAX | OFPP_IN_PORT | OFPP_TABLE | OFPP_NORMAL | OFPP_FLOOD | OFPP_ALL |
    OFPP_CONTROLLER | OFPP_LOCAL | OFPP_ANY

primrec ofp_port_no_val :: "ofp_port_no \<Rightarrow> u32" where
  "ofp_port_no_val OFPP_MAX = 0xffffff00"
| "ofp_port_no_val OFPP_IN_PORT = 0xfffffff8"
| "ofp_port_no_val OFPP_TABLE = 0xfffffff9"
| "ofp_port_no_val OFPP_NORMAL = 0xfffffffa"
| "ofp_port_no_val OFPP_FLOOD = 0xfffffffb"
| "ofp_port_no_val OFPP_ALL = 0xfffffffc"
| "ofp_port_no_val OFPP_CONTROLLER = 0xfffffffd"
| "ofp_port_no_val OFPP_LOCAL = 0xfffffffe"
| "ofp_port_no_val OFPP_ANY = 0xffffffff"

definition ofp_port_no_all :: "ofp_port_no list" where
  "ofp_port_no_all =
    [OFPP_MAX, OFPP_IN_PORT, OFPP_TABLE, OFPP_NORMAL, OFPP_FLOOD, OFPP_ALL, OFPP_CONTROLLER,
     OFPP_LOCAL, OFPP_ANY]"

interpretation ofp_port_no: c_enum ofp_port_no_val ofp_port_no_all
proof unfold_locales
  show "e \<in> set ofp_port_no_all" for e by (cases e) (simp_all add: ofp_port_no_all_def)
qed (simp_all add: ofp_port_no_all_def)

subsection \<open>\<open>enum ofp_type\<close>\<close>

datatype ofp_type =
    OFPT_HELLO | OFPT_ERROR | OFPT_ECHO_REQUEST | OFPT_ECHO_REPLY | OFPT_EXPERIMENTER |
    OFPT_FEATURES_REQUEST | OFPT_FEATURES_REPLY | OFPT_GET_CONFIG_REQUEST |
    OFPT_GET_CONFIG_REPLY | OFPT_SET_CONFIG | OFPT_PACKET_IN | OFPT_FLOW_REMOVED |
    OFPT_PORT_STATUS | OFPT_PACKET_OUT | OFPT_FLOW_MOD | OFPT_GROUP_MOD | OFPT_PORT_MOD |
    OFPT_TABLE_MOD | OFPT_MULTIPART_REQUEST | OFPT_MULTIPART_REPLY | OFPT_BARRIER_REQUEST |
    OFPT_BARRIER_REPLY | OFPT_QUEUE_GET_CONFIG_REQUEST | OFPT_QUEUE_GET_CONFIG_REPLY |
    OFPT_ROLE_REQUEST | OFPT_ROLE_REPLY | OFPT_GET_ASYNC_REQUEST | OFPT_GET_ASYNC_REPLY |
    OFPT_SET_ASYNC | OFPT_METER_MOD

primrec ofp_type_val :: "ofp_type \<Rightarrow> u32" where
  "ofp_type_val OFPT_HELLO = 0"
| "ofp_type_val OFPT_ERROR = 1"
| "ofp_type_val OFPT_ECHO_REQUEST = 2"
| "ofp_type_val OFPT_ECHO_REPLY = 3"
| "ofp_type_val OFPT_EXPERIMENTER = 4"
| "ofp_type_val OFPT_FEATURES_REQUEST = 5"
| "ofp_type_val OFPT_FEATURES_REPLY = 6"
| "ofp_type_val OFPT_GET_CONFIG_REQUEST = 7"
| "ofp_type_val OFPT_GET_CONFIG_REPLY = 8"
| "ofp_type_val OFPT_SET_CONFIG = 9"
| "ofp_type_val OFPT_PACKET_IN = 10"
| "ofp_type_val OFPT_FLOW_REMOVED = 11"
| "ofp_type_val OFPT_PORT_STATUS = 12"
| "ofp_type_val OFPT_PACKET_OUT = 13"
| "ofp_type_val OFPT_FLOW_MOD = 14"
| "ofp_type_val OFPT_GROUP_MOD = 15"
| "ofp_type_val OFPT_PORT_MOD = 16"
| "ofp_type_val OFPT_TABLE_MOD = 17"
| "ofp_type_val OFPT_MULTIPART_REQUEST = 18"
| "ofp_type_val OFPT_MULTIPART_REPLY = 19"
| "ofp_type_val OFPT_BARRIER_REQUEST = 20"
| "ofp_type_val OFPT_BARRIER_REPLY = 21"
| "ofp_type_val OFPT_QUEUE_GET_CONFIG_REQUEST = 22"
| "ofp_type_val OFPT_QUEUE_GET_CONFIG_REPLY = 23"
| "ofp_type_val OFPT_ROLE_REQUEST = 24"
| "ofp_type_val OFPT_ROLE_REPLY = 25"
| "ofp_type_val OFPT_GET_ASYNC_REQUEST = 26"
| "ofp_type_val OFPT_GET_ASYNC_REPLY = 27"
| "ofp_type_val OFPT_SET_ASYNC = 28"
| "ofp_type_val OFPT_METER_MOD = 29"

definition ofp_type_all :: "ofp_type list" where
  "ofp_type_all =
    [OFPT_HELLO, OFPT_ERROR, OFPT_ECHO_REQUEST, OFPT_ECHO_REPLY, OFPT_EXPERIMENTER,
     OFPT_FEATURES_REQUEST, OFPT_FEATURES_REPLY, OFPT_GET_CONFIG_REQUEST,
     OFPT_GET_CONFIG_REPLY, OFPT_SET_CONFIG, OFPT_PACKET_IN, OFPT_FLOW_REMOVED,
     OFPT_PORT_STATUS, OFPT_PACKET_OUT, OFPT_FLOW_MOD, OFPT_GROUP_MOD, OFPT_PORT_MOD,
     OFPT_TABLE_MOD, OFPT_MULTIPART_REQUEST, OFPT_MULTIPART_REPLY, OFPT_BARRIER_REQUEST,
     OFPT_BARRIER_REPLY, OFPT_QUEUE_GET_CONFIG_REQUEST, OFPT_QUEUE_GET_CONFIG_REPLY,
     OFPT_ROLE_REQUEST, OFPT_ROLE_REPLY, OFPT_GET_ASYNC_REQUEST, OFPT_GET_ASYNC_REPLY,
     OFPT_SET_ASYNC, OFPT_METER_MOD]"

interpretation ofp_type: c_enum ofp_type_val ofp_type_all
proof unfold_locales
  show "e \<in> set ofp_type_all" for e by (cases e) (simp_all add: ofp_type_all_def)
qed (simp_all add: ofp_type_all_def)

subsection \<open>\<open>enum ofp_hello_elem_type\<close>\<close>

datatype ofp_hello_elem_type =
    OFPHET_VERSIONBITMAP

primrec ofp_hello_elem_type_val :: "ofp_hello_elem_type \<Rightarrow> u32" where
  "ofp_hello_elem_type_val OFPHET_VERSIONBITMAP = 1"

definition ofp_hello_elem_type_all :: "ofp_hello_elem_type list" where
  "ofp_hello_elem_type_all =
    [OFPHET_VERSIONBITMAP]"

interpretation ofp_hello_elem_type: c_enum ofp_hello_elem_type_val ofp_hello_elem_type_all
proof unfold_locales
  show "e \<in> set ofp_hello_elem_type_all" for e by (cases e) (simp_all add: ofp_hello_elem_type_all_def)
qed (simp_all add: ofp_hello_elem_type_all_def)

subsection \<open>\<open>enum ofp_config_flags\<close>\<close>

datatype ofp_config_flags =
    OFPC_FRAG_NORMAL | OFPC_FRAG_DROP | OFPC_FRAG_REASM | OFPC_FRAG_MASK

primrec ofp_config_flags_val :: "ofp_config_flags \<Rightarrow> u32" where
  "ofp_config_flags_val OFPC_FRAG_NORMAL = 0"
| "ofp_config_flags_val OFPC_FRAG_DROP = push_bit 0 1"
| "ofp_config_flags_val OFPC_FRAG_REASM = push_bit 1 1"
| "ofp_config_flags_val OFPC_FRAG_MASK = 3"

definition ofp_config_flags_all :: "ofp_config_flags list" where
  "ofp_config_flags_all =
    [OFPC_FRAG_NORMAL, OFPC_FRAG_DROP, OFPC_FRAG_REASM, OFPC_FRAG_MASK]"

interpretation ofp_config_flags: c_enum ofp_config_flags_val ofp_config_flags_all
proof unfold_locales
  show "e \<in> set ofp_config_flags_all" for e by (cases e) (simp_all add: ofp_config_flags_all_def)
qed (simp_all add: ofp_config_flags_all_def)

subsection \<open>\<open>enum ofp_table_config\<close>\<close>

datatype ofp_table_config =
    OFPTC_DEPRECATED_MASK

primrec ofp_table_config_val :: "ofp_table_config \<Rightarrow> u32" where
  "ofp_table_config_val OFPTC_DEPRECATED_MASK = 3"

definition ofp_table_config_all :: "ofp_table_config list" where
  "ofp_table_config_all =
    [OFPTC_DEPRECATED_MASK]"

interpretation ofp_table_config: c_enum ofp_table_config_val ofp_table_config_all
proof unfold_locales
  show "e \<in> set ofp_table_config_all" for e by (cases e) (simp_all add: ofp_table_config_all_def)
qed (simp_all add: ofp_table_config_all_def)

subsection \<open>\<open>enum ofp_table\<close>\<close>

datatype ofp_table =
    OFPTT_MAX | OFPTT_ALL

primrec ofp_table_val :: "ofp_table \<Rightarrow> u32" where
  "ofp_table_val OFPTT_MAX = 0xfe"
| "ofp_table_val OFPTT_ALL = 0xff"

definition ofp_table_all :: "ofp_table list" where
  "ofp_table_all =
    [OFPTT_MAX, OFPTT_ALL]"

interpretation ofp_table: c_enum ofp_table_val ofp_table_all
proof unfold_locales
  show "e \<in> set ofp_table_all" for e by (cases e) (simp_all add: ofp_table_all_def)
qed (simp_all add: ofp_table_all_def)

subsection \<open>\<open>enum ofp_capabilities\<close>\<close>

datatype ofp_capabilities =
    OFPC_FLOW_STATS | OFPC_TABLE_STATS | OFPC_PORT_STATS | OFPC_GROUP_STATS | OFPC_IP_REASM
    | OFPC_QUEUE_STATS | OFPC_PORT_BLOCKED

primrec ofp_capabilities_val :: "ofp_capabilities \<Rightarrow> u32" where
  "ofp_capabilities_val OFPC_FLOW_STATS = push_bit 0 1"
| "ofp_capabilities_val OFPC_TABLE_STATS = push_bit 1 1"
| "ofp_capabilities_val OFPC_PORT_STATS = push_bit 2 1"
| "ofp_capabilities_val OFPC_GROUP_STATS = push_bit 3 1"
| "ofp_capabilities_val OFPC_IP_REASM = push_bit 5 1"
| "ofp_capabilities_val OFPC_QUEUE_STATS = push_bit 6 1"
| "ofp_capabilities_val OFPC_PORT_BLOCKED = push_bit 8 1"

definition ofp_capabilities_all :: "ofp_capabilities list" where
  "ofp_capabilities_all =
    [OFPC_FLOW_STATS, OFPC_TABLE_STATS, OFPC_PORT_STATS, OFPC_GROUP_STATS, OFPC_IP_REASM,
     OFPC_QUEUE_STATS, OFPC_PORT_BLOCKED]"

interpretation ofp_capabilities: c_flags ofp_capabilities_val ofp_capabilities_all
proof unfold_locales
  show "e \<in> set ofp_capabilities_all" for e by (cases e) (simp_all add: ofp_capabilities_all_def)
qed (simp_all add: ofp_capabilities_all_def single_bit_def upt_rec)

subsection \<open>\<open>enum ofp_port_config\<close>\<close>

datatype ofp_port_config =
    OFPPC_PORT_DOWN | OFPPC_NO_RECV | OFPPC_NO_FWD | OFPPC_NO_PACKET_IN

primrec ofp_port_config_val :: "ofp_port_config \<Rightarrow> u32" where
  "ofp_port_config_val OFPPC_PORT_DOWN = push_bit 0 1"
| "ofp_port_config_val OFPPC_NO_RECV = push_bit 2 1"
| "ofp_port_config_val OFPPC_NO_FWD = push_bit 5 1"
| "ofp_port_config_val OFPPC_NO_PACKET_IN = push_bit 6 1"

definition ofp_port_config_all :: "ofp_port_config list" where
  "ofp_port_config_all =
    [OFPPC_PORT_DOWN, OFPPC_NO_RECV, OFPPC_NO_FWD, OFPPC_NO_PACKET_IN]"

interpretation ofp_port_config: c_flags ofp_port_config_val ofp_port_config_all
proof unfold_locales
  show "e \<in> set ofp_port_config_all" for e by (cases e) (simp_all add: ofp_port_config_all_def)
qed (simp_all add: ofp_port_config_all_def single_bit_def upt_rec)

subsection \<open>\<open>enum ofp_port_state\<close>\<close>

datatype ofp_port_state =
    OFPPS_LINK_DOWN | OFPPS_BLOCKED | OFPPS_LIVE

primrec ofp_port_state_val :: "ofp_port_state \<Rightarrow> u32" where
  "ofp_port_state_val OFPPS_LINK_DOWN = push_bit 0 1"
| "ofp_port_state_val OFPPS_BLOCKED = push_bit 1 1"
| "ofp_port_state_val OFPPS_LIVE = push_bit 2 1"

definition ofp_port_state_all :: "ofp_port_state list" where
  "ofp_port_state_all =
    [OFPPS_LINK_DOWN, OFPPS_BLOCKED, OFPPS_LIVE]"

interpretation ofp_port_state: c_flags ofp_port_state_val ofp_port_state_all
proof unfold_locales
  show "e \<in> set ofp_port_state_all" for e by (cases e) (simp_all add: ofp_port_state_all_def)
qed (simp_all add: ofp_port_state_all_def single_bit_def upt_rec)

subsection \<open>\<open>enum ofp_port_features\<close>\<close>

datatype ofp_port_features =
    OFPPF_10MB_HD | OFPPF_10MB_FD | OFPPF_100MB_HD | OFPPF_100MB_FD | OFPPF_1GB_HD |
    OFPPF_1GB_FD | OFPPF_10GB_FD | OFPPF_40GB_FD | OFPPF_100GB_FD | OFPPF_1TB_FD |
    OFPPF_OTHER | OFPPF_COPPER | OFPPF_FIBER | OFPPF_AUTONEG | OFPPF_PAUSE |
    OFPPF_PAUSE_ASYM

primrec ofp_port_features_val :: "ofp_port_features \<Rightarrow> u32" where
  "ofp_port_features_val OFPPF_10MB_HD = push_bit 0 1"
| "ofp_port_features_val OFPPF_10MB_FD = push_bit 1 1"
| "ofp_port_features_val OFPPF_100MB_HD = push_bit 2 1"
| "ofp_port_features_val OFPPF_100MB_FD = push_bit 3 1"
| "ofp_port_features_val OFPPF_1GB_HD = push_bit 4 1"
| "ofp_port_features_val OFPPF_1GB_FD = push_bit 5 1"
| "ofp_port_features_val OFPPF_10GB_FD = push_bit 6 1"
| "ofp_port_features_val OFPPF_40GB_FD = push_bit 7 1"
| "ofp_port_features_val OFPPF_100GB_FD = push_bit 8 1"
| "ofp_port_features_val OFPPF_1TB_FD = push_bit 9 1"
| "ofp_port_features_val OFPPF_OTHER = push_bit 10 1"
| "ofp_port_features_val OFPPF_COPPER = push_bit 11 1"
| "ofp_port_features_val OFPPF_FIBER = push_bit 12 1"
| "ofp_port_features_val OFPPF_AUTONEG = push_bit 13 1"
| "ofp_port_features_val OFPPF_PAUSE = push_bit 14 1"
| "ofp_port_features_val OFPPF_PAUSE_ASYM = push_bit 15 1"

definition ofp_port_features_all :: "ofp_port_features list" where
  "ofp_port_features_all =
    [OFPPF_10MB_HD, OFPPF_10MB_FD, OFPPF_100MB_HD, OFPPF_100MB_FD, OFPPF_1GB_HD,
     OFPPF_1GB_FD, OFPPF_10GB_FD, OFPPF_40GB_FD, OFPPF_100GB_FD, OFPPF_1TB_FD, OFPPF_OTHER,
     OFPPF_COPPER, OFPPF_FIBER, OFPPF_AUTONEG, OFPPF_PAUSE, OFPPF_PAUSE_ASYM]"

interpretation ofp_port_features: c_flags ofp_port_features_val ofp_port_features_all
proof unfold_locales
  show "e \<in> set ofp_port_features_all" for e by (cases e) (simp_all add: ofp_port_features_all_def)
qed (simp_all add: ofp_port_features_all_def single_bit_def upt_rec)

subsection \<open>\<open>enum ofp_port_reason\<close>\<close>

datatype ofp_port_reason =
    OFPPR_ADD | OFPPR_DELETE | OFPPR_MODIFY

primrec ofp_port_reason_val :: "ofp_port_reason \<Rightarrow> u32" where
  "ofp_port_reason_val OFPPR_ADD = 0"
| "ofp_port_reason_val OFPPR_DELETE = 1"
| "ofp_port_reason_val OFPPR_MODIFY = 2"

definition ofp_port_reason_all :: "ofp_port_reason list" where
  "ofp_port_reason_all =
    [OFPPR_ADD, OFPPR_DELETE, OFPPR_MODIFY]"

interpretation ofp_port_reason: c_enum ofp_port_reason_val ofp_port_reason_all
proof unfold_locales
  show "e \<in> set ofp_port_reason_all" for e by (cases e) (simp_all add: ofp_port_reason_all_def)
qed (simp_all add: ofp_port_reason_all_def)

subsection \<open>\<open>enum ofp_match_type\<close>\<close>

datatype ofp_match_type =
    OFPMT_STANDARD | OFPMT_OXM

primrec ofp_match_type_val :: "ofp_match_type \<Rightarrow> u32" where
  "ofp_match_type_val OFPMT_STANDARD = 0"
| "ofp_match_type_val OFPMT_OXM = 1"

definition ofp_match_type_all :: "ofp_match_type list" where
  "ofp_match_type_all =
    [OFPMT_STANDARD, OFPMT_OXM]"

interpretation ofp_match_type: c_enum ofp_match_type_val ofp_match_type_all
proof unfold_locales
  show "e \<in> set ofp_match_type_all" for e by (cases e) (simp_all add: ofp_match_type_all_def)
qed (simp_all add: ofp_match_type_all_def)

subsection \<open>\<open>enum ofp_oxm_class\<close>\<close>

datatype ofp_oxm_class =
    OFPXMC_NXM_0 | OFPXMC_NXM_1 | OFPXMC_OPENFLOW_BASIC | OFPXMC_EXPERIMENTER

primrec ofp_oxm_class_val :: "ofp_oxm_class \<Rightarrow> u32" where
  "ofp_oxm_class_val OFPXMC_NXM_0 = 0x0000"
| "ofp_oxm_class_val OFPXMC_NXM_1 = 0x0001"
| "ofp_oxm_class_val OFPXMC_OPENFLOW_BASIC = 0x8000"
| "ofp_oxm_class_val OFPXMC_EXPERIMENTER = 0xffff"

definition ofp_oxm_class_all :: "ofp_oxm_class list" where
  "ofp_oxm_class_all =
    [OFPXMC_NXM_0, OFPXMC_NXM_1, OFPXMC_OPENFLOW_BASIC, OFPXMC_EXPERIMENTER]"

interpretation ofp_oxm_class: c_enum ofp_oxm_class_val ofp_oxm_class_all
proof unfold_locales
  show "e \<in> set ofp_oxm_class_all" for e by (cases e) (simp_all add: ofp_oxm_class_all_def)
qed (simp_all add: ofp_oxm_class_all_def)

subsection \<open>\<open>enum oxm_ofb_match_fields\<close>\<close>

datatype oxm_ofb_match_fields =
    OFPXMT_OFB_IN_PORT | OFPXMT_OFB_IN_PHY_PORT | OFPXMT_OFB_METADATA | OFPXMT_OFB_ETH_DST |
    OFPXMT_OFB_ETH_SRC | OFPXMT_OFB_ETH_TYPE | OFPXMT_OFB_VLAN_VID | OFPXMT_OFB_VLAN_PCP |
    OFPXMT_OFB_IP_DSCP | OFPXMT_OFB_IP_ECN | OFPXMT_OFB_IP_PROTO | OFPXMT_OFB_IPV4_SRC |
    OFPXMT_OFB_IPV4_DST | OFPXMT_OFB_TCP_SRC | OFPXMT_OFB_TCP_DST | OFPXMT_OFB_UDP_SRC |
    OFPXMT_OFB_UDP_DST | OFPXMT_OFB_SCTP_SRC | OFPXMT_OFB_SCTP_DST | OFPXMT_OFB_ICMPV4_TYPE
    | OFPXMT_OFB_ICMPV4_CODE | OFPXMT_OFB_ARP_OP | OFPXMT_OFB_ARP_SPA | OFPXMT_OFB_ARP_TPA |
    OFPXMT_OFB_ARP_SHA | OFPXMT_OFB_ARP_THA | OFPXMT_OFB_IPV6_SRC | OFPXMT_OFB_IPV6_DST |
    OFPXMT_OFB_IPV6_FLABEL | OFPXMT_OFB_ICMPV6_TYPE | OFPXMT_OFB_ICMPV6_CODE |
    OFPXMT_OFB_IPV6_ND_TARGET | OFPXMT_OFB_IPV6_ND_SLL | OFPXMT_OFB_IPV6_ND_TLL |
    OFPXMT_OFB_MPLS_LABEL | OFPXMT_OFB_MPLS_TC | OFPXMT_OFP_MPLS_BOS | OFPXMT_OFB_PBB_ISID |
    OFPXMT_OFB_TUNNEL_ID | OFPXMT_OFB_IPV6_EXTHDR

primrec oxm_ofb_match_fields_val :: "oxm_ofb_match_fields \<Rightarrow> u32" where
  "oxm_ofb_match_fields_val OFPXMT_OFB_IN_PORT = 0"
| "oxm_ofb_match_fields_val OFPXMT_OFB_IN_PHY_PORT = 1"
| "oxm_ofb_match_fields_val OFPXMT_OFB_METADATA = 2"
| "oxm_ofb_match_fields_val OFPXMT_OFB_ETH_DST = 3"
| "oxm_ofb_match_fields_val OFPXMT_OFB_ETH_SRC = 4"
| "oxm_ofb_match_fields_val OFPXMT_OFB_ETH_TYPE = 5"
| "oxm_ofb_match_fields_val OFPXMT_OFB_VLAN_VID = 6"
| "oxm_ofb_match_fields_val OFPXMT_OFB_VLAN_PCP = 7"
| "oxm_ofb_match_fields_val OFPXMT_OFB_IP_DSCP = 8"
| "oxm_ofb_match_fields_val OFPXMT_OFB_IP_ECN = 9"
| "oxm_ofb_match_fields_val OFPXMT_OFB_IP_PROTO = 10"
| "oxm_ofb_match_fields_val OFPXMT_OFB_IPV4_SRC = 11"
| "oxm_ofb_match_fields_val OFPXMT_OFB_IPV4_DST = 12"
| "oxm_ofb_match_fields_val OFPXMT_OFB_TCP_SRC = 13"
| "oxm_ofb_match_fields_val OFPXMT_OFB_TCP_DST = 14"
| "oxm_ofb_match_fields_val OFPXMT_OFB_UDP_SRC = 15"
| "oxm_ofb_match_fields_val OFPXMT_OFB_UDP_DST = 16"
| "oxm_ofb_match_fields_val OFPXMT_OFB_SCTP_SRC = 17"
| "oxm_ofb_match_fields_val OFPXMT_OFB_SCTP_DST = 18"
| "oxm_ofb_match_fields_val OFPXMT_OFB_ICMPV4_TYPE = 19"
| "oxm_ofb_match_fields_val OFPXMT_OFB_ICMPV4_CODE = 20"
| "oxm_ofb_match_fields_val OFPXMT_OFB_ARP_OP = 21"
| "oxm_ofb_match_fields_val OFPXMT_OFB_ARP_SPA = 22"
| "oxm_ofb_match_fields_val OFPXMT_OFB_ARP_TPA = 23"
| "oxm_ofb_match_fields_val OFPXMT_OFB_ARP_SHA = 24"
| "oxm_ofb_match_fields_val OFPXMT_OFB_ARP_THA = 25"
| "oxm_ofb_match_fields_val OFPXMT_OFB_IPV6_SRC = 26"
| "oxm_ofb_match_fields_val OFPXMT_OFB_IPV6_DST = 27"
| "oxm_ofb_match_fields_val OFPXMT_OFB_IPV6_FLABEL = 28"
| "oxm_ofb_match_fields_val OFPXMT_OFB_ICMPV6_TYPE = 29"
| "oxm_ofb_match_fields_val OFPXMT_OFB_ICMPV6_CODE = 30"
| "oxm_ofb_match_fields_val OFPXMT_OFB_IPV6_ND_TARGET = 31"
| "oxm_ofb_match_fields_val OFPXMT_OFB_IPV6_ND_SLL = 32"
| "oxm_ofb_match_fields_val OFPXMT_OFB_IPV6_ND_TLL = 33"
| "oxm_ofb_match_fields_val OFPXMT_OFB_MPLS_LABEL = 34"
| "oxm_ofb_match_fields_val OFPXMT_OFB_MPLS_TC = 35"
| "oxm_ofb_match_fields_val OFPXMT_OFP_MPLS_BOS = 36"
| "oxm_ofb_match_fields_val OFPXMT_OFB_PBB_ISID = 37"
| "oxm_ofb_match_fields_val OFPXMT_OFB_TUNNEL_ID = 38"
| "oxm_ofb_match_fields_val OFPXMT_OFB_IPV6_EXTHDR = 39"

definition oxm_ofb_match_fields_all :: "oxm_ofb_match_fields list" where
  "oxm_ofb_match_fields_all =
    [OFPXMT_OFB_IN_PORT, OFPXMT_OFB_IN_PHY_PORT, OFPXMT_OFB_METADATA, OFPXMT_OFB_ETH_DST,
     OFPXMT_OFB_ETH_SRC, OFPXMT_OFB_ETH_TYPE, OFPXMT_OFB_VLAN_VID, OFPXMT_OFB_VLAN_PCP,
     OFPXMT_OFB_IP_DSCP, OFPXMT_OFB_IP_ECN, OFPXMT_OFB_IP_PROTO, OFPXMT_OFB_IPV4_SRC,
     OFPXMT_OFB_IPV4_DST, OFPXMT_OFB_TCP_SRC, OFPXMT_OFB_TCP_DST, OFPXMT_OFB_UDP_SRC,
     OFPXMT_OFB_UDP_DST, OFPXMT_OFB_SCTP_SRC, OFPXMT_OFB_SCTP_DST, OFPXMT_OFB_ICMPV4_TYPE,
     OFPXMT_OFB_ICMPV4_CODE, OFPXMT_OFB_ARP_OP, OFPXMT_OFB_ARP_SPA, OFPXMT_OFB_ARP_TPA,
     OFPXMT_OFB_ARP_SHA, OFPXMT_OFB_ARP_THA, OFPXMT_OFB_IPV6_SRC, OFPXMT_OFB_IPV6_DST,
     OFPXMT_OFB_IPV6_FLABEL, OFPXMT_OFB_ICMPV6_TYPE, OFPXMT_OFB_ICMPV6_CODE,
     OFPXMT_OFB_IPV6_ND_TARGET, OFPXMT_OFB_IPV6_ND_SLL, OFPXMT_OFB_IPV6_ND_TLL,
     OFPXMT_OFB_MPLS_LABEL, OFPXMT_OFB_MPLS_TC, OFPXMT_OFP_MPLS_BOS, OFPXMT_OFB_PBB_ISID,
     OFPXMT_OFB_TUNNEL_ID, OFPXMT_OFB_IPV6_EXTHDR]"

interpretation oxm_ofb_match_fields: c_enum oxm_ofb_match_fields_val oxm_ofb_match_fields_all
proof unfold_locales
  show "e \<in> set oxm_ofb_match_fields_all" for e by (cases e) (simp_all add: oxm_ofb_match_fields_all_def)
qed (simp_all add: oxm_ofb_match_fields_all_def)

subsection \<open>\<open>enum ofp_vlan_id\<close>\<close>

datatype ofp_vlan_id =
    OFPVID_PRESENT | OFPVID_NONE

primrec ofp_vlan_id_val :: "ofp_vlan_id \<Rightarrow> u32" where
  "ofp_vlan_id_val OFPVID_PRESENT = 0x1000"
| "ofp_vlan_id_val OFPVID_NONE = 0x0000"

definition ofp_vlan_id_all :: "ofp_vlan_id list" where
  "ofp_vlan_id_all =
    [OFPVID_PRESENT, OFPVID_NONE]"

interpretation ofp_vlan_id: c_enum ofp_vlan_id_val ofp_vlan_id_all
proof unfold_locales
  show "e \<in> set ofp_vlan_id_all" for e by (cases e) (simp_all add: ofp_vlan_id_all_def)
qed (simp_all add: ofp_vlan_id_all_def)

subsection \<open>\<open>enum ofp_ipv6exthdr_flags\<close>\<close>

datatype ofp_ipv6exthdr_flags =
    OFPIEH_NONEXT | OFPIEH_ESP | OFPIEH_AUTH | OFPIEH_DEST | OFPIEH_FRAG | OFPIEH_ROUTER |
    OFPIEH_HOP | OFPIEH_UNREP | OFPIEH_UNSEQ

primrec ofp_ipv6exthdr_flags_val :: "ofp_ipv6exthdr_flags \<Rightarrow> u32" where
  "ofp_ipv6exthdr_flags_val OFPIEH_NONEXT = push_bit 0 1"
| "ofp_ipv6exthdr_flags_val OFPIEH_ESP = push_bit 1 1"
| "ofp_ipv6exthdr_flags_val OFPIEH_AUTH = push_bit 2 1"
| "ofp_ipv6exthdr_flags_val OFPIEH_DEST = push_bit 3 1"
| "ofp_ipv6exthdr_flags_val OFPIEH_FRAG = push_bit 4 1"
| "ofp_ipv6exthdr_flags_val OFPIEH_ROUTER = push_bit 5 1"
| "ofp_ipv6exthdr_flags_val OFPIEH_HOP = push_bit 6 1"
| "ofp_ipv6exthdr_flags_val OFPIEH_UNREP = push_bit 7 1"
| "ofp_ipv6exthdr_flags_val OFPIEH_UNSEQ = push_bit 8 1"

definition ofp_ipv6exthdr_flags_all :: "ofp_ipv6exthdr_flags list" where
  "ofp_ipv6exthdr_flags_all =
    [OFPIEH_NONEXT, OFPIEH_ESP, OFPIEH_AUTH, OFPIEH_DEST, OFPIEH_FRAG, OFPIEH_ROUTER,
     OFPIEH_HOP, OFPIEH_UNREP, OFPIEH_UNSEQ]"

interpretation ofp_ipv6exthdr_flags: c_flags ofp_ipv6exthdr_flags_val ofp_ipv6exthdr_flags_all
proof unfold_locales
  show "e \<in> set ofp_ipv6exthdr_flags_all" for e by (cases e) (simp_all add: ofp_ipv6exthdr_flags_all_def)
qed (simp_all add: ofp_ipv6exthdr_flags_all_def single_bit_def upt_rec)

subsection \<open>\<open>enum ofp_action_type\<close>\<close>

datatype ofp_action_type =
    OFPAT_OUTPUT | OFPAT_COPY_TTL_OUT | OFPAT_COPY_TTL_IN | OFPAT_SET_MPLS_TTL |
    OFPAT_DEC_MPLS_TTL | OFPAT_PUSH_VLAN | OFPAT_POP_VLAN | OFPAT_PUSH_MPLS | OFPAT_POP_MPLS
    | OFPAT_SET_QUEUE | OFPAT_GROUP | OFPAT_SET_NW_TTL | OFPAT_DEC_NW_TTL | OFPAT_SET_FIELD
    | OFPAT_PUSH_PBB | OFPAT_POP_PBB | OFPAT_EXPERIMENTER

primrec ofp_action_type_val :: "ofp_action_type \<Rightarrow> u32" where
  "ofp_action_type_val OFPAT_OUTPUT = 0"
| "ofp_action_type_val OFPAT_COPY_TTL_OUT = 11"
| "ofp_action_type_val OFPAT_COPY_TTL_IN = 12"
| "ofp_action_type_val OFPAT_SET_MPLS_TTL = 15"
| "ofp_action_type_val OFPAT_DEC_MPLS_TTL = 16"
| "ofp_action_type_val OFPAT_PUSH_VLAN = 17"
| "ofp_action_type_val OFPAT_POP_VLAN = 18"
| "ofp_action_type_val OFPAT_PUSH_MPLS = 19"
| "ofp_action_type_val OFPAT_POP_MPLS = 20"
| "ofp_action_type_val OFPAT_SET_QUEUE = 21"
| "ofp_action_type_val OFPAT_GROUP = 22"
| "ofp_action_type_val OFPAT_SET_NW_TTL = 23"
| "ofp_action_type_val OFPAT_DEC_NW_TTL = 24"
| "ofp_action_type_val OFPAT_SET_FIELD = 25"
| "ofp_action_type_val OFPAT_PUSH_PBB = 26"
| "ofp_action_type_val OFPAT_POP_PBB = 27"
| "ofp_action_type_val OFPAT_EXPERIMENTER = 0xffff"

definition ofp_action_type_all :: "ofp_action_type list" where
  "ofp_action_type_all =
    [OFPAT_OUTPUT, OFPAT_COPY_TTL_OUT, OFPAT_COPY_TTL_IN, OFPAT_SET_MPLS_TTL,
     OFPAT_DEC_MPLS_TTL, OFPAT_PUSH_VLAN, OFPAT_POP_VLAN, OFPAT_PUSH_MPLS, OFPAT_POP_MPLS,
     OFPAT_SET_QUEUE, OFPAT_GROUP, OFPAT_SET_NW_TTL, OFPAT_DEC_NW_TTL, OFPAT_SET_FIELD,
     OFPAT_PUSH_PBB, OFPAT_POP_PBB, OFPAT_EXPERIMENTER]"

interpretation ofp_action_type: c_enum ofp_action_type_val ofp_action_type_all
proof unfold_locales
  show "e \<in> set ofp_action_type_all" for e by (cases e) (simp_all add: ofp_action_type_all_def)
qed (simp_all add: ofp_action_type_all_def)

subsection \<open>\<open>enum ofp_controller_max_len\<close>\<close>

datatype ofp_controller_max_len =
    OFPCML_MAX | OFPCML_NO_BUFFER

primrec ofp_controller_max_len_val :: "ofp_controller_max_len \<Rightarrow> u32" where
  "ofp_controller_max_len_val OFPCML_MAX = 0xffe5"
| "ofp_controller_max_len_val OFPCML_NO_BUFFER = 0xffff"

definition ofp_controller_max_len_all :: "ofp_controller_max_len list" where
  "ofp_controller_max_len_all =
    [OFPCML_MAX, OFPCML_NO_BUFFER]"

interpretation ofp_controller_max_len: c_enum ofp_controller_max_len_val ofp_controller_max_len_all
proof unfold_locales
  show "e \<in> set ofp_controller_max_len_all" for e by (cases e) (simp_all add: ofp_controller_max_len_all_def)
qed (simp_all add: ofp_controller_max_len_all_def)

subsection \<open>\<open>enum ofp_instruction_type\<close>\<close>

datatype ofp_instruction_type =
    OFPIT_GOTO_TABLE | OFPIT_WRITE_METADATA | OFPIT_WRITE_ACTIONS | OFPIT_APPLY_ACTIONS |
    OFPIT_CLEAR_ACTIONS | OFPIT_METER | OFPIT_EXPERIMENTER

primrec ofp_instruction_type_val :: "ofp_instruction_type \<Rightarrow> u32" where
  "ofp_instruction_type_val OFPIT_GOTO_TABLE = 1"
| "ofp_instruction_type_val OFPIT_WRITE_METADATA = 2"
| "ofp_instruction_type_val OFPIT_WRITE_ACTIONS = 3"
| "ofp_instruction_type_val OFPIT_APPLY_ACTIONS = 4"
| "ofp_instruction_type_val OFPIT_CLEAR_ACTIONS = 5"
| "ofp_instruction_type_val OFPIT_METER = 6"
| "ofp_instruction_type_val OFPIT_EXPERIMENTER = 0xffff"

definition ofp_instruction_type_all :: "ofp_instruction_type list" where
  "ofp_instruction_type_all =
    [OFPIT_GOTO_TABLE, OFPIT_WRITE_METADATA, OFPIT_WRITE_ACTIONS, OFPIT_APPLY_ACTIONS,
     OFPIT_CLEAR_ACTIONS, OFPIT_METER, OFPIT_EXPERIMENTER]"

interpretation ofp_instruction_type: c_enum ofp_instruction_type_val ofp_instruction_type_all
proof unfold_locales
  show "e \<in> set ofp_instruction_type_all" for e by (cases e) (simp_all add: ofp_instruction_type_all_def)
qed (simp_all add: ofp_instruction_type_all_def)

subsection \<open>\<open>enum ofp_flow_mod_command\<close>\<close>

datatype ofp_flow_mod_command =
    OFPFC_ADD | OFPFC_MODIFY | OFPFC_MODIFY_STRICT | OFPFC_DELETE | OFPFC_DELETE_STRICT

primrec ofp_flow_mod_command_val :: "ofp_flow_mod_command \<Rightarrow> u32" where
  "ofp_flow_mod_command_val OFPFC_ADD = 0"
| "ofp_flow_mod_command_val OFPFC_MODIFY = 1"
| "ofp_flow_mod_command_val OFPFC_MODIFY_STRICT = 2"
| "ofp_flow_mod_command_val OFPFC_DELETE = 3"
| "ofp_flow_mod_command_val OFPFC_DELETE_STRICT = 4"

definition ofp_flow_mod_command_all :: "ofp_flow_mod_command list" where
  "ofp_flow_mod_command_all =
    [OFPFC_ADD, OFPFC_MODIFY, OFPFC_MODIFY_STRICT, OFPFC_DELETE, OFPFC_DELETE_STRICT]"

interpretation ofp_flow_mod_command: c_enum ofp_flow_mod_command_val ofp_flow_mod_command_all
proof unfold_locales
  show "e \<in> set ofp_flow_mod_command_all" for e by (cases e) (simp_all add: ofp_flow_mod_command_all_def)
qed (simp_all add: ofp_flow_mod_command_all_def)

subsection \<open>\<open>enum ofp_flow_mod_flags\<close>\<close>

datatype ofp_flow_mod_flags =
    OFPFF_SEND_FLOW_REM | OFPFF_CHECK_OVERLAP | OFPFF_RESET_COUNTS | OFPFF_NO_PKT_COUNTS |
    OFPFF_NO_BYT_COUNTS

primrec ofp_flow_mod_flags_val :: "ofp_flow_mod_flags \<Rightarrow> u32" where
  "ofp_flow_mod_flags_val OFPFF_SEND_FLOW_REM = push_bit 0 1"
| "ofp_flow_mod_flags_val OFPFF_CHECK_OVERLAP = push_bit 1 1"
| "ofp_flow_mod_flags_val OFPFF_RESET_COUNTS = push_bit 2 1"
| "ofp_flow_mod_flags_val OFPFF_NO_PKT_COUNTS = push_bit 3 1"
| "ofp_flow_mod_flags_val OFPFF_NO_BYT_COUNTS = push_bit 4 1"

definition ofp_flow_mod_flags_all :: "ofp_flow_mod_flags list" where
  "ofp_flow_mod_flags_all =
    [OFPFF_SEND_FLOW_REM, OFPFF_CHECK_OVERLAP, OFPFF_RESET_COUNTS, OFPFF_NO_PKT_COUNTS,
     OFPFF_NO_BYT_COUNTS]"

interpretation ofp_flow_mod_flags: c_flags ofp_flow_mod_flags_val ofp_flow_mod_flags_all
proof unfold_locales
  show "e \<in> set ofp_flow_mod_flags_all" for e by (cases e) (simp_all add: ofp_flow_mod_flags_all_def)
qed (simp_all add: ofp_flow_mod_flags_all_def single_bit_def upt_rec)

subsection \<open>\<open>enum ofp_group\<close>\<close>

datatype ofp_group =
    OFPG_MAX | OFPG_ALL | OFPG_ANY

primrec ofp_group_val :: "ofp_group \<Rightarrow> u32" where
  "ofp_group_val OFPG_MAX = 0xffffff00"
| "ofp_group_val OFPG_ALL = 0xfffffffc"
| "ofp_group_val OFPG_ANY = 0xffffffff"

definition ofp_group_all :: "ofp_group list" where
  "ofp_group_all =
    [OFPG_MAX, OFPG_ALL, OFPG_ANY]"

interpretation ofp_group: c_enum ofp_group_val ofp_group_all
proof unfold_locales
  show "e \<in> set ofp_group_all" for e by (cases e) (simp_all add: ofp_group_all_def)
qed (simp_all add: ofp_group_all_def)

subsection \<open>\<open>enum ofp_group_mod_command\<close>\<close>

datatype ofp_group_mod_command =
    OFPGC_ADD | OFPGC_MODIFY | OFPGC_DELETE

primrec ofp_group_mod_command_val :: "ofp_group_mod_command \<Rightarrow> u32" where
  "ofp_group_mod_command_val OFPGC_ADD = 0"
| "ofp_group_mod_command_val OFPGC_MODIFY = 1"
| "ofp_group_mod_command_val OFPGC_DELETE = 2"

definition ofp_group_mod_command_all :: "ofp_group_mod_command list" where
  "ofp_group_mod_command_all =
    [OFPGC_ADD, OFPGC_MODIFY, OFPGC_DELETE]"

interpretation ofp_group_mod_command: c_enum ofp_group_mod_command_val ofp_group_mod_command_all
proof unfold_locales
  show "e \<in> set ofp_group_mod_command_all" for e by (cases e) (simp_all add: ofp_group_mod_command_all_def)
qed (simp_all add: ofp_group_mod_command_all_def)

subsection \<open>\<open>enum ofp_group_type\<close>\<close>

datatype ofp_group_type =
    OFPGT_ALL | OFPGT_SELECT | OFPGT_INDIRECT | OFPGT_FF

primrec ofp_group_type_val :: "ofp_group_type \<Rightarrow> u32" where
  "ofp_group_type_val OFPGT_ALL = 0"
| "ofp_group_type_val OFPGT_SELECT = 1"
| "ofp_group_type_val OFPGT_INDIRECT = 2"
| "ofp_group_type_val OFPGT_FF = 3"

definition ofp_group_type_all :: "ofp_group_type list" where
  "ofp_group_type_all =
    [OFPGT_ALL, OFPGT_SELECT, OFPGT_INDIRECT, OFPGT_FF]"

interpretation ofp_group_type: c_enum ofp_group_type_val ofp_group_type_all
proof unfold_locales
  show "e \<in> set ofp_group_type_all" for e by (cases e) (simp_all add: ofp_group_type_all_def)
qed (simp_all add: ofp_group_type_all_def)

subsection \<open>\<open>enum ofp_packet_in_reason\<close>\<close>

datatype ofp_packet_in_reason =
    OFPR_NO_MATCH | OFPR_ACTION | OFPR_INVALID_TTL

primrec ofp_packet_in_reason_val :: "ofp_packet_in_reason \<Rightarrow> u32" where
  "ofp_packet_in_reason_val OFPR_NO_MATCH = 0"
| "ofp_packet_in_reason_val OFPR_ACTION = 1"
| "ofp_packet_in_reason_val OFPR_INVALID_TTL = 2"

definition ofp_packet_in_reason_all :: "ofp_packet_in_reason list" where
  "ofp_packet_in_reason_all =
    [OFPR_NO_MATCH, OFPR_ACTION, OFPR_INVALID_TTL]"

interpretation ofp_packet_in_reason: c_enum ofp_packet_in_reason_val ofp_packet_in_reason_all
proof unfold_locales
  show "e \<in> set ofp_packet_in_reason_all" for e by (cases e) (simp_all add: ofp_packet_in_reason_all_def)
qed (simp_all add: ofp_packet_in_reason_all_def)

subsection \<open>\<open>enum ofp_flow_removed_reason\<close>\<close>

datatype ofp_flow_removed_reason =
    OFPRR_IDLE_TIMEOUT | OFPRR_HARD_TIMEOUT | OFPRR_DELETE | OFPRR_GROUP_DELETE

primrec ofp_flow_removed_reason_val :: "ofp_flow_removed_reason \<Rightarrow> u32" where
  "ofp_flow_removed_reason_val OFPRR_IDLE_TIMEOUT = 0"
| "ofp_flow_removed_reason_val OFPRR_HARD_TIMEOUT = 1"
| "ofp_flow_removed_reason_val OFPRR_DELETE = 2"
| "ofp_flow_removed_reason_val OFPRR_GROUP_DELETE = 3"

definition ofp_flow_removed_reason_all :: "ofp_flow_removed_reason list" where
  "ofp_flow_removed_reason_all =
    [OFPRR_IDLE_TIMEOUT, OFPRR_HARD_TIMEOUT, OFPRR_DELETE, OFPRR_GROUP_DELETE]"

interpretation ofp_flow_removed_reason: c_enum ofp_flow_removed_reason_val ofp_flow_removed_reason_all
proof unfold_locales
  show "e \<in> set ofp_flow_removed_reason_all" for e by (cases e) (simp_all add: ofp_flow_removed_reason_all_def)
qed (simp_all add: ofp_flow_removed_reason_all_def)

subsection \<open>\<open>enum ofp_meter\<close>\<close>

datatype ofp_meter =
    OFPM_MAX | OFPM_SLOWPATH | OFPM_CONTROLLER | OFPM_ALL

primrec ofp_meter_val :: "ofp_meter \<Rightarrow> u32" where
  "ofp_meter_val OFPM_MAX = 0xffff0000"
| "ofp_meter_val OFPM_SLOWPATH = 0xfffffffd"
| "ofp_meter_val OFPM_CONTROLLER = 0xfffffffe"
| "ofp_meter_val OFPM_ALL = 0xffffffff"

definition ofp_meter_all :: "ofp_meter list" where
  "ofp_meter_all =
    [OFPM_MAX, OFPM_SLOWPATH, OFPM_CONTROLLER, OFPM_ALL]"

interpretation ofp_meter: c_enum ofp_meter_val ofp_meter_all
proof unfold_locales
  show "e \<in> set ofp_meter_all" for e by (cases e) (simp_all add: ofp_meter_all_def)
qed (simp_all add: ofp_meter_all_def)

subsection \<open>\<open>enum ofp_meter_band_type\<close>\<close>

datatype ofp_meter_band_type =
    OFPMBT_DROP | OFPMBT_DSCP_REMARK | OFPMBT_EXPERIMENTER

primrec ofp_meter_band_type_val :: "ofp_meter_band_type \<Rightarrow> u32" where
  "ofp_meter_band_type_val OFPMBT_DROP = 1"
| "ofp_meter_band_type_val OFPMBT_DSCP_REMARK = 2"
| "ofp_meter_band_type_val OFPMBT_EXPERIMENTER = 0xffff"

definition ofp_meter_band_type_all :: "ofp_meter_band_type list" where
  "ofp_meter_band_type_all =
    [OFPMBT_DROP, OFPMBT_DSCP_REMARK, OFPMBT_EXPERIMENTER]"

interpretation ofp_meter_band_type: c_enum ofp_meter_band_type_val ofp_meter_band_type_all
proof unfold_locales
  show "e \<in> set ofp_meter_band_type_all" for e by (cases e) (simp_all add: ofp_meter_band_type_all_def)
qed (simp_all add: ofp_meter_band_type_all_def)

subsection \<open>\<open>enum ofp_meter_mod_command\<close>\<close>

datatype ofp_meter_mod_command =
    OFPMC_ADD | OFPMC_MODIFY | OFPMC_DELETE

primrec ofp_meter_mod_command_val :: "ofp_meter_mod_command \<Rightarrow> u32" where
  "ofp_meter_mod_command_val OFPMC_ADD = 0"
| "ofp_meter_mod_command_val OFPMC_MODIFY = 1"
| "ofp_meter_mod_command_val OFPMC_DELETE = 2"

definition ofp_meter_mod_command_all :: "ofp_meter_mod_command list" where
  "ofp_meter_mod_command_all =
    [OFPMC_ADD, OFPMC_MODIFY, OFPMC_DELETE]"

interpretation ofp_meter_mod_command: c_enum ofp_meter_mod_command_val ofp_meter_mod_command_all
proof unfold_locales
  show "e \<in> set ofp_meter_mod_command_all" for e by (cases e) (simp_all add: ofp_meter_mod_command_all_def)
qed (simp_all add: ofp_meter_mod_command_all_def)

subsection \<open>\<open>enum ofp_meter_flags\<close>\<close>

datatype ofp_meter_flags =
    OFPMF_KBPS | OFPMF_PKTPS | OFPMF_BURST | OFPMF_STATS

primrec ofp_meter_flags_val :: "ofp_meter_flags \<Rightarrow> u32" where
  "ofp_meter_flags_val OFPMF_KBPS = push_bit 0 1"
| "ofp_meter_flags_val OFPMF_PKTPS = push_bit 1 1"
| "ofp_meter_flags_val OFPMF_BURST = push_bit 2 1"
| "ofp_meter_flags_val OFPMF_STATS = push_bit 3 1"

definition ofp_meter_flags_all :: "ofp_meter_flags list" where
  "ofp_meter_flags_all =
    [OFPMF_KBPS, OFPMF_PKTPS, OFPMF_BURST, OFPMF_STATS]"

interpretation ofp_meter_flags: c_flags ofp_meter_flags_val ofp_meter_flags_all
proof unfold_locales
  show "e \<in> set ofp_meter_flags_all" for e by (cases e) (simp_all add: ofp_meter_flags_all_def)
qed (simp_all add: ofp_meter_flags_all_def single_bit_def upt_rec)

subsection \<open>\<open>enum ofp_error_type\<close>\<close>

datatype ofp_error_type =
    OFPET_HELLO_FAILED | OFPET_BAD_REQUEST | OFPET_BAD_ACTION | OFPET_BAD_INSTRUCTION |
    OFPET_BAD_MATCH | OFPET_FLOW_MOD_FAILED | OFPET_GROUP_MOD_FAILED | OFPET_PORT_MOD_FAILED
    | OFPET_TABLE_MOD_FAILED | OFPET_QUEUE_OP_FAILED | OFPET_SWITCH_CONFIG_FAILED |
    OFPET_ROLE_REQUEST_FAILED | OFPET_METER_MOD_FAILED | OFPET_TABLE_FEATURES_FAILED |
    OFPET_EXPERIMENTER

primrec ofp_error_type_val :: "ofp_error_type \<Rightarrow> u32" where
  "ofp_error_type_val OFPET_HELLO_FAILED = 0"
| "ofp_error_type_val OFPET_BAD_REQUEST = 1"
| "ofp_error_type_val OFPET_BAD_ACTION = 2"
| "ofp_error_type_val OFPET_BAD_INSTRUCTION = 3"
| "ofp_error_type_val OFPET_BAD_MATCH = 4"
| "ofp_error_type_val OFPET_FLOW_MOD_FAILED = 5"
| "ofp_error_type_val OFPET_GROUP_MOD_FAILED = 6"
| "ofp_error_type_val OFPET_PORT_MOD_FAILED = 7"
| "ofp_error_type_val OFPET_TABLE_MOD_FAILED = 8"
| "ofp_error_type_val OFPET_QUEUE_OP_FAILED = 9"
| "ofp_error_type_val OFPET_SWITCH_CONFIG_FAILED = 10"
| "ofp_error_type_val OFPET_ROLE_REQUEST_FAILED = 11"
| "ofp_error_type_val OFPET_METER_MOD_FAILED = 12"
| "ofp_error_type_val OFPET_TABLE_FEATURES_FAILED = 13"
| "ofp_error_type_val OFPET_EXPERIMENTER = 0xffff"

definition ofp_error_type_all :: "ofp_error_type list" where
  "ofp_error_type_all =
    [OFPET_HELLO_FAILED, OFPET_BAD_REQUEST, OFPET_BAD_ACTION, OFPET_BAD_INSTRUCTION,
     OFPET_BAD_MATCH, OFPET_FLOW_MOD_FAILED, OFPET_GROUP_MOD_FAILED, OFPET_PORT_MOD_FAILED,
     OFPET_TABLE_MOD_FAILED, OFPET_QUEUE_OP_FAILED, OFPET_SWITCH_CONFIG_FAILED,
     OFPET_ROLE_REQUEST_FAILED, OFPET_METER_MOD_FAILED, OFPET_TABLE_FEATURES_FAILED,
     OFPET_EXPERIMENTER]"

interpretation ofp_error_type: c_enum ofp_error_type_val ofp_error_type_all
proof unfold_locales
  show "e \<in> set ofp_error_type_all" for e by (cases e) (simp_all add: ofp_error_type_all_def)
qed (simp_all add: ofp_error_type_all_def)

subsection \<open>\<open>enum ofp_hello_failed_code\<close>\<close>

datatype ofp_hello_failed_code =
    OFPHFC_INCOMPATIBLE | OFPHFC_EPERM

primrec ofp_hello_failed_code_val :: "ofp_hello_failed_code \<Rightarrow> u32" where
  "ofp_hello_failed_code_val OFPHFC_INCOMPATIBLE = 0"
| "ofp_hello_failed_code_val OFPHFC_EPERM = 1"

definition ofp_hello_failed_code_all :: "ofp_hello_failed_code list" where
  "ofp_hello_failed_code_all =
    [OFPHFC_INCOMPATIBLE, OFPHFC_EPERM]"

interpretation ofp_hello_failed_code: c_enum ofp_hello_failed_code_val ofp_hello_failed_code_all
proof unfold_locales
  show "e \<in> set ofp_hello_failed_code_all" for e by (cases e) (simp_all add: ofp_hello_failed_code_all_def)
qed (simp_all add: ofp_hello_failed_code_all_def)

subsection \<open>\<open>enum ofp_bad_request_code\<close>\<close>

datatype ofp_bad_request_code =
    OFPBRC_BAD_VERSION | OFPBRC_BAD_TYPE | OFPBRC_BAD_MULTIPART | OFPBRC_BAD_EXPERIMENTER |
    OFPBRC_BAD_EXP_TYPE | OFPBRC_EPERM | OFPBRC_BAD_LEN | OFPBRC_BUFFER_EMPTY |
    OFPBRC_BUFFER_UNKNOWN | OFPBRC_BAD_TABLE_ID | OFPBRC_IS_SLAVE | OFPBRC_BAD_PORT |
    OFPBRC_BAD_PACKET | OFPBRC_MULTIPART_BUFFER_OVERFLOW

primrec ofp_bad_request_code_val :: "ofp_bad_request_code \<Rightarrow> u32" where
  "ofp_bad_request_code_val OFPBRC_BAD_VERSION = 0"
| "ofp_bad_request_code_val OFPBRC_BAD_TYPE = 1"
| "ofp_bad_request_code_val OFPBRC_BAD_MULTIPART = 2"
| "ofp_bad_request_code_val OFPBRC_BAD_EXPERIMENTER = 3"
| "ofp_bad_request_code_val OFPBRC_BAD_EXP_TYPE = 4"
| "ofp_bad_request_code_val OFPBRC_EPERM = 5"
| "ofp_bad_request_code_val OFPBRC_BAD_LEN = 6"
| "ofp_bad_request_code_val OFPBRC_BUFFER_EMPTY = 7"
| "ofp_bad_request_code_val OFPBRC_BUFFER_UNKNOWN = 8"
| "ofp_bad_request_code_val OFPBRC_BAD_TABLE_ID = 9"
| "ofp_bad_request_code_val OFPBRC_IS_SLAVE = 10"
| "ofp_bad_request_code_val OFPBRC_BAD_PORT = 11"
| "ofp_bad_request_code_val OFPBRC_BAD_PACKET = 12"
| "ofp_bad_request_code_val OFPBRC_MULTIPART_BUFFER_OVERFLOW = 13"

definition ofp_bad_request_code_all :: "ofp_bad_request_code list" where
  "ofp_bad_request_code_all =
    [OFPBRC_BAD_VERSION, OFPBRC_BAD_TYPE, OFPBRC_BAD_MULTIPART, OFPBRC_BAD_EXPERIMENTER,
     OFPBRC_BAD_EXP_TYPE, OFPBRC_EPERM, OFPBRC_BAD_LEN, OFPBRC_BUFFER_EMPTY,
     OFPBRC_BUFFER_UNKNOWN, OFPBRC_BAD_TABLE_ID, OFPBRC_IS_SLAVE, OFPBRC_BAD_PORT,
     OFPBRC_BAD_PACKET, OFPBRC_MULTIPART_BUFFER_OVERFLOW]"

interpretation ofp_bad_request_code: c_enum ofp_bad_request_code_val ofp_bad_request_code_all
proof unfold_locales
  show "e \<in> set ofp_bad_request_code_all" for e by (cases e) (simp_all add: ofp_bad_request_code_all_def)
qed (simp_all add: ofp_bad_request_code_all_def)

subsection \<open>\<open>enum ofp_bad_action_code\<close>\<close>

datatype ofp_bad_action_code =
    OFPBAC_BAD_TYPE | OFPBAC_BAD_LEN | OFPBAC_BAD_EXPERIMENTER | OFPBAC_BAD_EXP_TYPE |
    OFPBAC_BAD_OUT_PORT | OFPBAC_BAD_ARGUMENT | OFPBAC_EPERM | OFPBAC_TOO_MANY |
    OFPBAC_BAD_QUEUE | OFPBAC_BAD_OUT_GROUP | OFPBAC_MATCH_INCONSISTENT |
    OFPBAC_UNSUPPORTED_ORDER | OFPBAC_BAD_TAG | OFPBAC_BAD_SET_TYPE | OFPBAC_BAD_SET_LEN |
    OFPBAC_BAD_SET_ARGUMENT

primrec ofp_bad_action_code_val :: "ofp_bad_action_code \<Rightarrow> u32" where
  "ofp_bad_action_code_val OFPBAC_BAD_TYPE = 0"
| "ofp_bad_action_code_val OFPBAC_BAD_LEN = 1"
| "ofp_bad_action_code_val OFPBAC_BAD_EXPERIMENTER = 2"
| "ofp_bad_action_code_val OFPBAC_BAD_EXP_TYPE = 3"
| "ofp_bad_action_code_val OFPBAC_BAD_OUT_PORT = 4"
| "ofp_bad_action_code_val OFPBAC_BAD_ARGUMENT = 5"
| "ofp_bad_action_code_val OFPBAC_EPERM = 6"
| "ofp_bad_action_code_val OFPBAC_TOO_MANY = 7"
| "ofp_bad_action_code_val OFPBAC_BAD_QUEUE = 8"
| "ofp_bad_action_code_val OFPBAC_BAD_OUT_GROUP = 9"
| "ofp_bad_action_code_val OFPBAC_MATCH_INCONSISTENT = 10"
| "ofp_bad_action_code_val OFPBAC_UNSUPPORTED_ORDER = 11"
| "ofp_bad_action_code_val OFPBAC_BAD_TAG = 12"
| "ofp_bad_action_code_val OFPBAC_BAD_SET_TYPE = 13"
| "ofp_bad_action_code_val OFPBAC_BAD_SET_LEN = 14"
| "ofp_bad_action_code_val OFPBAC_BAD_SET_ARGUMENT = 15"

definition ofp_bad_action_code_all :: "ofp_bad_action_code list" where
  "ofp_bad_action_code_all =
    [OFPBAC_BAD_TYPE, OFPBAC_BAD_LEN, OFPBAC_BAD_EXPERIMENTER, OFPBAC_BAD_EXP_TYPE,
     OFPBAC_BAD_OUT_PORT, OFPBAC_BAD_ARGUMENT, OFPBAC_EPERM, OFPBAC_TOO_MANY,
     OFPBAC_BAD_QUEUE, OFPBAC_BAD_OUT_GROUP, OFPBAC_MATCH_INCONSISTENT,
     OFPBAC_UNSUPPORTED_ORDER, OFPBAC_BAD_TAG, OFPBAC_BAD_SET_TYPE, OFPBAC_BAD_SET_LEN,
     OFPBAC_BAD_SET_ARGUMENT]"

interpretation ofp_bad_action_code: c_enum ofp_bad_action_code_val ofp_bad_action_code_all
proof unfold_locales
  show "e \<in> set ofp_bad_action_code_all" for e by (cases e) (simp_all add: ofp_bad_action_code_all_def)
qed (simp_all add: ofp_bad_action_code_all_def)

subsection \<open>\<open>enum ofp_bad_instruction_code\<close>\<close>

datatype ofp_bad_instruction_code =
    OFPBIC_UNKNOWN_INST | OFPBIC_UNSUP_INST | OFPBIC_BAD_TABLE_ID | OFPBIC_UNSUP_METADATA |
    OFPBIC_UNSUP_METADATA_MASK | OFPBIC_BAD_EXPERIMENTER | OFPBIC_BAD_EXP_TYPE |
    OFPBIC_BAD_LEN | OFPBIC_EPERM

primrec ofp_bad_instruction_code_val :: "ofp_bad_instruction_code \<Rightarrow> u32" where
  "ofp_bad_instruction_code_val OFPBIC_UNKNOWN_INST = 0"
| "ofp_bad_instruction_code_val OFPBIC_UNSUP_INST = 1"
| "ofp_bad_instruction_code_val OFPBIC_BAD_TABLE_ID = 2"
| "ofp_bad_instruction_code_val OFPBIC_UNSUP_METADATA = 3"
| "ofp_bad_instruction_code_val OFPBIC_UNSUP_METADATA_MASK = 4"
| "ofp_bad_instruction_code_val OFPBIC_BAD_EXPERIMENTER = 5"
| "ofp_bad_instruction_code_val OFPBIC_BAD_EXP_TYPE = 6"
| "ofp_bad_instruction_code_val OFPBIC_BAD_LEN = 7"
| "ofp_bad_instruction_code_val OFPBIC_EPERM = 8"

definition ofp_bad_instruction_code_all :: "ofp_bad_instruction_code list" where
  "ofp_bad_instruction_code_all =
    [OFPBIC_UNKNOWN_INST, OFPBIC_UNSUP_INST, OFPBIC_BAD_TABLE_ID, OFPBIC_UNSUP_METADATA,
     OFPBIC_UNSUP_METADATA_MASK, OFPBIC_BAD_EXPERIMENTER, OFPBIC_BAD_EXP_TYPE,
     OFPBIC_BAD_LEN, OFPBIC_EPERM]"

interpretation ofp_bad_instruction_code: c_enum ofp_bad_instruction_code_val ofp_bad_instruction_code_all
proof unfold_locales
  show "e \<in> set ofp_bad_instruction_code_all" for e by (cases e) (simp_all add: ofp_bad_instruction_code_all_def)
qed (simp_all add: ofp_bad_instruction_code_all_def)

subsection \<open>\<open>enum ofp_bad_match_code\<close>\<close>

datatype ofp_bad_match_code =
    OFPBMC_BAD_TYPE | OFPBMC_BAD_LEN | OFPBMC_BAD_TAG | OFPBMC_BAD_DL_ADDR_MASK |
    OFPBMC_BAD_NW_ADDR_MASK | OFPBMC_BAD_WILDCARDS | OFPBMC_BAD_FIELD | OFPBMC_BAD_VALUE |
    OFPBMC_BAD_MASK | OFPBMC_BAD_PREREQ | OFPBMC_DUP_FIELD | OFPBMC_EPERM

primrec ofp_bad_match_code_val :: "ofp_bad_match_code \<Rightarrow> u32" where
  "ofp_bad_match_code_val OFPBMC_BAD_TYPE = 0"
| "ofp_bad_match_code_val OFPBMC_BAD_LEN = 1"
| "ofp_bad_match_code_val OFPBMC_BAD_TAG = 2"
| "ofp_bad_match_code_val OFPBMC_BAD_DL_ADDR_MASK = 3"
| "ofp_bad_match_code_val OFPBMC_BAD_NW_ADDR_MASK = 4"
| "ofp_bad_match_code_val OFPBMC_BAD_WILDCARDS = 5"
| "ofp_bad_match_code_val OFPBMC_BAD_FIELD = 6"
| "ofp_bad_match_code_val OFPBMC_BAD_VALUE = 7"
| "ofp_bad_match_code_val OFPBMC_BAD_MASK = 8"
| "ofp_bad_match_code_val OFPBMC_BAD_PREREQ = 9"
| "ofp_bad_match_code_val OFPBMC_DUP_FIELD = 10"
| "ofp_bad_match_code_val OFPBMC_EPERM = 11"

definition ofp_bad_match_code_all :: "ofp_bad_match_code list" where
  "ofp_bad_match_code_all =
    [OFPBMC_BAD_TYPE, OFPBMC_BAD_LEN, OFPBMC_BAD_TAG, OFPBMC_BAD_DL_ADDR_MASK,
     OFPBMC_BAD_NW_ADDR_MASK, OFPBMC_BAD_WILDCARDS, OFPBMC_BAD_FIELD, OFPBMC_BAD_VALUE,
     OFPBMC_BAD_MASK, OFPBMC_BAD_PREREQ, OFPBMC_DUP_FIELD, OFPBMC_EPERM]"

interpretation ofp_bad_match_code: c_enum ofp_bad_match_code_val ofp_bad_match_code_all
proof unfold_locales
  show "e \<in> set ofp_bad_match_code_all" for e by (cases e) (simp_all add: ofp_bad_match_code_all_def)
qed (simp_all add: ofp_bad_match_code_all_def)

subsection \<open>\<open>enum ofp_flow_mod_failed_code\<close>\<close>

datatype ofp_flow_mod_failed_code =
    OFPFMFC_UNKNOWN | OFPFMFC_TABLE_FULL | OFPFMFC_BAD_TABLE_ID | OFPFMFC_OVERLAP |
    OFPFMFC_EPERM | OFPFMFC_BAD_TIMEOUT | OFPFMFC_BAD_COMMAND | OFPFMFC_BAD_FLAGS

primrec ofp_flow_mod_failed_code_val :: "ofp_flow_mod_failed_code \<Rightarrow> u32" where
  "ofp_flow_mod_failed_code_val OFPFMFC_UNKNOWN = 0"
| "ofp_flow_mod_failed_code_val OFPFMFC_TABLE_FULL = 1"
| "ofp_flow_mod_failed_code_val OFPFMFC_BAD_TABLE_ID = 2"
| "ofp_flow_mod_failed_code_val OFPFMFC_OVERLAP = 3"
| "ofp_flow_mod_failed_code_val OFPFMFC_EPERM = 4"
| "ofp_flow_mod_failed_code_val OFPFMFC_BAD_TIMEOUT = 5"
| "ofp_flow_mod_failed_code_val OFPFMFC_BAD_COMMAND = 6"
| "ofp_flow_mod_failed_code_val OFPFMFC_BAD_FLAGS = 7"

definition ofp_flow_mod_failed_code_all :: "ofp_flow_mod_failed_code list" where
  "ofp_flow_mod_failed_code_all =
    [OFPFMFC_UNKNOWN, OFPFMFC_TABLE_FULL, OFPFMFC_BAD_TABLE_ID, OFPFMFC_OVERLAP,
     OFPFMFC_EPERM, OFPFMFC_BAD_TIMEOUT, OFPFMFC_BAD_COMMAND, OFPFMFC_BAD_FLAGS]"

interpretation ofp_flow_mod_failed_code: c_enum ofp_flow_mod_failed_code_val ofp_flow_mod_failed_code_all
proof unfold_locales
  show "e \<in> set ofp_flow_mod_failed_code_all" for e by (cases e) (simp_all add: ofp_flow_mod_failed_code_all_def)
qed (simp_all add: ofp_flow_mod_failed_code_all_def)

subsection \<open>\<open>enum ofp_group_mod_failed_code\<close>\<close>

datatype ofp_group_mod_failed_code =
    OFPGMFC_GROUP_EXISTS | OFPGMFC_INVALID_GROUP | OFPGMFC_WEIGHT_UNSUPPORTED |
    OFPGMFC_OUT_OF_GROUPS | OFPGMFC_OUT_OF_BUCKETS | OFPGMFC_CHAINING_UNSUPPORTED |
    OFPGMFC_WATCH_UNSUPPORTED | OFPGMFC_LOOP | OFPGMFC_UNKNOWN_GROUP | OFPGMFC_CHAINED_GROUP
    | OFPGMFC_BAD_TYPE | OFPGMFC_BAD_COMMAND | OFPGMFC_BAD_BUCKET | OFPGMFC_BAD_WATCH |
    OFPGMFC_EPERM

primrec ofp_group_mod_failed_code_val :: "ofp_group_mod_failed_code \<Rightarrow> u32" where
  "ofp_group_mod_failed_code_val OFPGMFC_GROUP_EXISTS = 0"
| "ofp_group_mod_failed_code_val OFPGMFC_INVALID_GROUP = 1"
| "ofp_group_mod_failed_code_val OFPGMFC_WEIGHT_UNSUPPORTED = 2"
| "ofp_group_mod_failed_code_val OFPGMFC_OUT_OF_GROUPS = 3"
| "ofp_group_mod_failed_code_val OFPGMFC_OUT_OF_BUCKETS = 4"
| "ofp_group_mod_failed_code_val OFPGMFC_CHAINING_UNSUPPORTED = 5"
| "ofp_group_mod_failed_code_val OFPGMFC_WATCH_UNSUPPORTED = 6"
| "ofp_group_mod_failed_code_val OFPGMFC_LOOP = 7"
| "ofp_group_mod_failed_code_val OFPGMFC_UNKNOWN_GROUP = 8"
| "ofp_group_mod_failed_code_val OFPGMFC_CHAINED_GROUP = 9"
| "ofp_group_mod_failed_code_val OFPGMFC_BAD_TYPE = 10"
| "ofp_group_mod_failed_code_val OFPGMFC_BAD_COMMAND = 11"
| "ofp_group_mod_failed_code_val OFPGMFC_BAD_BUCKET = 12"
| "ofp_group_mod_failed_code_val OFPGMFC_BAD_WATCH = 13"
| "ofp_group_mod_failed_code_val OFPGMFC_EPERM = 14"

definition ofp_group_mod_failed_code_all :: "ofp_group_mod_failed_code list" where
  "ofp_group_mod_failed_code_all =
    [OFPGMFC_GROUP_EXISTS, OFPGMFC_INVALID_GROUP, OFPGMFC_WEIGHT_UNSUPPORTED,
     OFPGMFC_OUT_OF_GROUPS, OFPGMFC_OUT_OF_BUCKETS, OFPGMFC_CHAINING_UNSUPPORTED,
     OFPGMFC_WATCH_UNSUPPORTED, OFPGMFC_LOOP, OFPGMFC_UNKNOWN_GROUP, OFPGMFC_CHAINED_GROUP,
     OFPGMFC_BAD_TYPE, OFPGMFC_BAD_COMMAND, OFPGMFC_BAD_BUCKET, OFPGMFC_BAD_WATCH,
     OFPGMFC_EPERM]"

interpretation ofp_group_mod_failed_code: c_enum ofp_group_mod_failed_code_val ofp_group_mod_failed_code_all
proof unfold_locales
  show "e \<in> set ofp_group_mod_failed_code_all" for e by (cases e) (simp_all add: ofp_group_mod_failed_code_all_def)
qed (simp_all add: ofp_group_mod_failed_code_all_def)

subsection \<open>\<open>enum ofp_port_mod_failed_code\<close>\<close>

datatype ofp_port_mod_failed_code =
    OFPPMFC_BAD_PORT | OFPPMFC_BAD_HW_ADDR | OFPPMFC_BAD_CONFIG | OFPPMFC_BAD_ADVERTISE |
    OFPPMFC_EPERM

primrec ofp_port_mod_failed_code_val :: "ofp_port_mod_failed_code \<Rightarrow> u32" where
  "ofp_port_mod_failed_code_val OFPPMFC_BAD_PORT = 0"
| "ofp_port_mod_failed_code_val OFPPMFC_BAD_HW_ADDR = 1"
| "ofp_port_mod_failed_code_val OFPPMFC_BAD_CONFIG = 2"
| "ofp_port_mod_failed_code_val OFPPMFC_BAD_ADVERTISE = 3"
| "ofp_port_mod_failed_code_val OFPPMFC_EPERM = 4"

definition ofp_port_mod_failed_code_all :: "ofp_port_mod_failed_code list" where
  "ofp_port_mod_failed_code_all =
    [OFPPMFC_BAD_PORT, OFPPMFC_BAD_HW_ADDR, OFPPMFC_BAD_CONFIG, OFPPMFC_BAD_ADVERTISE,
     OFPPMFC_EPERM]"

interpretation ofp_port_mod_failed_code: c_enum ofp_port_mod_failed_code_val ofp_port_mod_failed_code_all
proof unfold_locales
  show "e \<in> set ofp_port_mod_failed_code_all" for e by (cases e) (simp_all add: ofp_port_mod_failed_code_all_def)
qed (simp_all add: ofp_port_mod_failed_code_all_def)

subsection \<open>\<open>enum ofp_table_mod_failed_code\<close>\<close>

datatype ofp_table_mod_failed_code =
    OFPTMFC_BAD_TABLE | OFPTMFC_BAD_CONFIG | OFPTMFC_EPERM

primrec ofp_table_mod_failed_code_val :: "ofp_table_mod_failed_code \<Rightarrow> u32" where
  "ofp_table_mod_failed_code_val OFPTMFC_BAD_TABLE = 0"
| "ofp_table_mod_failed_code_val OFPTMFC_BAD_CONFIG = 1"
| "ofp_table_mod_failed_code_val OFPTMFC_EPERM = 2"

definition ofp_table_mod_failed_code_all :: "ofp_table_mod_failed_code list" where
  "ofp_table_mod_failed_code_all =
    [OFPTMFC_BAD_TABLE, OFPTMFC_BAD_CONFIG, OFPTMFC_EPERM]"

interpretation ofp_table_mod_failed_code: c_enum ofp_table_mod_failed_code_val ofp_table_mod_failed_code_all
proof unfold_locales
  show "e \<in> set ofp_table_mod_failed_code_all" for e by (cases e) (simp_all add: ofp_table_mod_failed_code_all_def)
qed (simp_all add: ofp_table_mod_failed_code_all_def)

subsection \<open>\<open>enum ofp_queue_op_failed_code\<close>\<close>

datatype ofp_queue_op_failed_code =
    OFPQOFC_BAD_PORT | OFPQOFC_BAD_QUEUE | OFPQOFC_EPERM

primrec ofp_queue_op_failed_code_val :: "ofp_queue_op_failed_code \<Rightarrow> u32" where
  "ofp_queue_op_failed_code_val OFPQOFC_BAD_PORT = 0"
| "ofp_queue_op_failed_code_val OFPQOFC_BAD_QUEUE = 1"
| "ofp_queue_op_failed_code_val OFPQOFC_EPERM = 2"

definition ofp_queue_op_failed_code_all :: "ofp_queue_op_failed_code list" where
  "ofp_queue_op_failed_code_all =
    [OFPQOFC_BAD_PORT, OFPQOFC_BAD_QUEUE, OFPQOFC_EPERM]"

interpretation ofp_queue_op_failed_code: c_enum ofp_queue_op_failed_code_val ofp_queue_op_failed_code_all
proof unfold_locales
  show "e \<in> set ofp_queue_op_failed_code_all" for e by (cases e) (simp_all add: ofp_queue_op_failed_code_all_def)
qed (simp_all add: ofp_queue_op_failed_code_all_def)

subsection \<open>\<open>enum ofp_switch_config_failed_code\<close>\<close>

datatype ofp_switch_config_failed_code =
    OFPSCFC_BAD_FLAGS | OFPSCFC_BAD_LEN | OFPSCFC_EPERM

primrec ofp_switch_config_failed_code_val :: "ofp_switch_config_failed_code \<Rightarrow> u32" where
  "ofp_switch_config_failed_code_val OFPSCFC_BAD_FLAGS = 0"
| "ofp_switch_config_failed_code_val OFPSCFC_BAD_LEN = 1"
| "ofp_switch_config_failed_code_val OFPSCFC_EPERM = 2"

definition ofp_switch_config_failed_code_all :: "ofp_switch_config_failed_code list" where
  "ofp_switch_config_failed_code_all =
    [OFPSCFC_BAD_FLAGS, OFPSCFC_BAD_LEN, OFPSCFC_EPERM]"

interpretation ofp_switch_config_failed_code: c_enum ofp_switch_config_failed_code_val ofp_switch_config_failed_code_all
proof unfold_locales
  show "e \<in> set ofp_switch_config_failed_code_all" for e by (cases e) (simp_all add: ofp_switch_config_failed_code_all_def)
qed (simp_all add: ofp_switch_config_failed_code_all_def)

subsection \<open>\<open>enum ofp_role_request_failed_code\<close>\<close>

datatype ofp_role_request_failed_code =
    OFPRRFC_STALE | OFPRRFC_UNSUP | OFPRRFC_BAD_ROLE

primrec ofp_role_request_failed_code_val :: "ofp_role_request_failed_code \<Rightarrow> u32" where
  "ofp_role_request_failed_code_val OFPRRFC_STALE = 0"
| "ofp_role_request_failed_code_val OFPRRFC_UNSUP = 1"
| "ofp_role_request_failed_code_val OFPRRFC_BAD_ROLE = 2"

definition ofp_role_request_failed_code_all :: "ofp_role_request_failed_code list" where
  "ofp_role_request_failed_code_all =
    [OFPRRFC_STALE, OFPRRFC_UNSUP, OFPRRFC_BAD_ROLE]"

interpretation ofp_role_request_failed_code: c_enum ofp_role_request_failed_code_val ofp_role_request_failed_code_all
proof unfold_locales
  show "e \<in> set ofp_role_request_failed_code_all" for e by (cases e) (simp_all add: ofp_role_request_failed_code_all_def)
qed (simp_all add: ofp_role_request_failed_code_all_def)

subsection \<open>\<open>enum ofp_meter_mod_failed_code\<close>\<close>

datatype ofp_meter_mod_failed_code =
    OFPMMFC_UNKNOWN | OFPMMFC_METER_EXISTS | OFPMMFC_INVALID_METER | OFPMMFC_UNKNOWN_METER |
    OFPMMFC_BAD_COMMAND | OFPMMFC_BAD_FLAGS | OFPMMFC_BAD_RATE | OFPMMFC_BAD_BURST |
    OFPMMFC_BAD_BAND | OFPMMFC_BAD_BAND_VALUE | OFPMMFC_OUT_OF_METERS | OFPMMFC_OUT_OF_BANDS

primrec ofp_meter_mod_failed_code_val :: "ofp_meter_mod_failed_code \<Rightarrow> u32" where
  "ofp_meter_mod_failed_code_val OFPMMFC_UNKNOWN = 0"
| "ofp_meter_mod_failed_code_val OFPMMFC_METER_EXISTS = 1"
| "ofp_meter_mod_failed_code_val OFPMMFC_INVALID_METER = 2"
| "ofp_meter_mod_failed_code_val OFPMMFC_UNKNOWN_METER = 3"
| "ofp_meter_mod_failed_code_val OFPMMFC_BAD_COMMAND = 4"
| "ofp_meter_mod_failed_code_val OFPMMFC_BAD_FLAGS = 5"
| "ofp_meter_mod_failed_code_val OFPMMFC_BAD_RATE = 6"
| "ofp_meter_mod_failed_code_val OFPMMFC_BAD_BURST = 7"
| "ofp_meter_mod_failed_code_val OFPMMFC_BAD_BAND = 8"
| "ofp_meter_mod_failed_code_val OFPMMFC_BAD_BAND_VALUE = 9"
| "ofp_meter_mod_failed_code_val OFPMMFC_OUT_OF_METERS = 10"
| "ofp_meter_mod_failed_code_val OFPMMFC_OUT_OF_BANDS = 11"

definition ofp_meter_mod_failed_code_all :: "ofp_meter_mod_failed_code list" where
  "ofp_meter_mod_failed_code_all =
    [OFPMMFC_UNKNOWN, OFPMMFC_METER_EXISTS, OFPMMFC_INVALID_METER, OFPMMFC_UNKNOWN_METER,
     OFPMMFC_BAD_COMMAND, OFPMMFC_BAD_FLAGS, OFPMMFC_BAD_RATE, OFPMMFC_BAD_BURST,
     OFPMMFC_BAD_BAND, OFPMMFC_BAD_BAND_VALUE, OFPMMFC_OUT_OF_METERS, OFPMMFC_OUT_OF_BANDS]"

interpretation ofp_meter_mod_failed_code: c_enum ofp_meter_mod_failed_code_val ofp_meter_mod_failed_code_all
proof unfold_locales
  show "e \<in> set ofp_meter_mod_failed_code_all" for e by (cases e) (simp_all add: ofp_meter_mod_failed_code_all_def)
qed (simp_all add: ofp_meter_mod_failed_code_all_def)

subsection \<open>\<open>enum ofp_table_features_failed_code\<close>\<close>

datatype ofp_table_features_failed_code =
    OFPTFFC_BAD_TABLE | OFPTFFC_BAD_METADATA | OFPTFFC_BAD_TYPE | OFPTFFC_BAD_LEN |
    OFPTFFC_BAD_ARGUMENT | OFPTFFC_EPERM

primrec ofp_table_features_failed_code_val :: "ofp_table_features_failed_code \<Rightarrow> u32" where
  "ofp_table_features_failed_code_val OFPTFFC_BAD_TABLE = 0"
| "ofp_table_features_failed_code_val OFPTFFC_BAD_METADATA = 1"
| "ofp_table_features_failed_code_val OFPTFFC_BAD_TYPE = 2"
| "ofp_table_features_failed_code_val OFPTFFC_BAD_LEN = 3"
| "ofp_table_features_failed_code_val OFPTFFC_BAD_ARGUMENT = 4"
| "ofp_table_features_failed_code_val OFPTFFC_EPERM = 5"

definition ofp_table_features_failed_code_all :: "ofp_table_features_failed_code list" where
  "ofp_table_features_failed_code_all =
    [OFPTFFC_BAD_TABLE, OFPTFFC_BAD_METADATA, OFPTFFC_BAD_TYPE, OFPTFFC_BAD_LEN,
     OFPTFFC_BAD_ARGUMENT, OFPTFFC_EPERM]"

interpretation ofp_table_features_failed_code: c_enum ofp_table_features_failed_code_val ofp_table_features_failed_code_all
proof unfold_locales
  show "e \<in> set ofp_table_features_failed_code_all" for e by (cases e) (simp_all add: ofp_table_features_failed_code_all_def)
qed (simp_all add: ofp_table_features_failed_code_all_def)

subsection \<open>\<open>enum ofp_multipart_type\<close>\<close>

datatype ofp_multipart_type =
    OFPMP_DESC | OFPMP_FLOW | OFPMP_AGGREGATE | OFPMP_TABLE | OFPMP_PORT_STATS | OFPMP_QUEUE
    | OFPMP_GROUP | OFPMP_GROUP_DESC | OFPMP_GROUP_FEATURES | OFPMP_METER |
    OFPMP_METER_CONFIG | OFPMP_METER_FEATURES | OFPMP_TABLE_FEATURES | OFPMP_PORT_DESC |
    OFPMP_EXPERIMENTER

primrec ofp_multipart_type_val :: "ofp_multipart_type \<Rightarrow> u32" where
  "ofp_multipart_type_val OFPMP_DESC = 0"
| "ofp_multipart_type_val OFPMP_FLOW = 1"
| "ofp_multipart_type_val OFPMP_AGGREGATE = 2"
| "ofp_multipart_type_val OFPMP_TABLE = 3"
| "ofp_multipart_type_val OFPMP_PORT_STATS = 4"
| "ofp_multipart_type_val OFPMP_QUEUE = 5"
| "ofp_multipart_type_val OFPMP_GROUP = 6"
| "ofp_multipart_type_val OFPMP_GROUP_DESC = 7"
| "ofp_multipart_type_val OFPMP_GROUP_FEATURES = 8"
| "ofp_multipart_type_val OFPMP_METER = 9"
| "ofp_multipart_type_val OFPMP_METER_CONFIG = 10"
| "ofp_multipart_type_val OFPMP_METER_FEATURES = 11"
| "ofp_multipart_type_val OFPMP_TABLE_FEATURES = 12"
| "ofp_multipart_type_val OFPMP_PORT_DESC = 13"
| "ofp_multipart_type_val OFPMP_EXPERIMENTER = 0xffff"

definition ofp_multipart_type_all :: "ofp_multipart_type list" where
  "ofp_multipart_type_all =
    [OFPMP_DESC, OFPMP_FLOW, OFPMP_AGGREGATE, OFPMP_TABLE, OFPMP_PORT_STATS, OFPMP_QUEUE,
     OFPMP_GROUP, OFPMP_GROUP_DESC, OFPMP_GROUP_FEATURES, OFPMP_METER, OFPMP_METER_CONFIG,
     OFPMP_METER_FEATURES, OFPMP_TABLE_FEATURES, OFPMP_PORT_DESC, OFPMP_EXPERIMENTER]"

interpretation ofp_multipart_type: c_enum ofp_multipart_type_val ofp_multipart_type_all
proof unfold_locales
  show "e \<in> set ofp_multipart_type_all" for e by (cases e) (simp_all add: ofp_multipart_type_all_def)
qed (simp_all add: ofp_multipart_type_all_def)

subsection \<open>\<open>enum ofp_multipart_request_flags\<close>\<close>

datatype ofp_multipart_request_flags =
    OFPMPF_REQ_MORE

primrec ofp_multipart_request_flags_val :: "ofp_multipart_request_flags \<Rightarrow> u32" where
  "ofp_multipart_request_flags_val OFPMPF_REQ_MORE = push_bit 0 1"

definition ofp_multipart_request_flags_all :: "ofp_multipart_request_flags list" where
  "ofp_multipart_request_flags_all =
    [OFPMPF_REQ_MORE]"

interpretation ofp_multipart_request_flags: c_flags ofp_multipart_request_flags_val ofp_multipart_request_flags_all
proof unfold_locales
  show "e \<in> set ofp_multipart_request_flags_all" for e by (cases e) (simp_all add: ofp_multipart_request_flags_all_def)
qed (simp_all add: ofp_multipart_request_flags_all_def single_bit_def upt_rec)

subsection \<open>\<open>enum ofp_multipart_reply_flags\<close>\<close>

datatype ofp_multipart_reply_flags =
    OFPMPF_REPLY_MORE

primrec ofp_multipart_reply_flags_val :: "ofp_multipart_reply_flags \<Rightarrow> u32" where
  "ofp_multipart_reply_flags_val OFPMPF_REPLY_MORE = push_bit 0 1"

definition ofp_multipart_reply_flags_all :: "ofp_multipart_reply_flags list" where
  "ofp_multipart_reply_flags_all =
    [OFPMPF_REPLY_MORE]"

interpretation ofp_multipart_reply_flags: c_flags ofp_multipart_reply_flags_val ofp_multipart_reply_flags_all
proof unfold_locales
  show "e \<in> set ofp_multipart_reply_flags_all" for e by (cases e) (simp_all add: ofp_multipart_reply_flags_all_def)
qed (simp_all add: ofp_multipart_reply_flags_all_def single_bit_def upt_rec)

subsection \<open>\<open>enum ofp_table_feature_prop_type\<close>\<close>

datatype ofp_table_feature_prop_type =
    OFPTFPT_INSTRUCTIONS | OFPTFPT_INSTRUCTIONS_MISS | OFPTFPT_NEXT_TABLES |
    OFPTFPT_NEXT_TABLES_MISS | OFPTFPT_WRITE_ACTIONS | OFPTFPT_WRITE_ACTIONS_MISS |
    OFPTFPT_APPLY_ACTIONS | OFPTFPT_APPLY_ACTIONS_MISS | OFPTFPT_MATCH | OFPTFPT_WILDCARDS |
    OFPTFPT_WRITE_SETFIELD | OFPTFPT_WRITE_SETFIELD_MISS | OFPTFPT_APPLY_SETFIELD |
    OFPTFPT_APPLY_SETFIELD_MISS | OFPTFPT_EXPERIMENTER | OFPTFPT_EXPERIMENTER_MISS

primrec ofp_table_feature_prop_type_val :: "ofp_table_feature_prop_type \<Rightarrow> u32" where
  "ofp_table_feature_prop_type_val OFPTFPT_INSTRUCTIONS = 0"
| "ofp_table_feature_prop_type_val OFPTFPT_INSTRUCTIONS_MISS = 1"
| "ofp_table_feature_prop_type_val OFPTFPT_NEXT_TABLES = 2"
| "ofp_table_feature_prop_type_val OFPTFPT_NEXT_TABLES_MISS = 3"
| "ofp_table_feature_prop_type_val OFPTFPT_WRITE_ACTIONS = 4"
| "ofp_table_feature_prop_type_val OFPTFPT_WRITE_ACTIONS_MISS = 5"
| "ofp_table_feature_prop_type_val OFPTFPT_APPLY_ACTIONS = 6"
| "ofp_table_feature_prop_type_val OFPTFPT_APPLY_ACTIONS_MISS = 7"
| "ofp_table_feature_prop_type_val OFPTFPT_MATCH = 8"
| "ofp_table_feature_prop_type_val OFPTFPT_WILDCARDS = 10"
| "ofp_table_feature_prop_type_val OFPTFPT_WRITE_SETFIELD = 12"
| "ofp_table_feature_prop_type_val OFPTFPT_WRITE_SETFIELD_MISS = 13"
| "ofp_table_feature_prop_type_val OFPTFPT_APPLY_SETFIELD = 14"
| "ofp_table_feature_prop_type_val OFPTFPT_APPLY_SETFIELD_MISS = 15"
| "ofp_table_feature_prop_type_val OFPTFPT_EXPERIMENTER = 0xfffe"
| "ofp_table_feature_prop_type_val OFPTFPT_EXPERIMENTER_MISS = 0xffff"

definition ofp_table_feature_prop_type_all :: "ofp_table_feature_prop_type list" where
  "ofp_table_feature_prop_type_all =
    [OFPTFPT_INSTRUCTIONS, OFPTFPT_INSTRUCTIONS_MISS, OFPTFPT_NEXT_TABLES,
     OFPTFPT_NEXT_TABLES_MISS, OFPTFPT_WRITE_ACTIONS, OFPTFPT_WRITE_ACTIONS_MISS,
     OFPTFPT_APPLY_ACTIONS, OFPTFPT_APPLY_ACTIONS_MISS, OFPTFPT_MATCH, OFPTFPT_WILDCARDS,
     OFPTFPT_WRITE_SETFIELD, OFPTFPT_WRITE_SETFIELD_MISS, OFPTFPT_APPLY_SETFIELD,
     OFPTFPT_APPLY_SETFIELD_MISS, OFPTFPT_EXPERIMENTER, OFPTFPT_EXPERIMENTER_MISS]"

interpretation ofp_table_feature_prop_type: c_enum ofp_table_feature_prop_type_val ofp_table_feature_prop_type_all
proof unfold_locales
  show "e \<in> set ofp_table_feature_prop_type_all" for e by (cases e) (simp_all add: ofp_table_feature_prop_type_all_def)
qed (simp_all add: ofp_table_feature_prop_type_all_def)

subsection \<open>\<open>enum ofp_group_capabilities\<close>\<close>

datatype ofp_group_capabilities =
    OFPGFC_SELECT_WEIGHT | OFPGFC_SELECT_LIVENESS | OFPGFC_CHAINING | OFPGFC_CHAINING_CHECKS

primrec ofp_group_capabilities_val :: "ofp_group_capabilities \<Rightarrow> u32" where
  "ofp_group_capabilities_val OFPGFC_SELECT_WEIGHT = push_bit 0 1"
| "ofp_group_capabilities_val OFPGFC_SELECT_LIVENESS = push_bit 1 1"
| "ofp_group_capabilities_val OFPGFC_CHAINING = push_bit 2 1"
| "ofp_group_capabilities_val OFPGFC_CHAINING_CHECKS = push_bit 3 1"

definition ofp_group_capabilities_all :: "ofp_group_capabilities list" where
  "ofp_group_capabilities_all =
    [OFPGFC_SELECT_WEIGHT, OFPGFC_SELECT_LIVENESS, OFPGFC_CHAINING, OFPGFC_CHAINING_CHECKS]"

interpretation ofp_group_capabilities: c_flags ofp_group_capabilities_val ofp_group_capabilities_all
proof unfold_locales
  show "e \<in> set ofp_group_capabilities_all" for e by (cases e) (simp_all add: ofp_group_capabilities_all_def)
qed (simp_all add: ofp_group_capabilities_all_def single_bit_def upt_rec)

subsection \<open>\<open>enum ofp_queue_properties\<close>\<close>

datatype ofp_queue_properties =
    OFPQT_MIN_RATE | OFPQT_MAX_RATE | OFPQT_EXPERIMENTER

primrec ofp_queue_properties_val :: "ofp_queue_properties \<Rightarrow> u32" where
  "ofp_queue_properties_val OFPQT_MIN_RATE = 1"
| "ofp_queue_properties_val OFPQT_MAX_RATE = 2"
| "ofp_queue_properties_val OFPQT_EXPERIMENTER = 0xffff"

definition ofp_queue_properties_all :: "ofp_queue_properties list" where
  "ofp_queue_properties_all =
    [OFPQT_MIN_RATE, OFPQT_MAX_RATE, OFPQT_EXPERIMENTER]"

interpretation ofp_queue_properties: c_enum ofp_queue_properties_val ofp_queue_properties_all
proof unfold_locales
  show "e \<in> set ofp_queue_properties_all" for e by (cases e) (simp_all add: ofp_queue_properties_all_def)
qed (simp_all add: ofp_queue_properties_all_def)

subsection \<open>\<open>enum ofp_controller_role\<close>\<close>

datatype ofp_controller_role =
    OFPCR_ROLE_NOCHANGE | OFPCR_ROLE_EQUAL | OFPCR_ROLE_MASTER | OFPCR_ROLE_SLAVE

primrec ofp_controller_role_val :: "ofp_controller_role \<Rightarrow> u32" where
  "ofp_controller_role_val OFPCR_ROLE_NOCHANGE = 0"
| "ofp_controller_role_val OFPCR_ROLE_EQUAL = 1"
| "ofp_controller_role_val OFPCR_ROLE_MASTER = 2"
| "ofp_controller_role_val OFPCR_ROLE_SLAVE = 3"

definition ofp_controller_role_all :: "ofp_controller_role list" where
  "ofp_controller_role_all =
    [OFPCR_ROLE_NOCHANGE, OFPCR_ROLE_EQUAL, OFPCR_ROLE_MASTER, OFPCR_ROLE_SLAVE]"

interpretation ofp_controller_role: c_enum ofp_controller_role_val ofp_controller_role_all
proof unfold_locales
  show "e \<in> set ofp_controller_role_all" for e by (cases e) (simp_all add: ofp_controller_role_all_def)
qed (simp_all add: ofp_controller_role_all_def)

section \<open>Properties\<close>

text \<open>
  The message types are the numbers 0 to 29 without a gap, in the order of the header, so the
  cast of a type byte names an enumerator exactly for those numbers and then the one with that
  value: two types never share a dispatch key.
\<close>

theorem message_types_dense:
  "map ofp_type_val ofp_type_all = map of_nat [0..<30] \<and>
   (cast_enum ofp_type_val ofp_type_all n = Some t \<longleftrightarrow> ofp_type_val t = n) \<and>
   (cast_enum ofp_type_val ofp_type_all n = None \<longleftrightarrow> 30 \<le> unat n)"
proof -
  have vals: "map ofp_type_val ofp_type_all = map of_nat [0..<30]"
    by (simp add: ofp_type_all_def upt_rec)
  have "cast_enum ofp_type_val ofp_type_all n = None \<longleftrightarrow> n \<notin> set (map ofp_type_val ofp_type_all)"
    using ofp_type.complete by (auto simp: ofp_type.cast_None_iff)
  also have "\<dots> \<longleftrightarrow> 30 \<le> unat n"
  proof
    assume out: "n \<notin> set (map ofp_type_val ofp_type_all)"
    show "30 \<le> unat n"
    proof (rule ccontr)
      assume "\<not> 30 \<le> unat n"
      then have "n \<in> (of_nat :: nat \<Rightarrow> u32) ` {0..<30}" by (intro image_eqI [where x = "unat n"]) auto
      with out vals show False by simp
    qed
  next
    assume big: "30 \<le> unat n"
    have "unat (of_nat k :: u32) < 30" if "k < 30" for k using that by (simp add: unat_of_nat)
    with big show "n \<notin> set (map ofp_type_val ofp_type_all)" unfolding vals by force
  qed
  finally show ?thesis using vals ofp_type.cast_Some_iff by blast
qed

text \<open>
  The flag enumerations are sets of bits: in a bitmap made of any list of flags, testing a
  flag with \<open>&\<close> finds it exactly when it is in the list, for the flow mod flags and for the
  capabilities, configurations and states the switch reports.
\<close>

theorem flag_bitmaps_are_sets:
  "(has_flag ofp_flow_mod_flags_val (bitmap ofp_flow_mod_flags_val fs) f \<longleftrightarrow> f \<in> set fs) \<and>
   (has_flag ofp_capabilities_val (bitmap ofp_capabilities_val cs) c \<longleftrightarrow> c \<in> set cs) \<and>
   (has_flag ofp_port_config_val (bitmap ofp_port_config_val ps) p \<longleftrightarrow> p \<in> set ps) \<and>
   (has_flag ofp_port_state_val (bitmap ofp_port_state_val ss) s \<longleftrightarrow> s \<in> set ss) \<and>
   (has_flag ofp_port_features_val (bitmap ofp_port_features_val es) e \<longleftrightarrow> e \<in> set es)"
  by (simp add: ofp_flow_mod_flags.has_flag_bitmap ofp_capabilities.has_flag_bitmap
      ofp_port_config.has_flag_bitmap ofp_port_state.has_flag_bitmap ofp_port_features.has_flag_bitmap)

end
