(* ===== verification/OpenFlow_Oxm.thy ===== *)
theory OpenFlow_Oxm imports OpenFlow_Enums begin

text \<open>
  The OXM match-field headers of \<open>openflow.h\<close>: the macros that build a 32-bit header from class,
  field, mask flag and length, the macros that take it apart, and the headers of the basic
  class. A header is modelled as the \<open>uint32_t\<close> the protocol structures hold it in; the type a
  macro call has on its own (\<open>int\<close>, from its operands) is used in \<open>OXM_CLASS_int\<close>.
  \<open>OXM_HEADER_build\<close> is the macro spelled with two final underscores in the source.

  \<open>OXM_OF_MPLS_BOS\<close> is left out: its definition names \<open>OFPXMT_OFB_MPLS_BOS\<close>, which the header
  does not declare (the enumerator is spelled \<open>OFPXMT_OFP_MPLS_BOS\<close>), so it has no value.
\<close>

section \<open>The macros\<close>

definition OXM_HEADER_build :: "u32 \<Rightarrow> u32 \<Rightarrow> u32 \<Rightarrow> u32 \<Rightarrow> u32" where
  "OXM_HEADER_build c f m l = push_bit 16 c OR push_bit 9 f OR push_bit 8 m OR l"

definition OXM_HEADER :: "u32 \<Rightarrow> u32 \<Rightarrow> u32 \<Rightarrow> u32" where
  "OXM_HEADER c f l = OXM_HEADER_build c f 0 l"

definition OXM_HEADER_W :: "u32 \<Rightarrow> u32 \<Rightarrow> u32 \<Rightarrow> u32" where
  "OXM_HEADER_W c f l = OXM_HEADER_build c f 1 (l * 2)"

definition OXM_CLASS :: "u32 \<Rightarrow> u32" where "OXM_CLASS h = drop_bit 16 h"
definition OXM_FIELD :: "u32 \<Rightarrow> u32" where "OXM_FIELD h = drop_bit 9 h AND 0x7f"
definition OXM_TYPE :: "u32 \<Rightarrow> u32" where "OXM_TYPE h = drop_bit 9 h AND 0x7fffff"
definition OXM_HASMASK :: "u32 \<Rightarrow> u32" where "OXM_HASMASK h = drop_bit 8 h AND 1"
definition OXM_LENGTH :: "u32 \<Rightarrow> u32" where "OXM_LENGTH h = h AND 0xff"

definition OXM_MAKE_WILD_HEADER :: "u32 \<Rightarrow> u32" where
  "OXM_MAKE_WILD_HEADER h = OXM_HEADER_W (OXM_CLASS h) (OXM_FIELD h) (OXM_LENGTH h)"

text \<open>\<open>OXM_CLASS\<close> applied to an operand of type \<open>int\<close>: the shift keeps the sign.\<close>

definition OXM_CLASS_int :: "u32 \<Rightarrow> int" where
  "OXM_CLASS_int h = sint (signed_drop_bit 16 h)"

definition OFPXMT_OFB_ALL :: u64 where
  "OFPXMT_OFB_ALL = push_bit 40 1 - 1"

section \<open>Headers of the basic class\<close>

definition OXM_OF_IN_PORT :: u32 where
  "OXM_OF_IN_PORT = OXM_HEADER 0x8000 (oxm_ofb_match_fields_val OFPXMT_OFB_IN_PORT) 4"

definition OXM_OF_IN_PHY_PORT :: u32 where
  "OXM_OF_IN_PHY_PORT = OXM_HEADER 0x8000 (oxm_ofb_match_fields_val OFPXMT_OFB_IN_PHY_PORT) 4"

definition OXM_OF_METADATA :: u32 where
  "OXM_OF_METADATA = OXM_HEADER 0x8000 (oxm_ofb_match_fields_val OFPXMT_OFB_METADATA) 8"

definition OXM_OF_METADATA_W :: u32 where
  "OXM_OF_METADATA_W = OXM_HEADER_W 0x8000 (oxm_ofb_match_fields_val OFPXMT_OFB_METADATA) 8"

definition OXM_OF_ETH_DST :: u32 where
  "OXM_OF_ETH_DST = OXM_HEADER 0x8000 (oxm_ofb_match_fields_val OFPXMT_OFB_ETH_DST) 6"

definition OXM_OF_ETH_DST_W :: u32 where
  "OXM_OF_ETH_DST_W = OXM_HEADER_W 0x8000 (oxm_ofb_match_fields_val OFPXMT_OFB_ETH_DST) 6"

definition OXM_OF_ETH_SRC :: u32 where
  "OXM_OF_ETH_SRC = OXM_HEADER 0x8000 (oxm_ofb_match_fields_val OFPXMT_OFB_ETH_SRC) 6"

definition OXM_OF_ETH_SRC_W :: u32 where
  "OXM_OF_ETH_SRC_W = OXM_HEADER_W 0x8000 (oxm_ofb_match_fields_val OFPXMT_OFB_ETH_SRC) 6"

definition OXM_OF_ETH_TYPE :: u32 where
  "OXM_OF_ETH_TYPE = OXM_HEADER 0x8000 (oxm_ofb_match_fields_val OFPXMT_OFB_ETH_TYPE) 2"

definition OXM_OF_VLAN_VID :: u32 where
  "OXM_OF_VLAN_VID = OXM_HEADER 0x8000 (oxm_ofb_match_fields_val OFPXMT_OFB_VLAN_VID) 2"

definition OXM_OF_VLAN_VID_W :: u32 where
  "OXM_OF_VLAN_VID_W = OXM_HEADER_W 0x8000 (oxm_ofb_match_fields_val OFPXMT_OFB_VLAN_VID) 2"

definition OXM_OF_VLAN_PCP :: u32 where
  "OXM_OF_VLAN_PCP = OXM_HEADER 0x8000 (oxm_ofb_match_fields_val OFPXMT_OFB_VLAN_PCP) 1"

definition OXM_OF_IP_DSCP :: u32 where
  "OXM_OF_IP_DSCP = OXM_HEADER 0x8000 (oxm_ofb_match_fields_val OFPXMT_OFB_IP_DSCP) 1"

definition OXM_OF_IP_ECN :: u32 where
  "OXM_OF_IP_ECN = OXM_HEADER 0x8000 (oxm_ofb_match_fields_val OFPXMT_OFB_IP_ECN) 1"

definition OXM_OF_IP_PROTO :: u32 where
  "OXM_OF_IP_PROTO = OXM_HEADER 0x8000 (oxm_ofb_match_fields_val OFPXMT_OFB_IP_PROTO) 1"

definition OXM_OF_IPV4_SRC :: u32 where
  "OXM_OF_IPV4_SRC = OXM_HEADER 0x8000 (oxm_ofb_match_fields_val OFPXMT_OFB_IPV4_SRC) 4"

definition OXM_OF_IPV4_SRC_W :: u32 where
  "OXM_OF_IPV4_SRC_W = OXM_HEADER_W 0x8000 (oxm_ofb_match_fields_val OFPXMT_OFB_IPV4_SRC) 4"

definition OXM_OF_IPV4_DST :: u32 where
  "OXM_OF_IPV4_DST = OXM_HEADER 0x8000 (oxm_ofb_match_fields_val OFPXMT_OFB_IPV4_DST) 4"

definition OXM_OF_IPV4_DST_W :: u32 where
  "OXM_OF_IPV4_DST_W = OXM_HEADER_W 0x8000 (oxm_ofb_match_fields_val OFPXMT_OFB_IPV4_DST) 4"

definition OXM_OF_TCP_SRC :: u32 where
  "OXM_OF_TCP_SRC = OXM_HEADER 0x8000 (oxm_ofb_match_fields_val OFPXMT_OFB_TCP_SRC) 2"

definition OXM_OF_TCP_DST :: u32 where
  "OXM_OF_TCP_DST = OXM_HEADER 0x8000 (oxm_ofb_match_fields_val OFPXMT_OFB_TCP_DST) 2"

definition OXM_OF_UDP_SRC :: u32 where
  "OXM_OF_UDP_SRC = OXM_HEADER 0x8000 (oxm_ofb_match_fields_val OFPXMT_OFB_UDP_SRC) 2"

definition OXM_OF_UDP_DST :: u32 where
  "OXM_OF_UDP_DST = OXM_HEADER 0x8000 (oxm_ofb_match_fields_val OFPXMT_OFB_UDP_DST) 2"

definition OXM_OF_SCTP_SRC :: u32 where
  "OXM_OF_SCTP_SRC = OXM_HEADER 0x8000 (oxm_ofb_match_fields_val OFPXMT_OFB_SCTP_SRC) 2"

definition OXM_OF_SCTP_DST :: u32 where
  "OXM_OF_SCTP_DST = OXM_HEADER 0x8000 (oxm_ofb_match_fields_val OFPXMT_OFB_SCTP_DST) 2"

definition OXM_OF_ICMPV4_TYPE :: u32 where
  "OXM_OF_ICMPV4_TYPE = OXM_HEADER 0x8000 (oxm_ofb_match_fields_val OFPXMT_OFB_ICMPV4_TYPE) 1"

definition OXM_OF_ICMPV4_CODE :: u32 where
  "OXM_OF_ICMPV4_CODE = OXM_HEADER 0x8000 (oxm_ofb_match_fields_val OFPXMT_OFB_ICMPV4_CODE) 1"

definition OXM_OF_ARP_OP :: u32 where
  "OXM_OF_ARP_OP = OXM_HEADER 0x8000 (oxm_ofb_match_fields_val OFPXMT_OFB_ARP_OP) 2"

definition OXM_OF_ARP_SPA :: u32 where
  "OXM_OF_ARP_SPA = OXM_HEADER 0x8000 (oxm_ofb_match_fields_val OFPXMT_OFB_ARP_SPA) 4"

definition OXM_OF_ARP_SPA_W :: u32 where
  "OXM_OF_ARP_SPA_W = OXM_HEADER_W 0x8000 (oxm_ofb_match_fields_val OFPXMT_OFB_ARP_SPA) 4"

definition OXM_OF_ARP_TPA :: u32 where
  "OXM_OF_ARP_TPA = OXM_HEADER 0x8000 (oxm_ofb_match_fields_val OFPXMT_OFB_ARP_TPA) 4"

definition OXM_OF_ARP_TPA_W :: u32 where
  "OXM_OF_ARP_TPA_W = OXM_HEADER_W 0x8000 (oxm_ofb_match_fields_val OFPXMT_OFB_ARP_TPA) 4"

definition OXM_OF_ARP_SHA :: u32 where
  "OXM_OF_ARP_SHA = OXM_HEADER 0x8000 (oxm_ofb_match_fields_val OFPXMT_OFB_ARP_SHA) 6"

definition OXM_OF_ARP_THA :: u32 where
  "OXM_OF_ARP_THA = OXM_HEADER 0x8000 (oxm_ofb_match_fields_val OFPXMT_OFB_ARP_THA) 6"

definition OXM_OF_IPV6_SRC :: u32 where
  "OXM_OF_IPV6_SRC = OXM_HEADER 0x8000 (oxm_ofb_match_fields_val OFPXMT_OFB_IPV6_SRC) 16"

definition OXM_OF_IPV6_SRC_W :: u32 where
  "OXM_OF_IPV6_SRC_W = OXM_HEADER_W 0x8000 (oxm_ofb_match_fields_val OFPXMT_OFB_IPV6_SRC) 16"

definition OXM_OF_IPV6_DST :: u32 where
  "OXM_OF_IPV6_DST = OXM_HEADER 0x8000 (oxm_ofb_match_fields_val OFPXMT_OFB_IPV6_DST) 16"

definition OXM_OF_IPV6_DST_W :: u32 where
  "OXM_OF_IPV6_DST_W = OXM_HEADER_W 0x8000 (oxm_ofb_match_fields_val OFPXMT_OFB_IPV6_DST) 16"

definition OXM_OF_IPV6_FLABEL :: u32 where
  "OXM_OF_IPV6_FLABEL = OXM_HEADER 0x8000 (oxm_ofb_match_fields_val OFPXMT_OFB_IPV6_FLABEL) 4"

definition OXM_OF_ICMPV6_TYPE :: u32 where
  "OXM_OF_ICMPV6_TYPE = OXM_HEADER 0x8000 (oxm_ofb_match_fields_val OFPXMT_OFB_ICMPV6_TYPE) 1"

definition OXM_OF_ICMPV6_CODE :: u32 where
  "OXM_OF_ICMPV6_CODE = OXM_HEADER 0x8000 (oxm_ofb_match_fields_val OFPXMT_OFB_ICMPV6_CODE) 1"

definition OXM_OF_IPV6_ND_TARGET :: u32 where
  "OXM_OF_IPV6_ND_TARGET = OXM_HEADER 0x8000 (oxm_ofb_match_fields_val OFPXMT_OFB_IPV6_ND_TARGET) 16"

definition OXM_OF_IPV6_ND_SLL :: u32 where
  "OXM_OF_IPV6_ND_SLL = OXM_HEADER 0x8000 (oxm_ofb_match_fields_val OFPXMT_OFB_IPV6_ND_SLL) 6"

definition OXM_OF_IPV6_ND_TLL :: u32 where
  "OXM_OF_IPV6_ND_TLL = OXM_HEADER 0x8000 (oxm_ofb_match_fields_val OFPXMT_OFB_IPV6_ND_TLL) 6"

definition OXM_OF_MPLS_LABEL :: u32 where
  "OXM_OF_MPLS_LABEL = OXM_HEADER 0x8000 (oxm_ofb_match_fields_val OFPXMT_OFB_MPLS_LABEL) 4"

definition OXM_OF_MPLS_TC :: u32 where
  "OXM_OF_MPLS_TC = OXM_HEADER 0x8000 (oxm_ofb_match_fields_val OFPXMT_OFB_MPLS_TC) 1"

definition OXM_OF_PBB_ISID :: u32 where
  "OXM_OF_PBB_ISID = OXM_HEADER 0x8000 (oxm_ofb_match_fields_val OFPXMT_OFB_PBB_ISID) 3"

definition OXM_OF_PBB_ISID_W :: u32 where
  "OXM_OF_PBB_ISID_W = OXM_HEADER_W 0x8000 (oxm_ofb_match_fields_val OFPXMT_OFB_PBB_ISID) 3"

definition OXM_OF_TUNNEL_ID :: u32 where
  "OXM_OF_TUNNEL_ID = OXM_HEADER 0x8000 (oxm_ofb_match_fields_val OFPXMT_OFB_TUNNEL_ID) 8"

definition OXM_OF_TUNNEL_ID_W :: u32 where
  "OXM_OF_TUNNEL_ID_W = OXM_HEADER_W 0x8000 (oxm_ofb_match_fields_val OFPXMT_OFB_TUNNEL_ID) 8"

definition OXM_OF_IPV6_EXTHDR :: u32 where
  "OXM_OF_IPV6_EXTHDR = OXM_HEADER 0x8000 (oxm_ofb_match_fields_val OFPXMT_OFB_IPV6_EXTHDR) 2"

definition OXM_OF_IPV6_EXTHDR_W :: u32 where
  "OXM_OF_IPV6_EXTHDR_W = OXM_HEADER_W 0x8000 (oxm_ofb_match_fields_val OFPXMT_OFB_IPV6_EXTHDR) 2"

lemmas oxm_of_defs =
  OXM_OF_IN_PORT_def OXM_OF_IN_PHY_PORT_def OXM_OF_METADATA_def OXM_OF_METADATA_W_def
  OXM_OF_ETH_DST_def OXM_OF_ETH_DST_W_def OXM_OF_ETH_SRC_def OXM_OF_ETH_SRC_W_def
  OXM_OF_ETH_TYPE_def OXM_OF_VLAN_VID_def OXM_OF_VLAN_VID_W_def OXM_OF_VLAN_PCP_def
  OXM_OF_IP_DSCP_def OXM_OF_IP_ECN_def OXM_OF_IP_PROTO_def OXM_OF_IPV4_SRC_def
  OXM_OF_IPV4_SRC_W_def OXM_OF_IPV4_DST_def OXM_OF_IPV4_DST_W_def OXM_OF_TCP_SRC_def
  OXM_OF_TCP_DST_def OXM_OF_UDP_SRC_def OXM_OF_UDP_DST_def OXM_OF_SCTP_SRC_def
  OXM_OF_SCTP_DST_def OXM_OF_ICMPV4_TYPE_def OXM_OF_ICMPV4_CODE_def OXM_OF_ARP_OP_def
  OXM_OF_ARP_SPA_def OXM_OF_ARP_SPA_W_def OXM_OF_ARP_TPA_def OXM_OF_ARP_TPA_W_def
  OXM_OF_ARP_SHA_def OXM_OF_ARP_THA_def OXM_OF_IPV6_SRC_def OXM_OF_IPV6_SRC_W_def
  OXM_OF_IPV6_DST_def OXM_OF_IPV6_DST_W_def OXM_OF_IPV6_FLABEL_def OXM_OF_ICMPV6_TYPE_def
  OXM_OF_ICMPV6_CODE_def OXM_OF_IPV6_ND_TARGET_def OXM_OF_IPV6_ND_SLL_def
  OXM_OF_IPV6_ND_TLL_def OXM_OF_MPLS_LABEL_def OXM_OF_MPLS_TC_def OXM_OF_PBB_ISID_def
  OXM_OF_PBB_ISID_W_def OXM_OF_TUNNEL_ID_def OXM_OF_TUNNEL_ID_W_def OXM_OF_IPV6_EXTHDR_def
  OXM_OF_IPV6_EXTHDR_W_def

text \<open>
  The exact-match headers with the field and the value width each names, and the maskable ones
  with their exact counterpart.
\<close>

definition oxm_exact :: "(u32 \<times> oxm_ofb_match_fields \<times> nat) list" where
  "oxm_exact =
    [(OXM_OF_IN_PORT, OFPXMT_OFB_IN_PORT, 4),
     (OXM_OF_IN_PHY_PORT, OFPXMT_OFB_IN_PHY_PORT, 4),
     (OXM_OF_METADATA, OFPXMT_OFB_METADATA, 8),
     (OXM_OF_ETH_DST, OFPXMT_OFB_ETH_DST, 6),
     (OXM_OF_ETH_SRC, OFPXMT_OFB_ETH_SRC, 6),
     (OXM_OF_ETH_TYPE, OFPXMT_OFB_ETH_TYPE, 2),
     (OXM_OF_VLAN_VID, OFPXMT_OFB_VLAN_VID, 2),
     (OXM_OF_VLAN_PCP, OFPXMT_OFB_VLAN_PCP, 1),
     (OXM_OF_IP_DSCP, OFPXMT_OFB_IP_DSCP, 1),
     (OXM_OF_IP_ECN, OFPXMT_OFB_IP_ECN, 1),
     (OXM_OF_IP_PROTO, OFPXMT_OFB_IP_PROTO, 1),
     (OXM_OF_IPV4_SRC, OFPXMT_OFB_IPV4_SRC, 4),
     (OXM_OF_IPV4_DST, OFPXMT_OFB_IPV4_DST, 4),
     (OXM_OF_TCP_SRC, OFPXMT_OFB_TCP_SRC, 2),
     (OXM_OF_TCP_DST, OFPXMT_OFB_TCP_DST, 2),
     (OXM_OF_UDP_SRC, OFPXMT_OFB_UDP_SRC, 2),
     (OXM_OF_UDP_DST, OFPXMT_OFB_UDP_DST, 2),
     (OXM_OF_SCTP_SRC, OFPXMT_OFB_SCTP_SRC, 2),
     (OXM_OF_SCTP_DST, OFPXMT_OFB_SCTP_DST, 2),
     (OXM_OF_ICMPV4_TYPE, OFPXMT_OFB_ICMPV4_TYPE, 1),
     (OXM_OF_ICMPV4_CODE, OFPXMT_OFB_ICMPV4_CODE, 1),
     (OXM_OF_ARP_OP, OFPXMT_OFB_ARP_OP, 2),
     (OXM_OF_ARP_SPA, OFPXMT_OFB_ARP_SPA, 4),
     (OXM_OF_ARP_TPA, OFPXMT_OFB_ARP_TPA, 4),
     (OXM_OF_ARP_SHA, OFPXMT_OFB_ARP_SHA, 6),
     (OXM_OF_ARP_THA, OFPXMT_OFB_ARP_THA, 6),
     (OXM_OF_IPV6_SRC, OFPXMT_OFB_IPV6_SRC, 16),
     (OXM_OF_IPV6_DST, OFPXMT_OFB_IPV6_DST, 16),
     (OXM_OF_IPV6_FLABEL, OFPXMT_OFB_IPV6_FLABEL, 4),
     (OXM_OF_ICMPV6_TYPE, OFPXMT_OFB_ICMPV6_TYPE, 1),
     (OXM_OF_ICMPV6_CODE, OFPXMT_OFB_ICMPV6_CODE, 1),
     (OXM_OF_IPV6_ND_TARGET, OFPXMT_OFB_IPV6_ND_TARGET, 16),
     (OXM_OF_IPV6_ND_SLL, OFPXMT_OFB_IPV6_ND_SLL, 6),
     (OXM_OF_IPV6_ND_TLL, OFPXMT_OFB_IPV6_ND_TLL, 6),
     (OXM_OF_MPLS_LABEL, OFPXMT_OFB_MPLS_LABEL, 4),
     (OXM_OF_MPLS_TC, OFPXMT_OFB_MPLS_TC, 1),
     (OXM_OF_PBB_ISID, OFPXMT_OFB_PBB_ISID, 3),
     (OXM_OF_TUNNEL_ID, OFPXMT_OFB_TUNNEL_ID, 8),
     (OXM_OF_IPV6_EXTHDR, OFPXMT_OFB_IPV6_EXTHDR, 2)]"

definition oxm_wild :: "(u32 \<times> u32) list" where
  "oxm_wild =
    [(OXM_OF_METADATA_W, OXM_OF_METADATA),
     (OXM_OF_ETH_DST_W, OXM_OF_ETH_DST),
     (OXM_OF_ETH_SRC_W, OXM_OF_ETH_SRC),
     (OXM_OF_VLAN_VID_W, OXM_OF_VLAN_VID),
     (OXM_OF_IPV4_SRC_W, OXM_OF_IPV4_SRC),
     (OXM_OF_IPV4_DST_W, OXM_OF_IPV4_DST),
     (OXM_OF_ARP_SPA_W, OXM_OF_ARP_SPA),
     (OXM_OF_ARP_TPA_W, OXM_OF_ARP_TPA),
     (OXM_OF_IPV6_SRC_W, OXM_OF_IPV6_SRC),
     (OXM_OF_IPV6_DST_W, OXM_OF_IPV6_DST),
     (OXM_OF_PBB_ISID_W, OXM_OF_PBB_ISID),
     (OXM_OF_TUNNEL_ID_W, OXM_OF_TUNNEL_ID),
     (OXM_OF_IPV6_EXTHDR_W, OXM_OF_IPV6_EXTHDR)]"

section \<open>Taking a header apart\<close>

lemma field_masks:
  "(0x7f :: u32) = mask 7" "(0x7fffff :: u32) = mask 23" "(1 :: u32) = mask 1" "(0xff :: u32) = mask 8"
  by (simp_all add: mask_eq_exp_minus_1)

lemmas oxm_take_defs = OXM_CLASS_def OXM_FIELD_def OXM_TYPE_def OXM_HASMASK_def OXM_LENGTH_def

lemma bounded_bit:
  assumes "unat (w :: u32) < 2 ^ n" and "n \<le> k"
  shows "\<not> bit w k"
proof
  assume "bit w k"
  then have "bit (take_bit n (unat w)) k"
    using assms(1) by (simp add: take_bit_nat_eq_self bit_unsigned_iff bit_imp_le_length)
  then show False using assms(2) by (simp add: bit_take_bit_iff)
qed

lemma bit_header:
  "bit (OXM_HEADER_build c f m l) n \<longleftrightarrow> n < 32 \<and>
     (16 \<le> n \<and> bit c (n - 16) \<or> 9 \<le> n \<and> bit f (n - 9) \<or> 8 \<le> n \<and> bit m (n - 8) \<or> bit l n)"
  by (auto simp: OXM_HEADER_build_def bit_simps dest: bit_imp_le_length)

lemmas bit_oxm =
  bit_header OXM_CLASS_def OXM_FIELD_def OXM_TYPE_def OXM_HASMASK_def OXM_LENGTH_def
  bit_and_iff bit_drop_bit_eq bit_mask_iff field_masks(1,2,4)

lemma bit_u32_1: "bit (1 :: u32) n \<longleftrightarrow> n = 0"
  by (simp add: bit_1_iff)

text \<open>
  The contract of a packed header: the four components and the bits that hold them. Building and
  taking apart are inverse in both directions.
\<close>

locale oxm_components =
  fixes c f m l :: u32
  assumes in_range: "unat c < 2 ^ 16" "unat f < 2 ^ 7" "unat m < 2 ^ 1" "unat l < 2 ^ 8"
begin

lemmas no_bit = in_range [THEN bounded_bit]

lemma class_of_build: "OXM_CLASS (OXM_HEADER_build c f m l) = c"
proof (rule bit_word_eqI)
  fix n show "bit (OXM_CLASS (OXM_HEADER_build c f m l)) n = bit c n"
    by (cases "n < 16") (auto simp: bit_oxm no_bit)
qed

lemma field_of_build: "OXM_FIELD (OXM_HEADER_build c f m l) = f"
proof (rule bit_word_eqI)
  fix n show "bit (OXM_FIELD (OXM_HEADER_build c f m l)) n = bit f n"
    by (cases "n < 7") (auto simp: bit_oxm no_bit)
qed

lemma hasmask_of_build: "OXM_HASMASK (OXM_HEADER_build c f m l) = m"
proof (rule bit_word_eqI)
  fix n show "bit (OXM_HASMASK (OXM_HEADER_build c f m l)) n = bit m n"
    by (cases "n = 0") (auto simp: bit_oxm no_bit bit_u32_1)
qed

lemma length_of_build: "OXM_LENGTH (OXM_HEADER_build c f m l) = l"
proof (rule bit_word_eqI)
  fix n show "bit (OXM_LENGTH (OXM_HEADER_build c f m l)) n = bit l n"
    by (cases "n < 8") (auto simp: bit_oxm no_bit)
qed

end

lemma build_of_components:
  "OXM_HEADER_build (OXM_CLASS h) (OXM_FIELD h) (OXM_HASMASK h) (OXM_LENGTH h) = h"
proof (rule bit_word_eqI)
  fix n :: nat
  assume "n < LENGTH(32)"
  then consider "n < 8" | "n = 8" | "9 \<le> n" "n < 16" | "16 \<le> n" "n < 32" by fastforce
  then show "bit (OXM_HEADER_build (OXM_CLASS h) (OXM_FIELD h) (OXM_HASMASK h) (OXM_LENGTH h)) n = bit h n"
    by cases (auto simp: bit_oxm bit_u32_1)
qed

lemma components_in_range:
  "unat (OXM_CLASS h) < 2 ^ 16" "unat (OXM_FIELD h) < 2 ^ 7"
  "unat (OXM_HASMASK h) < 2 ^ 1" "unat (OXM_LENGTH h) < 2 ^ 8"
proof -
  have "unat h < 2 ^ 32" using unsigned_less [of h] by simp
  then show "unat (OXM_CLASS h) < 2 ^ 16"
    unfolding OXM_CLASS_def unat_drop_bit_eq by (simp add: drop_bit_eq_div div_less_iff_less_mult)
  have masked: "unat (w AND mask n) < 2 ^ n" for w :: u32 and n
    by (simp add: take_bit_eq_mask [symmetric] unsigned_take_bit_eq)
  show "unat (OXM_FIELD h) < 2 ^ 7" "unat (OXM_HASMASK h) < 2 ^ 1" "unat (OXM_LENGTH h) < 2 ^ 8"
    unfolding oxm_take_defs field_masks by (rule masked)+
qed

interpretation taken: oxm_components "OXM_CLASS h" "OXM_FIELD h" "OXM_HASMASK h" "OXM_LENGTH h" for h
  by unfold_locales (rule components_in_range)+

section \<open>Properties\<close>

text \<open>
  C37. Taking apart a header built by \<open>OXM_HEADER__\<close> gives back class, field, mask flag and
  length, for components that fit their 16, 7, 1 and 8 bits; and building a header from the
  components of any 32-bit header gives that header back, so the packing loses nothing.
\<close>

theorem oxm_header_roundtrip:
  "(unat c < 2 ^ 16 \<and> unat f < 2 ^ 7 \<and> unat m < 2 \<and> unat l < 2 ^ 8 \<longrightarrow>
     OXM_CLASS (OXM_HEADER_build c f m l) = c \<and> OXM_FIELD (OXM_HEADER_build c f m l) = f \<and>
     OXM_HASMASK (OXM_HEADER_build c f m l) = m \<and> OXM_LENGTH (OXM_HEADER_build c f m l) = l) \<and>
   OXM_HEADER_build (OXM_CLASS h) (OXM_FIELD h) (OXM_HASMASK h) (OXM_LENGTH h) = h"
proof (rule conjI, rule impI)
  assume "unat c < 2 ^ 16 \<and> unat f < 2 ^ 7 \<and> unat m < 2 \<and> unat l < 2 ^ 8"
  then have "oxm_components c f m l" by unfold_locales auto
  then show "OXM_CLASS (OXM_HEADER_build c f m l) = c \<and> OXM_FIELD (OXM_HEADER_build c f m l) = f \<and>
     OXM_HASMASK (OXM_HEADER_build c f m l) = m \<and> OXM_LENGTH (OXM_HEADER_build c f m l) = l"
    by (simp add: oxm_components.class_of_build oxm_components.field_of_build
        oxm_components.hasmask_of_build oxm_components.length_of_build)
qed (rule build_of_components)

theorem oxm_header_roundtrip_witness:
  "OXM_CLASS (OXM_HEADER_build 0x8000 3 1 12) = 0x8000 \<and> OXM_LENGTH (OXM_HEADER_build 0x8000 3 1 12) = 12"
  using oxm_header_roundtrip [of "0x8000" 3 1 12 0] by simp

text \<open>
  Every exact-match header of the basic class carries class 0x8000, the field its name
  says, no mask flag and the length of the value, and every maskable header is the one
  \<open>OXM_MAKE_WILD_HEADER\<close> makes of its exact counterpart, with the mask flag set and the length
  doubled.
\<close>

theorem oxm_basic_class_headers:
  "list_all (\<lambda>(h, f, n). OXM_CLASS h = 0x8000 \<and> OXM_FIELD h = oxm_ofb_match_fields_val f \<and>
      OXM_HASMASK h = 0 \<and> unat (OXM_LENGTH h) = n) oxm_exact \<and>
   list_all (\<lambda>(w, h). w = OXM_MAKE_WILD_HEADER h \<and> OXM_CLASS w = OXM_CLASS h \<and>
      OXM_FIELD w = OXM_FIELD h \<and> OXM_HASMASK w = 1 \<and> OXM_LENGTH w = 2 * OXM_LENGTH h) oxm_wild"
  by (intro conjI)
    (simp_all add: oxm_exact_def oxm_wild_def oxm_of_defs oxm_take_defs OXM_HEADER_def
      OXM_HEADER_W_def OXM_HEADER_build_def OXM_MAKE_WILD_HEADER_def)

text \<open>
  Applied to a header constant as the header spells it, an \<open>int\<close> expression, \<open>OXM_CLASS\<close>
  shifts a negative number and yields -32768 where the constant's class is 0x8000; the same
  constant held in a \<open>uint32_t\<close> gives 0x8000.
\<close>

theorem oxm_class_of_int_constant:
  "OXM_CLASS_int OXM_OF_IN_PORT = - 32768 \<and> uint (OXM_CLASS OXM_OF_IN_PORT) = 0x8000"
  by (simp add: OXM_CLASS_int_def OXM_CLASS_def oxm_of_defs OXM_HEADER_def OXM_HEADER_build_def)

end
