(* ===== verification/C_Layout.thy ===== *)
theory C_Layout imports Byte_Order begin

text \<open>
  C structures as the compiler lays them out (System V ABI, natural alignment): a type is an
  unsigned integer, an array or a structure; its size, its alignment and the offset of a member
  reached by a path of member names are computed by recursion. \<open>put\<close> and \<open>get\<close> are the
  assignments and reads through a cast pointer, \<open>((T * ) buffer)->path\<close>.

  The lemmas show that two different members never overlap, that a member lies inside its
  structure, and so that an assignment to one member leaves every other one alone.
\<close>

section \<open>Types, sizes and alignment\<close>

datatype ctype =
    C_char
  | C_uint8
  | C_uint16
  | C_uint32
  | C_uint64
  | C_array ctype nat
  | C_struct "(string \<times> ctype) list"

definition align_up :: "nat \<Rightarrow> nat \<Rightarrow> nat" where
  "align_up off a = (if off mod a = 0 then off else off + (a - off mod a))"

fun alignof :: "ctype \<Rightarrow> nat"
  and fields_align :: "(string \<times> ctype) list \<Rightarrow> nat" where
  "alignof C_char = 1"
| "alignof C_uint8 = 1"
| "alignof C_uint16 = 2"
| "alignof C_uint32 = 4"
| "alignof C_uint64 = 8"
| "alignof (C_array t n) = alignof t"
| "alignof (C_struct fs) = fields_align fs"
| "fields_align [] = 1"
| "fields_align ((f, t) # fs) = max (alignof t) (fields_align fs)"

fun sizeof :: "ctype \<Rightarrow> nat"
  and fields_end :: "nat \<Rightarrow> (string \<times> ctype) list \<Rightarrow> nat" where
  "sizeof C_char = 1"
| "sizeof C_uint8 = 1"
| "sizeof C_uint16 = 2"
| "sizeof C_uint32 = 4"
| "sizeof C_uint64 = 8"
| "sizeof (C_array t n) = n * sizeof t"
| "sizeof (C_struct fs) = align_up (fields_end 0 fs) (fields_align fs)"
| "fields_end off [] = off"
| "fields_end off ((f, t) # fs) = fields_end (align_up off (alignof t) + sizeof t) fs"

text \<open>The size with no padding between members: what the bytes on the wire take.\<close>

fun packed_size :: "ctype \<Rightarrow> nat"
  and packed_fields :: "(string \<times> ctype) list \<Rightarrow> nat" where
  "packed_size C_char = 1"
| "packed_size C_uint8 = 1"
| "packed_size C_uint16 = 2"
| "packed_size C_uint32 = 4"
| "packed_size C_uint64 = 8"
| "packed_size (C_array t n) = n * packed_size t"
| "packed_size (C_struct fs) = packed_fields fs"
| "packed_fields [] = 0"
| "packed_fields ((f, t) # fs) = packed_size t + packed_fields fs"

section \<open>Members\<close>

text \<open>An access path: \<open>->f\<close> on a structure, \<open>[i]\<close> on an array.\<close>

datatype accessor = Field string | Index nat

type_synonym path = "accessor list"

fun member :: "(string \<times> ctype) list \<Rightarrow> nat \<Rightarrow> string \<Rightarrow> (nat \<times> ctype) option" where
  "member [] off f = None"
| "member ((g, t) # fs) off f =
     (let here = align_up off (alignof t)
      in if f = g then Some (here, t) else member fs (here + sizeof t) f)"

fun slot :: "ctype \<Rightarrow> path \<Rightarrow> (nat \<times> ctype) option" where
  "slot t [] = Some (0, t)"
| "slot (C_struct fs) (Field f # p) =
     (case member fs 0 f of
        None \<Rightarrow> None
      | Some (off, t) \<Rightarrow> map_option (\<lambda>(off', t'). (off + off', t')) (slot t p))"
| "slot (C_array t n) (Index i # p) =
     (if i < n then map_option (\<lambda>(off', t'). (i * sizeof t + off', t')) (slot t p) else None)"
| "slot t (a # p) = None"

definition offsetof :: "ctype \<Rightarrow> path \<Rightarrow> nat" where
  "offsetof t p = (case slot t p of None \<Rightarrow> 0 | Some (off, _) \<Rightarrow> off)"

text \<open>
  \<open>put t base p bs m\<close> is \<open>((t * )(buffer + base))->p = v\<close> for a value with object
  representation \<open>bs\<close>; an access that does not type-check has no C counterpart and leaves the
  memory alone.
\<close>

definition put :: "ctype \<Rightarrow> nat \<Rightarrow> path \<Rightarrow> bytes \<Rightarrow> mem \<Rightarrow> mem" where
  "put t base p bs m =
     (case slot t p of
        None \<Rightarrow> m
      | Some (off, ft) \<Rightarrow> if length bs = sizeof ft then store m (base + off) bs else m)"

definition get :: "ctype \<Rightarrow> nat \<Rightarrow> path \<Rightarrow> mem \<Rightarrow> bytes" where
  "get t base p m =
     (case slot t p of None \<Rightarrow> [] | Some (off, ft) \<Rightarrow> load m (base + off) (sizeof ft))"

lemma alignof_pos [simp]: "0 < alignof t" and fields_align_pos [simp]: "0 < fields_align fs"
  by (induction t and fs rule: alignof_fields_align.induct) auto

lemma align_up_ge: "off \<le> align_up off a"
  by (simp add: align_up_def)

lemma align_up_dvd:
  assumes "0 < a"
  shows "a dvd align_up off a"
proof (cases "off mod a = 0")
  case True
  then show ?thesis by (auto simp: align_up_def)
next
  case False
  have "off mod a < a" using assms by simp
  then have "off + (a - off mod a) = (off div a) * a + a"
    using div_mult_mod_eq [of off a] by linarith
  with False show ?thesis by (simp add: align_up_def)
qed

text \<open>Evaluation, once both arguments are numerals (with \<open>1\<close> kept as it is).\<close>

lemma align_up_eval [layout_simps]:
  "align_up 0 a = 0" "align_up off 1 = off"
  "align_up (numeral m) (numeral n) =
     (if numeral m mod numeral n = (0::nat) then numeral m
      else numeral m + (numeral n - numeral m mod numeral n))"
  "align_up 1 (numeral n) =
     (if 1 mod numeral n = (0::nat) then 1 else 1 + (numeral n - 1 mod numeral n))"
  by (simp_all add: align_up_def)

lemma fields_end_ge: "off \<le> fields_end off fs"
proof (induction fs arbitrary: off)
  case Nil
  then show ?case by simp
next
  case (Cons ft fs)
  obtain f t where ft: "ft = (f, t)" by fastforce
  have "off \<le> align_up off (alignof t) + sizeof t"
    by (simp add: align_up_ge trans_le_add1)
  also have "\<dots> \<le> fields_end \<dots> fs" by (rule Cons.IH)
  finally show ?case by (simp add: ft)
qed

lemma member_bounds:
  "member fs off f = Some (here, t) \<Longrightarrow> off \<le> here \<and> here + sizeof t \<le> fields_end off fs"
proof (induction fs arbitrary: off)
  case Nil
  then show ?case by simp
next
  case (Cons gu fs)
  obtain g u where gu: "gu = (g, u)" by fastforce
  let ?o = "align_up off (alignof u)"
  have o: "off \<le> ?o" by (simp add: align_up_ge)
  show ?case
  proof (cases "f = g")
    case True
    with Cons.prems gu o fields_end_ge [of "?o + sizeof u" fs] show ?thesis
      by (auto simp: Let_def)
  next
    case False
    with Cons.prems gu Cons.IH [of "?o + sizeof u"] o show ?thesis
      by (auto simp: Let_def)
  qed
qed

lemma member_disjoint:
  assumes "member fs off f = Some (a, t)" and "member fs off g = Some (b, u)" and "f \<noteq> g"
  shows "a + sizeof t \<le> b \<or> b + sizeof u \<le> a"
  using assms
proof (induction fs arbitrary: off)
  case Nil
  then show ?case by simp
next
  case (Cons hv fs)
  obtain h v where hv: "hv = (h, v)" by fastforce
  with Cons show ?case
    by (auto simp: Let_def split: if_splits dest: member_bounds)
qed

lemma slot_bounds: "slot t p = Some (off, t') \<Longrightarrow> off + sizeof t' \<le> sizeof t"
proof (induction t p arbitrary: off rule: slot.induct)
  case (2 fs f p)
  then obtain here u off' where m: "member fs 0 f = Some (here, u)"
    and s: "slot u p = Some (off', t')" and off: "off = here + off'"
    by (auto split: option.splits)
  have "off' + sizeof t' \<le> sizeof u" using 2 m s by auto
  moreover have "here + sizeof u \<le> fields_end 0 fs" using m member_bounds by blast
  moreover have "fields_end 0 fs \<le> sizeof (C_struct fs)" by (simp add: align_up_ge)
  ultimately show ?case using off by linarith
next
  case (3 t n i p)
  then obtain off' where i: "i < n" and s: "slot t p = Some (off', t')"
    and off: "off = i * sizeof t + off'"
    by (auto split: if_splits)
  have "off' + sizeof t' \<le> sizeof t" using 3 i s by auto
  moreover have "i * sizeof t + sizeof t \<le> n * sizeof t"
    using mult_le_mono1 [of "Suc i" n "sizeof t"] i by simp
  ultimately show ?case using off by simp
qed auto

fun diverge :: "path \<Rightarrow> path \<Rightarrow> bool" where
  "diverge (a # p) (b # q) = (a \<noteq> b \<or> diverge p q)"
| "diverge _ _ = False"

lemma index_disjoint:
  "(i :: nat) < j \<Longrightarrow> o1 + s1 \<le> s \<Longrightarrow> (i * s + o1) + s1 \<le> j * s + o2"
  using mult_le_mono1 [of "Suc i" j s] by simp

lemma slot_disjoint:
  assumes "slot t p = Some (o1, t1)" and "slot t q = Some (o2, t2)" and "diverge p q"
  shows "o1 + sizeof t1 \<le> o2 \<or> o2 + sizeof t2 \<le> o1"
  using assms
proof (induction t p arbitrary: q o1 o2 rule: slot.induct)
  case (2 fs f p)
  from "2.prems" obtain b q' where q: "q = b # q'" by (cases q) auto
  with "2.prems" obtain g where b: "b = Field g" by (cases b) auto
  from "2.prems" q b obtain h1 u1 x1 h2 u2 x2 where
    m1: "member fs 0 f = Some (h1, u1)" "slot u1 p = Some (x1, t1)" "o1 = h1 + x1" and
    m2: "member fs 0 g = Some (h2, u2)" "slot u2 q' = Some (x2, t2)" "o2 = h2 + x2"
    by (auto split: option.splits)
  have bnd: "x1 + sizeof t1 \<le> sizeof u1" "x2 + sizeof t2 \<le> sizeof u2"
    using m1 m2 slot_bounds by blast+
  show ?case
  proof (cases "f = g")
    case True
    with m1 m2 have "h1 = h2" "u1 = u2" by auto
    moreover have "diverge p q'" using "2.prems"(3) q b True by simp
    ultimately show ?thesis using "2.IH" m1 m2 by fastforce
  next
    case False
    with member_disjoint m1 m2 have "h1 + sizeof u1 \<le> h2 \<or> h2 + sizeof u2 \<le> h1" by blast
    then show ?thesis using bnd m1 m2 by linarith
  qed
next
  case (3 t n i p)
  from "3.prems" obtain b q' where q: "q = b # q'" by (cases q) auto
  with "3.prems" obtain j where b: "b = Index j" by (cases b) auto
  from "3.prems" q b obtain x1 x2 where
    m1: "slot t p = Some (x1, t1)" "o1 = i * sizeof t + x1" "i < n" and
    m2: "slot t q' = Some (x2, t2)" "o2 = j * sizeof t + x2" "j < n"
    by (auto split: if_splits)
  have bnd: "x1 + sizeof t1 \<le> sizeof t" "x2 + sizeof t2 \<le> sizeof t"
    using m1 m2 slot_bounds by blast+
  show ?case
  proof (cases "i = j")
    case True
    then have "diverge p q'" using "3.prems"(3) q b by simp
    with True "3.IH" m1 m2 show ?thesis by fastforce
  next
    case False
    then consider "i < j" | "j < i" by linarith
    then show ?thesis using bnd m1 m2 index_disjoint by cases auto
  qed
qed auto

lemma get_put_same:
  "slot t p = Some (off, ft) \<Longrightarrow> length bs = sizeof ft \<Longrightarrow> get t base p (put t base p bs m) = bs"
  by (simp add: get_def put_def load_store_same')

lemma get_put_other:
  "diverge p q \<Longrightarrow> get t base q (put t base p bs m) = get t base q m"
  using slot_disjoint [of t p _ _ q]
  by (fastforce simp: get_def put_def split: option.splits intro!: load_store_disjoint)

section \<open>Sequences of assignments\<close>

text \<open>An assignment \<open>((t * )(buffer + base))->path = v\<close>, \<open>v\<close> given by its object representation.\<close>

type_synonym assignment = "ctype \<times> nat \<times> path \<times> bytes"

fun assign :: "assignment \<Rightarrow> mem \<Rightarrow> mem" where
  "assign (t, base, p, bs) m = put t base p bs m"

text \<open>
  An assignment that C's types admit, into an object of \<open>limit\<close> bytes: the path names a member, the
  value has the member's size, and the member lies inside the object.
\<close>

fun well_typed :: "nat \<Rightarrow> assignment \<Rightarrow> bool" where
  "well_typed limit (t, base, p, bs) =
     (case slot t p of
        None \<Rightarrow> False
      | Some (off, ft) \<Rightarrow> length bs = sizeof ft \<and> base + off + sizeof ft \<le> limit)"

text \<open>A well-typed assignment writes its value and stays inside the object.\<close>

lemma well_typed_assign:
  assumes "well_typed limit (t, base, p, bs)"
  shows "get t base p (assign (t, base, p, bs) m) = bs"
    and "limit \<le> i \<Longrightarrow> assign (t, base, p, bs) m i = m i"
proof -
  obtain off ft where slot: "slot t p = Some (off, ft)" "length bs = sizeof ft" "base + off + sizeof ft \<le> limit"
    using assms by (auto split: option.splits)
  then show "get t base p (assign (t, base, p, bs) m) = bs"
    by (simp add: get_def put_def load_store_same')
  show "limit \<le> i \<Longrightarrow> assign (t, base, p, bs) m i = m i"
    using slot by (simp add: put_def store_def)
qed

lemma well_typed_fold:
  "list_all (well_typed limit) as \<Longrightarrow> limit \<le> i \<Longrightarrow> fold assign as m i = m i"
proof (induction as arbitrary: m)
  case (Cons a as)
  obtain t base p bs where a: "a = (t, base, p, bs)" by (cases a)
  with Cons show ?case using well_typed_assign(2) [of limit t base p bs i m] by simp
qed simp

text \<open>Reading an object field by field.\<close>

primrec load_fields :: "mem \<Rightarrow> nat \<Rightarrow> nat list \<Rightarrow> bytes" where
  "load_fields m off [] = []"
| "load_fields m off (n # ns) = load m off n @ load_fields m (off + n) ns"

lemma load_by_fields: "n = sum_list ns \<Longrightarrow> load m off n = load_fields m off ns"
  by (induction ns arbitrary: n off) (simp_all add: load_append)

lemma get_fold_assign_other:
  "list_all (\<lambda>(t', base', p', bs). t' = t \<and> base' = base \<and> diverge p' p) as \<Longrightarrow>
   get t base p (fold assign as m) = get t base p m"
  by (induction as arbitrary: m) (auto simp: get_put_other)

section \<open>Properties\<close>

text \<open>
  The memory model is that of C: after an assignment to one member of a structure the member
  reads as what was assigned, and every member whose path diverges from it, in the same structure
  and at any depth of nested structures and arrays, reads as before.
\<close>

theorem assignment_frame:
  assumes "slot t p = Some (off, ft)" and "length bs = sizeof ft" and "diverge p q"
  shows "get t base p (assign (t, base, p, bs) m) = bs \<and>
    get t base q (assign (t, base, p, bs) m) = get t base q m"
  using assms by (simp add: get_put_same get_put_other)

theorem assignment_frame_witness:
  "get (C_struct [(''type'', C_uint16), (''pad'', C_array C_uint8 4)]) 0 [Field ''pad'', Index 2]
     (assign (C_struct [(''type'', C_uint16), (''pad'', C_array C_uint8 4)], 0,
        [Field ''pad'', Index 2], [7]) m) = [7]"
  using assignment_frame [of "C_struct [(''type'', C_uint16), (''pad'', C_array C_uint8 4)]"
      "[Field ''pad'', Index 2]" 4 C_uint8 "[7]" "[Field ''type'']"]
  by (simp add: align_up_def)

end
