(* ===== verification/OpenFlow_Structs.thy ===== *)
theory OpenFlow_Structs imports C_Layout OpenFlow_Enums begin

text \<open>
  The message structures of \<open>openflow.h\<close>, each as its C layout: the members in the source's
  order with their types. \<open>OFP_ASSERT\<close> is the header's build-time assertion; \<open>ofp_asserts\<close>
  lists every structure with the size the header asserts of it.
\<close>

section \<open>Constants\<close>

definition OFP_VERSION :: u8 where "OFP_VERSION = 0x04"
definition OFP_MAX_TABLE_NAME_LEN :: nat where "OFP_MAX_TABLE_NAME_LEN = 32"
definition OFP_MAX_PORT_NAME_LEN :: nat where "OFP_MAX_PORT_NAME_LEN = 16"
definition OFP_TCP_PORT :: u16 where "OFP_TCP_PORT = 6653"
definition OFP_SSL_PORT :: u16 where "OFP_SSL_PORT = 6653"
definition OFP_ETH_ALEN :: nat where "OFP_ETH_ALEN = 6"
definition OFP_DEFAULT_MISS_SEND_LEN :: u16 where "OFP_DEFAULT_MISS_SEND_LEN = 128"
definition OFP_FLOW_PERMANENT :: u16 where "OFP_FLOW_PERMANENT = 0"
definition OFP_DEFAULT_PRIORITY :: u16 where "OFP_DEFAULT_PRIORITY = 0x8000"
definition OFP_VLAN_NONE :: ofp_vlan_id where "OFP_VLAN_NONE = OFPVID_NONE"
definition OFP_NO_BUFFER :: u32 where "OFP_NO_BUFFER = 0xffffffff"
definition DESC_STR_LEN :: nat where "DESC_STR_LEN = 256"
definition SERIAL_NUM_LEN :: nat where "SERIAL_NUM_LEN = 32"
definition OFPQ_ALL :: u32 where "OFPQ_ALL = 0xffffffff"
definition OFPQ_MIN_RATE_UNCFG :: u16 where "OFPQ_MIN_RATE_UNCFG = 0xffff"
definition OFPQ_MAX_RATE_UNCFG :: u16 where "OFPQ_MAX_RATE_UNCFG = 0xffff"

lemmas array_bounds =
  OFP_MAX_TABLE_NAME_LEN_def OFP_MAX_PORT_NAME_LEN_def OFP_ETH_ALEN_def DESC_STR_LEN_def
  SERIAL_NUM_LEN_def

text \<open>
  \<open>typedef int build_assert_failed[(EXPR) ? 1 : -1]\<close>: the array type exists, and the header
  compiles, only when its bound is positive.
\<close>

definition OFP_ASSERT :: "bool \<Rightarrow> bool" where
  "OFP_ASSERT e \<longleftrightarrow> (if e then 1 else - 1 :: int) > 0"

lemma OFP_ASSERT_iff [simp]: "OFP_ASSERT e \<longleftrightarrow> e"
  by (simp add: OFP_ASSERT_def)

section \<open>The structures\<close>

definition ofp_header :: ctype where
  "ofp_header = C_struct
    [(''version'', C_uint8), (''type'', C_uint8), (''length'', C_uint16), (''xid'', C_uint32)]"

definition ofp_hello_elem_header :: ctype where
  "ofp_hello_elem_header = C_struct
    [(''type'', C_uint16), (''length'', C_uint16)]"

definition ofp_hello_elem_versionbitmap :: ctype where
  "ofp_hello_elem_versionbitmap = C_struct
    [(''type'', C_uint16), (''length'', C_uint16), (''bitmaps'', C_array C_uint32 0)]"

definition ofp_hello :: ctype where
  "ofp_hello = C_struct
    [(''header'', ofp_header), (''elements'', C_array ofp_hello_elem_header 0)]"

definition ofp_switch_config :: ctype where
  "ofp_switch_config = C_struct
    [(''header'', ofp_header), (''flags'', C_uint16), (''miss_send_len'', C_uint16)]"

definition ofp_table_mod :: ctype where
  "ofp_table_mod = C_struct
    [(''header'', ofp_header), (''table_id'', C_uint8), (''pad'', C_array C_uint8 3),
    (''config'', C_uint32)]"

definition ofp_port :: ctype where
  "ofp_port = C_struct
    [(''port_no'', C_uint32), (''pad'', C_array C_uint8 4),
    (''hw_addr'', C_array C_uint8 OFP_ETH_ALEN), (''pad2'', C_array C_uint8 2),
    (''name'', C_array C_char OFP_MAX_PORT_NAME_LEN), (''config'', C_uint32),
    (''state'', C_uint32), (''curr'', C_uint32), (''advertised'', C_uint32),
    (''supported'', C_uint32), (''peer'', C_uint32), (''curr_speed'', C_uint32),
    (''max_speed'', C_uint32)]"

definition ofp_switch_features :: ctype where
  "ofp_switch_features = C_struct
    [(''header'', ofp_header), (''datapath_id'', C_uint64), (''n_buffers'', C_uint32),
    (''n_tables'', C_uint8), (''auxiliary_id'', C_uint8), (''pad'', C_array C_uint8 2),
    (''capabilities'', C_uint32), (''reserved'', C_uint32)]"

definition ofp_port_status :: ctype where
  "ofp_port_status = C_struct
    [(''header'', ofp_header), (''reason'', C_uint8), (''pad'', C_array C_uint8 7),
    (''desc'', ofp_port)]"

definition ofp_port_mod :: ctype where
  "ofp_port_mod = C_struct
    [(''header'', ofp_header), (''port_no'', C_uint32), (''pad'', C_array C_uint8 4),
    (''hw_addr'', C_array C_uint8 OFP_ETH_ALEN), (''pad2'', C_array C_uint8 2),
    (''config'', C_uint32), (''mask'', C_uint32), (''advertise'', C_uint32),
    (''pad3'', C_array C_uint8 4)]"

definition ofp_match :: ctype where
  "ofp_match = C_struct
    [(''type'', C_uint16), (''length'', C_uint16), (''oxm_fields'', C_array C_uint8 0),
    (''pad'', C_array C_uint8 4)]"

definition ofp_oxm_experimenter_header :: ctype where
  "ofp_oxm_experimenter_header = C_struct
    [(''oxm_header'', C_uint32), (''experimenter'', C_uint32)]"

definition ofp_action_header :: ctype where
  "ofp_action_header = C_struct
    [(''type'', C_uint16), (''len'', C_uint16), (''pad'', C_array C_uint8 4)]"

definition ofp_action_output :: ctype where
  "ofp_action_output = C_struct
    [(''type'', C_uint16), (''len'', C_uint16), (''port'', C_uint32),
    (''max_len'', C_uint16), (''pad'', C_array C_uint8 6)]"

definition ofp_action_mpls_ttl :: ctype where
  "ofp_action_mpls_ttl = C_struct
    [(''type'', C_uint16), (''len'', C_uint16), (''mpls_ttl'', C_uint8),
    (''pad'', C_array C_uint8 3)]"

definition ofp_action_push :: ctype where
  "ofp_action_push = C_struct
    [(''type'', C_uint16), (''len'', C_uint16), (''ethertype'', C_uint16),
    (''pad'', C_array C_uint8 2)]"

definition ofp_action_pop_mpls :: ctype where
  "ofp_action_pop_mpls = C_struct
    [(''type'', C_uint16), (''len'', C_uint16), (''ethertype'', C_uint16),
    (''pad'', C_array C_uint8 2)]"

definition ofp_action_group :: ctype where
  "ofp_action_group = C_struct
    [(''type'', C_uint16), (''len'', C_uint16), (''group_id'', C_uint32)]"

definition ofp_action_nw_ttl :: ctype where
  "ofp_action_nw_ttl = C_struct
    [(''type'', C_uint16), (''len'', C_uint16), (''nw_ttl'', C_uint8),
    (''pad'', C_array C_uint8 3)]"

definition ofp_action_set_field :: ctype where
  "ofp_action_set_field = C_struct
    [(''type'', C_uint16), (''len'', C_uint16), (''field'', C_array C_uint8 4)]"

definition ofp_action_experimenter_header :: ctype where
  "ofp_action_experimenter_header = C_struct
    [(''type'', C_uint16), (''len'', C_uint16), (''experimenter'', C_uint32)]"

definition ofp_instruction :: ctype where
  "ofp_instruction = C_struct
    [(''type'', C_uint16), (''len'', C_uint16)]"

definition ofp_instruction_goto_table :: ctype where
  "ofp_instruction_goto_table = C_struct
    [(''type'', C_uint16), (''len'', C_uint16), (''table_id'', C_uint8),
    (''pad'', C_array C_uint8 3)]"

definition ofp_instruction_write_metadata :: ctype where
  "ofp_instruction_write_metadata = C_struct
    [(''type'', C_uint16), (''len'', C_uint16), (''pad'', C_array C_uint8 4),
    (''metadata'', C_uint64), (''metadata_mask'', C_uint64)]"

definition ofp_instruction_actions :: ctype where
  "ofp_instruction_actions = C_struct
    [(''type'', C_uint16), (''len'', C_uint16), (''pad'', C_array C_uint8 4),
    (''actions'', C_array ofp_action_header 0)]"

definition ofp_instruction_meter :: ctype where
  "ofp_instruction_meter = C_struct
    [(''type'', C_uint16), (''len'', C_uint16), (''meter_id'', C_uint32)]"

definition ofp_instruction_experimenter :: ctype where
  "ofp_instruction_experimenter = C_struct
    [(''type'', C_uint16), (''len'', C_uint16), (''experimenter'', C_uint32)]"

definition ofp_flow_mod :: ctype where
  "ofp_flow_mod = C_struct
    [(''header'', ofp_header), (''cookie'', C_uint64), (''cookie_mask'', C_uint64),
    (''table_id'', C_uint8), (''command'', C_uint8), (''idle_timeout'', C_uint16),
    (''hard_timeout'', C_uint16), (''priority'', C_uint16), (''buffer_id'', C_uint32),
    (''out_port'', C_uint32), (''out_group'', C_uint32), (''flags'', C_uint16),
    (''pad'', C_array C_uint8 2), (''match'', ofp_match)]"

definition ofp_bucket :: ctype where
  "ofp_bucket = C_struct
    [(''len'', C_uint16), (''weight'', C_uint16), (''watch_port'', C_uint32),
    (''watch_group'', C_uint32), (''pad'', C_array C_uint8 4),
    (''actions'', C_array ofp_action_header 0)]"

definition ofp_group_mod :: ctype where
  "ofp_group_mod = C_struct
    [(''header'', ofp_header), (''command'', C_uint16), (''type'', C_uint8),
    (''pad'', C_uint8), (''group_id'', C_uint32), (''buckets'', C_array ofp_bucket 0)]"

definition ofp_packet_out :: ctype where
  "ofp_packet_out = C_struct
    [(''header'', ofp_header), (''buffer_id'', C_uint32), (''in_port'', C_uint32),
    (''actions_len'', C_uint16), (''pad'', C_array C_uint8 6),
    (''actions'', C_array ofp_action_header 0)]"

definition ofp_packet_in :: ctype where
  "ofp_packet_in = C_struct
    [(''header'', ofp_header), (''buffer_id'', C_uint32), (''total_len'', C_uint16),
    (''reason'', C_uint8), (''table_id'', C_uint8), (''cookie'', C_uint64),
    (''match'', ofp_match)]"

definition ofp_flow_removed :: ctype where
  "ofp_flow_removed = C_struct
    [(''header'', ofp_header), (''cookie'', C_uint64), (''priority'', C_uint16),
    (''reason'', C_uint8), (''table_id'', C_uint8), (''duration_sec'', C_uint32),
    (''duration_nsec'', C_uint32), (''idle_timeout'', C_uint16),
    (''hard_timeout'', C_uint16), (''packet_count'', C_uint64), (''byte_count'', C_uint64),
    (''match'', ofp_match)]"

definition ofp_meter_band_header :: ctype where
  "ofp_meter_band_header = C_struct
    [(''type'', C_uint16), (''len'', C_uint16), (''rate'', C_uint32),
    (''burst_size'', C_uint32)]"

definition ofp_meter_band_drop :: ctype where
  "ofp_meter_band_drop = C_struct
    [(''type'', C_uint16), (''len'', C_uint16), (''rate'', C_uint32),
    (''burst_size'', C_uint32), (''pad'', C_array C_uint8 4)]"

definition ofp_meter_band_dscp_remark :: ctype where
  "ofp_meter_band_dscp_remark = C_struct
    [(''type'', C_uint16), (''len'', C_uint16), (''rate'', C_uint32),
    (''burst_size'', C_uint32), (''prec_level'', C_uint8), (''pad'', C_array C_uint8 3)]"

definition ofp_meter_band_experimenter :: ctype where
  "ofp_meter_band_experimenter = C_struct
    [(''type'', C_uint16), (''len'', C_uint16), (''rate'', C_uint32),
    (''burst_size'', C_uint32), (''experimenter'', C_uint32)]"

definition ofp_meter_mod :: ctype where
  "ofp_meter_mod = C_struct
    [(''header'', ofp_header), (''command'', C_uint16), (''flags'', C_uint16),
    (''meter_id'', C_uint32), (''bands'', C_array ofp_meter_band_header 0)]"

definition ofp_error_msg :: ctype where
  "ofp_error_msg = C_struct
    [(''header'', ofp_header), (''type'', C_uint16), (''code'', C_uint16),
    (''data'', C_array C_uint8 0)]"

definition ofp_error_experimenter_msg :: ctype where
  "ofp_error_experimenter_msg = C_struct
    [(''header'', ofp_header), (''type'', C_uint16), (''exp_type'', C_uint16),
    (''experimenter'', C_uint32), (''data'', C_array C_uint8 0)]"

definition ofp_multipart_request :: ctype where
  "ofp_multipart_request = C_struct
    [(''header'', ofp_header), (''type'', C_uint16), (''flags'', C_uint16),
    (''pad'', C_array C_uint8 4), (''body'', C_array C_uint8 0)]"

definition ofp_multipart_reply :: ctype where
  "ofp_multipart_reply = C_struct
    [(''header'', ofp_header), (''type'', C_uint16), (''flags'', C_uint16),
    (''pad'', C_array C_uint8 4), (''body'', C_array C_uint8 0)]"

definition ofp_desc :: ctype where
  "ofp_desc = C_struct
    [(''mfr_desc'', C_array C_char DESC_STR_LEN), (''hw_desc'', C_array C_char DESC_STR_LEN),
    (''sw_desc'', C_array C_char DESC_STR_LEN),
    (''serial_num'', C_array C_char SERIAL_NUM_LEN),
    (''dp_desc'', C_array C_char DESC_STR_LEN)]"

definition ofp_flow_stats_request :: ctype where
  "ofp_flow_stats_request = C_struct
    [(''table_id'', C_uint8), (''pad'', C_array C_uint8 3), (''out_port'', C_uint32),
    (''out_group'', C_uint32), (''pad2'', C_array C_uint8 4), (''cookie'', C_uint64),
    (''cookie_mask'', C_uint64), (''match'', ofp_match)]"

definition ofp_flow_stats :: ctype where
  "ofp_flow_stats = C_struct
    [(''length'', C_uint16), (''table_id'', C_uint8), (''pad'', C_uint8),
    (''duration_sec'', C_uint32), (''duration_nsec'', C_uint32), (''priority'', C_uint16),
    (''idle_timeout'', C_uint16), (''hard_timeout'', C_uint16), (''flags'', C_uint16),
    (''pad2'', C_array C_uint8 4), (''cookie'', C_uint64), (''packet_count'', C_uint64),
    (''byte_count'', C_uint64), (''match'', ofp_match)]"

definition ofp_aggregate_stats_request :: ctype where
  "ofp_aggregate_stats_request = C_struct
    [(''table_id'', C_uint8), (''pad'', C_array C_uint8 3), (''out_port'', C_uint32),
    (''out_group'', C_uint32), (''pad2'', C_array C_uint8 4), (''cookie'', C_uint64),
    (''cookie_mask'', C_uint64), (''match'', ofp_match)]"

definition ofp_aggregate_stats_reply :: ctype where
  "ofp_aggregate_stats_reply = C_struct
    [(''packet_count'', C_uint64), (''byte_count'', C_uint64), (''flow_count'', C_uint32),
    (''pad'', C_array C_uint8 4)]"

definition ofp_table_feature_prop_header :: ctype where
  "ofp_table_feature_prop_header = C_struct
    [(''type'', C_uint16), (''length'', C_uint16)]"

definition ofp_table_feature_prop_instructions :: ctype where
  "ofp_table_feature_prop_instructions = C_struct
    [(''type'', C_uint16), (''length'', C_uint16),
    (''instruction_ids'', C_array ofp_instruction 0)]"

definition ofp_table_feature_prop_next_tables :: ctype where
  "ofp_table_feature_prop_next_tables = C_struct
    [(''type'', C_uint16), (''length'', C_uint16), (''next_table_ids'', C_array C_uint8 0)]"

definition ofp_table_feature_prop_actions :: ctype where
  "ofp_table_feature_prop_actions = C_struct
    [(''type'', C_uint16), (''length'', C_uint16),
    (''action_ids'', C_array ofp_action_header 0)]"

definition ofp_table_feature_prop_oxm :: ctype where
  "ofp_table_feature_prop_oxm = C_struct
    [(''type'', C_uint16), (''length'', C_uint16), (''oxm_ids'', C_array C_uint32 0)]"

definition ofp_table_feature_prop_experimenter :: ctype where
  "ofp_table_feature_prop_experimenter = C_struct
    [(''type'', C_uint16), (''length'', C_uint16), (''experimenter'', C_uint32),
    (''exp_type'', C_uint32), (''experimenter_data'', C_array C_uint32 0)]"

definition ofp_table_features :: ctype where
  "ofp_table_features = C_struct
    [(''length'', C_uint16), (''table_id'', C_uint8), (''pad'', C_array C_uint8 5),
    (''name'', C_array C_char OFP_MAX_TABLE_NAME_LEN), (''metadata_match'', C_uint64),
    (''metadata_write'', C_uint64), (''config'', C_uint32), (''max_entries'', C_uint32),
    (''properties'', C_array ofp_table_feature_prop_header 0)]"

definition ofp_table_stats :: ctype where
  "ofp_table_stats = C_struct
    [(''table_id'', C_uint8), (''pad'', C_array C_uint8 3), (''active_count'', C_uint32),
    (''lookup_count'', C_uint64), (''matched_count'', C_uint64)]"

definition ofp_port_stats_request :: ctype where
  "ofp_port_stats_request = C_struct
    [(''port_no'', C_uint32), (''pad'', C_array C_uint8 4)]"

definition ofp_port_stats :: ctype where
  "ofp_port_stats = C_struct
    [(''port_no'', C_uint32), (''pad'', C_array C_uint8 4), (''rx_packets'', C_uint64),
    (''tx_packets'', C_uint64), (''rx_bytes'', C_uint64), (''tx_bytes'', C_uint64),
    (''rx_dropped'', C_uint64), (''tx_dropped'', C_uint64), (''rx_errors'', C_uint64),
    (''tx_errors'', C_uint64), (''rx_frame_err'', C_uint64), (''rx_over_err'', C_uint64),
    (''rx_crc_err'', C_uint64), (''collisions'', C_uint64), (''duration_sec'', C_uint32),
    (''duration_nsec'', C_uint32)]"

definition ofp_group_stats_request :: ctype where
  "ofp_group_stats_request = C_struct
    [(''group_id'', C_uint32), (''pad'', C_array C_uint8 4)]"

definition ofp_bucket_counter :: ctype where
  "ofp_bucket_counter = C_struct
    [(''packet_count'', C_uint64), (''byte_count'', C_uint64)]"

definition ofp_group_stats :: ctype where
  "ofp_group_stats = C_struct
    [(''length'', C_uint16), (''pad'', C_array C_uint8 2), (''group_id'', C_uint32),
    (''ref_count'', C_uint32), (''pad2'', C_array C_uint8 4), (''packet_count'', C_uint64),
    (''byte_count'', C_uint64), (''duration_sec'', C_uint32), (''duration_nsec'', C_uint32),
    (''bucket_stats'', C_array ofp_bucket_counter 0)]"

definition ofp_group_desc :: ctype where
  "ofp_group_desc = C_struct
    [(''length'', C_uint16), (''type'', C_uint8), (''pad'', C_uint8),
    (''group_id'', C_uint32), (''buckets'', C_array ofp_bucket 0)]"

definition ofp_group_features :: ctype where
  "ofp_group_features = C_struct
    [(''types'', C_uint32), (''capabilities'', C_uint32),
    (''max_groups'', C_array C_uint32 4), (''actions'', C_array C_uint32 4)]"

definition ofp_meter_multipart_request :: ctype where
  "ofp_meter_multipart_request = C_struct
    [(''meter_id'', C_uint32), (''pad'', C_array C_uint8 4)]"

definition ofp_meter_band_stats :: ctype where
  "ofp_meter_band_stats = C_struct
    [(''packet_band_count'', C_uint64), (''byte_band_count'', C_uint64)]"

definition ofp_meter_stats :: ctype where
  "ofp_meter_stats = C_struct
    [(''meter_id'', C_uint32), (''len'', C_uint16), (''pad'', C_array C_uint8 6),
    (''flow_count'', C_uint32), (''packet_in_count'', C_uint64),
    (''byte_in_count'', C_uint64), (''duration_sec'', C_uint32),
    (''duration_nsec'', C_uint32), (''band_stats'', C_array ofp_meter_band_stats 0)]"

definition ofp_meter_config :: ctype where
  "ofp_meter_config = C_struct
    [(''length'', C_uint16), (''flags'', C_uint16), (''meter_id'', C_uint32),
    (''bands'', C_array ofp_meter_band_header 0)]"

definition ofp_meter_features :: ctype where
  "ofp_meter_features = C_struct
    [(''max_meter'', C_uint32), (''band_types'', C_uint32), (''capabilities'', C_uint32),
    (''max_bands'', C_uint8), (''max_color'', C_uint8), (''pad'', C_array C_uint8 2)]"

definition ofp_experimenter_multipart_header :: ctype where
  "ofp_experimenter_multipart_header = C_struct
    [(''experimenter'', C_uint32), (''exp_type'', C_uint32)]"

definition ofp_experimenter_header :: ctype where
  "ofp_experimenter_header = C_struct
    [(''header'', ofp_header), (''experimenter'', C_uint32), (''exp_type'', C_uint32)]"

definition ofp_queue_prop_header :: ctype where
  "ofp_queue_prop_header = C_struct
    [(''property'', C_uint16), (''len'', C_uint16), (''pad'', C_array C_uint8 4)]"

definition ofp_queue_prop_min_rate :: ctype where
  "ofp_queue_prop_min_rate = C_struct
    [(''prop_header'', ofp_queue_prop_header), (''rate'', C_uint16),
    (''pad'', C_array C_uint8 6)]"

definition ofp_queue_prop_max_rate :: ctype where
  "ofp_queue_prop_max_rate = C_struct
    [(''prop_header'', ofp_queue_prop_header), (''rate'', C_uint16),
    (''pad'', C_array C_uint8 6)]"

definition ofp_queue_prop_experimenter :: ctype where
  "ofp_queue_prop_experimenter = C_struct
    [(''prop_header'', ofp_queue_prop_header), (''experimenter'', C_uint32),
    (''pad'', C_array C_uint8 4), (''data'', C_array C_uint8 0)]"

definition ofp_packet_queue :: ctype where
  "ofp_packet_queue = C_struct
    [(''queue_id'', C_uint32), (''port'', C_uint32), (''len'', C_uint16),
    (''pad'', C_array C_uint8 6), (''properties'', C_array ofp_queue_prop_header 0)]"

definition ofp_queue_get_config_request :: ctype where
  "ofp_queue_get_config_request = C_struct
    [(''header'', ofp_header), (''port'', C_uint32), (''pad'', C_array C_uint8 4)]"

definition ofp_queue_get_config_reply :: ctype where
  "ofp_queue_get_config_reply = C_struct
    [(''header'', ofp_header), (''port'', C_uint32), (''pad'', C_array C_uint8 4),
    (''queues'', C_array ofp_packet_queue 0)]"

definition ofp_action_set_queue :: ctype where
  "ofp_action_set_queue = C_struct
    [(''type'', C_uint16), (''len'', C_uint16), (''queue_id'', C_uint32)]"

definition ofp_queue_stats_request :: ctype where
  "ofp_queue_stats_request = C_struct
    [(''port_no'', C_uint32), (''queue_id'', C_uint32)]"

definition ofp_queue_stats :: ctype where
  "ofp_queue_stats = C_struct
    [(''port_no'', C_uint32), (''queue_id'', C_uint32), (''tx_bytes'', C_uint64),
    (''tx_packets'', C_uint64), (''tx_errors'', C_uint64), (''duration_sec'', C_uint32),
    (''duration_nsec'', C_uint32)]"

definition ofp_role_request :: ctype where
  "ofp_role_request = C_struct
    [(''header'', ofp_header), (''role'', C_uint32), (''pad'', C_array C_uint8 4),
    (''generation_id'', C_uint64)]"

definition ofp_async_config :: ctype where
  "ofp_async_config = C_struct
    [(''header'', ofp_header), (''packet_in_mask'', C_array C_uint32 2),
    (''port_status_mask'', C_array C_uint32 2), (''flow_removed_mask'', C_array C_uint32 2)]"

lemmas ofp_struct_defs =
  ofp_header_def ofp_hello_elem_header_def ofp_hello_elem_versionbitmap_def ofp_hello_def
  ofp_switch_config_def ofp_table_mod_def ofp_port_def ofp_switch_features_def
  ofp_port_status_def ofp_port_mod_def ofp_match_def ofp_oxm_experimenter_header_def
  ofp_action_header_def ofp_action_output_def ofp_action_mpls_ttl_def ofp_action_push_def
  ofp_action_pop_mpls_def ofp_action_group_def ofp_action_nw_ttl_def ofp_action_set_field_def
  ofp_action_experimenter_header_def ofp_instruction_def ofp_instruction_goto_table_def
  ofp_instruction_write_metadata_def ofp_instruction_actions_def ofp_instruction_meter_def
  ofp_instruction_experimenter_def ofp_flow_mod_def ofp_bucket_def ofp_group_mod_def
  ofp_packet_out_def ofp_packet_in_def ofp_flow_removed_def ofp_meter_band_header_def
  ofp_meter_band_drop_def ofp_meter_band_dscp_remark_def ofp_meter_band_experimenter_def
  ofp_meter_mod_def ofp_error_msg_def ofp_error_experimenter_msg_def ofp_multipart_request_def
  ofp_multipart_reply_def ofp_desc_def ofp_flow_stats_request_def ofp_flow_stats_def
  ofp_aggregate_stats_request_def ofp_aggregate_stats_reply_def
  ofp_table_feature_prop_header_def ofp_table_feature_prop_instructions_def
  ofp_table_feature_prop_next_tables_def ofp_table_feature_prop_actions_def
  ofp_table_feature_prop_oxm_def ofp_table_feature_prop_experimenter_def
  ofp_table_features_def ofp_table_stats_def ofp_port_stats_request_def ofp_port_stats_def
  ofp_group_stats_request_def ofp_bucket_counter_def ofp_group_stats_def ofp_group_desc_def
  ofp_group_features_def ofp_meter_multipart_request_def ofp_meter_band_stats_def
  ofp_meter_stats_def ofp_meter_config_def ofp_meter_features_def
  ofp_experimenter_multipart_header_def ofp_experimenter_header_def ofp_queue_prop_header_def
  ofp_queue_prop_min_rate_def ofp_queue_prop_max_rate_def ofp_queue_prop_experimenter_def
  ofp_packet_queue_def ofp_queue_get_config_request_def ofp_queue_get_config_reply_def
  ofp_action_set_queue_def ofp_queue_stats_request_def ofp_queue_stats_def
  ofp_role_request_def ofp_async_config_def

section \<open>The asserted sizes\<close>

definition ofp_asserts :: "(ctype \<times> nat) list" where
  "ofp_asserts =
    [(ofp_header, 8), (ofp_hello_elem_header, 4),
     (ofp_hello_elem_versionbitmap, 4), (ofp_hello, 8),
     (ofp_switch_config, 12), (ofp_table_mod, 16),
     (ofp_port, 64), (ofp_switch_features, 32),
     (ofp_port_status, 80), (ofp_port_mod, 40),
     (ofp_match, 8), (ofp_oxm_experimenter_header, 8),
     (ofp_action_header, 8), (ofp_action_output, 16),
     (ofp_action_mpls_ttl, 8), (ofp_action_push, 8),
     (ofp_action_pop_mpls, 8), (ofp_action_group, 8),
     (ofp_action_nw_ttl, 8), (ofp_action_set_field, 8),
     (ofp_action_experimenter_header, 8), (ofp_instruction, 4),
     (ofp_instruction_goto_table, 8), (ofp_instruction_write_metadata, 24),
     (ofp_instruction_actions, 8), (ofp_instruction_meter, 8),
     (ofp_instruction_experimenter, 8), (ofp_flow_mod, 56),
     (ofp_bucket, 16), (ofp_group_mod, 16),
     (ofp_packet_out, 24), (ofp_packet_in, 32),
     (ofp_flow_removed, 56), (ofp_meter_band_header, 12),
     (ofp_meter_band_drop, 16), (ofp_meter_band_dscp_remark, 16),
     (ofp_meter_band_experimenter, 16), (ofp_meter_mod, 16),
     (ofp_error_msg, 12), (ofp_error_experimenter_msg, 16),
     (ofp_multipart_request, 16), (ofp_multipart_reply, 16),
     (ofp_desc, 1056), (ofp_flow_stats_request, 40),
     (ofp_flow_stats, 56), (ofp_aggregate_stats_request, 40),
     (ofp_aggregate_stats_reply, 24), (ofp_table_feature_prop_header, 4),
     (ofp_table_feature_prop_instructions, 4), (ofp_table_feature_prop_next_tables, 4),
     (ofp_table_feature_prop_actions, 4), (ofp_table_feature_prop_oxm, 4),
     (ofp_table_feature_prop_experimenter, 12), (ofp_table_features, 64),
     (ofp_table_stats, 24), (ofp_port_stats_request, 8),
     (ofp_port_stats, 112), (ofp_group_stats_request, 8),
     (ofp_bucket_counter, 16), (ofp_group_stats, 40),
     (ofp_group_desc, 8), (ofp_group_features, 40),
     (ofp_meter_multipart_request, 8), (ofp_meter_band_stats, 16),
     (ofp_meter_stats, 40), (ofp_meter_config, 8),
     (ofp_meter_features, 16), (ofp_experimenter_multipart_header, 8),
     (ofp_experimenter_header, 16), (ofp_queue_prop_header, 8),
     (ofp_queue_prop_min_rate, 16), (ofp_queue_prop_max_rate, 16),
     (ofp_queue_prop_experimenter, 16), (ofp_packet_queue, 16),
     (ofp_queue_get_config_request, 16), (ofp_queue_get_config_reply, 16),
     (ofp_action_set_queue, 8), (ofp_queue_stats_request, 8),
     (ofp_queue_stats, 40), (ofp_role_request, 24),
     (ofp_async_config, 32)]"

section \<open>Properties\<close>

text \<open>
  C36. Every \<open>OFP_ASSERT\<close> of the header holds: under the layout rules of the ABI each structure has
  exactly the size its assertion states, and that size is the sum of its members' sizes, so no
  structure of the protocol has padding the compiler inserted.
\<close>

theorem ofp_asserts_hold:
  "list_all (\<lambda>(t, n). OFP_ASSERT (sizeof t = n) \<and> packed_size t = n) ofp_asserts"
proof -
  have "list_all (\<lambda>(t, n). OFP_ASSERT (sizeof t = n)) ofp_asserts"
    by (simp add: ofp_asserts_def ofp_struct_defs array_bounds layout_simps
        del: One_nat_def add_2_eq_Suc add_2_eq_Suc')
  moreover have "list_all (\<lambda>(t, n). packed_size t = n) ofp_asserts"
    by (simp add: ofp_asserts_def ofp_struct_defs array_bounds)
  ultimately show ?thesis by (auto simp: list_all_iff)
qed

end
