(* ===== verification/OpenFlow_Message.thy ===== *)
theory OpenFlow_Message imports OpenFlow_Structs begin

text \<open>
  The header every OpenFlow message starts with, as the code reads it through
  \<open>((ofp_header * )data)->...\<close>, and the contract between the code that frames messages and the
  code that consumes them: a consumer looks at the bytes the length field covers and at nothing
  else.
\<close>

section \<open>Reading the header of a buffer\<close>

definition hdr_type :: "mem \<Rightarrow> u8" where
  "hdr_type m = word_of_bytes (get ofp_header 0 [Field ''type''] m)"

definition hdr_length :: "mem \<Rightarrow> nat" where
  "hdr_length m = unat (ntohs (word_of_bytes (get ofp_header 0 [Field ''length''] m)))"

definition hdr_xid :: "mem \<Rightarrow> u32" where
  "hdr_xid m = ntohl (word_of_bytes (get ofp_header 0 [Field ''xid''] m))"

lemma header_slots [layout_simps]:
  "slot ofp_header [Field ''version''] = Some (0, C_uint8)"
  "slot ofp_header [Field ''type''] = Some (1, C_uint8)"
  "slot ofp_header [Field ''length''] = Some (2, C_uint16)"
  "slot ofp_header [Field ''xid''] = Some (4, C_uint32)"
  by code_simp+

lemma sizeof_ofp_header [simp, layout_simps]: "sizeof ofp_header = 8"
  by code_simp

lemma hdr_length_load: "hdr_length m = unat (word_of_be (load m 2 2) :: u16)"
  by (simp add: hdr_length_def get_def header_slots ntohs_loaded)

lemma hdr_xid_load: "hdr_xid m = word_of_be (load m 4 4)"
  by (simp add: hdr_xid_def get_def header_slots ntohl_loaded)

lemma hdr_type_load: "hdr_type m = m 1"
  by (simp add: hdr_type_def get_def header_slots load_def)

lemma hdr_length_bound: "hdr_length m < 65536"
  unfolding hdr_length_def by (rule unat_u16_bound)

section \<open>Messages as byte strings\<close>

definition msg_type :: "message \<Rightarrow> u8" where
  "msg_type bs = bs ! 1"

definition msg_length :: "message \<Rightarrow> nat" where
  "msg_length bs = unat (word_of_be (take 2 (drop 2 bs)) :: u16)"

definition msg_xid :: "message \<Rightarrow> u32" where
  "msg_xid bs = word_of_be (take 4 (drop 4 bs))"

text \<open>A message as it travels: a whole header, and a length field that tells its size.\<close>

definition well_framed :: "message \<Rightarrow> bool" where
  "well_framed bs \<longleftrightarrow> 8 \<le> length bs \<and> msg_length bs = length bs"

lemma hdr_of_load:
  assumes "load m 0 n = bs" and "4 \<le> n"
  shows "hdr_length m = msg_length bs" and "hdr_type m = msg_type bs"
proof -
  have "take 2 (drop 2 bs) = load m 2 2" using assms by auto
  then show "hdr_length m = msg_length bs" by (simp add: hdr_length_load msg_length_def)
  show "hdr_type m = msg_type bs" using assms by (auto simp: hdr_type_load msg_type_def load_def)
qed

lemma well_framed_bound: "well_framed bs \<Longrightarrow> length bs < 65536"
  using hdr_length_bound [of "mem_of bs"] hdr_of_load(1) [of "mem_of bs" "length bs" bs]
  by (simp add: well_framed_def)

text \<open>The bytes of a bare header, in the order of \<open>struct ofp_header\<close>.\<close>

definition header_bytes :: "u8 \<Rightarrow> u8 \<Rightarrow> u16 \<Rightarrow> u32 \<Rightarrow> bytes" where
  "header_bytes v t l x = v # t # be_bytes 2 l @ be_bytes 4 x"

lemma length_header_bytes [simp]: "length (header_bytes v t l x) = 8"
  by (simp add: header_bytes_def)

lemma header_bytes_fields [simp]:
  "msg_type (header_bytes v t l x @ body) = t"
  "msg_length (header_bytes v t l x @ body) = unat l"
  "msg_xid (header_bytes v t l x @ body) = x"
  by (simp_all add: header_bytes_def msg_type_def msg_length_def msg_xid_def be16.dec_enc
      be32.dec_enc)

lemma header_bytes_fields' [simp]:
  "msg_type (header_bytes v t l x) = t"
  "msg_length (header_bytes v t l x) = unat l"
  "msg_xid (header_bytes v t l x) = x"
  using header_bytes_fields [where body = "[]"] by simp_all

section \<open>The consumer's contract\<close>

text \<open>What \<open>onMessage\<close> may throw: an empty \<open>std::function\<close> was called.\<close>

datatype exn = Bad_function_call

locale message_consumer =
  fixes onm :: "'d \<Rightarrow> mem \<Rightarrow> exn + 'o"
    and route :: "'d \<Rightarrow> message \<Rightarrow> exn + 'o"
  assumes reads_message: "8 \<le> hdr_length m \<Longrightarrow> onm d m = route d (load m 0 (hdr_length m))"
begin

lemma consumes:
  assumes "well_framed bs" and "load m 0 (length bs) = bs"
  shows "onm d m = route d bs"
proof -
  have "hdr_length m = length bs"
    using hdr_of_load(1) [OF assms(2)] assms(1) by (simp add: well_framed_def)
  then show ?thesis using reads_message [of m d] assms by (simp add: well_framed_def)
qed

end

end
