(* ===== verification/Dispatcher.thy ===== *)
theory Dispatcher imports OpenFlow_Message begin

text \<open>
  \<open>Dispatcher.h\<close>: the table from message types to callbacks. A \<open>std::function\<close> is an optional
  callback (\<open>None\<close> is the empty function), the callbacks themselves are a type parameter that each
  program instantiates with the functions it binds. The \<open>std::map\<close> is keyed by the value of the
  \<open>ofp_type\<close> the header's type byte is cast to; a byte that names no enumerator is a key that was
  never registered.
\<close>

section \<open>State\<close>

record 'cb dispatcher =
  funs :: "u32 \<rightharpoonup> 'cb option"
  default_callback :: "'cb option"

definition new_dispatcher :: "'cb dispatcher" where
  "new_dispatcher = \<lparr>funs = Map.empty, default_callback = None\<rparr>"

text \<open>What a dispatch does: the callback it calls with which message, or \<open>onError\<close>.\<close>

datatype 'cb action = Call 'cb message | On_error

section \<open>Operations\<close>

definition setCallBackOnMessage :: "ofp_type \<Rightarrow> 'cb option \<Rightarrow> 'cb dispatcher \<Rightarrow> 'cb dispatcher" where
  "setCallBackOnMessage t f d = d\<lparr>funs := (funs d)(ofp_type_val t \<mapsto> f)\<rparr>"

definition setCallBackOnError :: "'cb dispatcher \<Rightarrow> 'cb dispatcher" where
  "setCallBackOnError d = d"

definition setDefaultCallback :: "'cb option \<Rightarrow> 'cb dispatcher \<Rightarrow> 'cb dispatcher" where
  "setDefaultCallback f d = d\<lparr>default_callback := f\<rparr>"

definition invoke :: "'cb option \<Rightarrow> message \<Rightarrow> exn + 'cb action" where
  "invoke f msg = (case f of None \<Rightarrow> Inl Bad_function_call | Some cb \<Rightarrow> Inr (Call cb msg))"

definition onMessage :: "'cb dispatcher \<Rightarrow> mem \<Rightarrow> exn + 'cb action" where
  "onMessage d message_ptr =
     (let len = hdr_length message_ptr;
          ty = ucast (hdr_type message_ptr) :: u32;
          new_message = load message_ptr 0 len
      in case funs d ty of
           None \<Rightarrow> (if default_callback d \<noteq> None then invoke (default_callback d) new_message
                    else Inr On_error)
         | Some f \<Rightarrow> invoke f new_message)"

section \<open>Specification\<close>

text \<open>The callback a message is meant for, and the dispatch of a byte string.\<close>

definition callback_for :: "'cb dispatcher \<Rightarrow> u8 \<Rightarrow> 'cb option" where
  "callback_for d t = (case funs d (ucast t) of None \<Rightarrow> default_callback d | Some f \<Rightarrow> f)"

definition route :: "'cb dispatcher \<Rightarrow> message \<Rightarrow> exn + 'cb action" where
  "route d msg =
     (case callback_for d (msg_type msg) of
        Some cb \<Rightarrow> Inr (Call cb msg)
      | None \<Rightarrow> if funs d (ucast (msg_type msg)) = None then Inr On_error else Inl Bad_function_call)"

lemma onMessage_route:
  assumes "8 \<le> hdr_length m"
  shows "onMessage d m = route d (load m 0 (hdr_length m))"
proof -
  have "hdr_type m = msg_type (load m 0 (hdr_length m))"
    using assms hdr_of_load(2) [of m "hdr_length m"] by simp
  then show ?thesis
    by (auto simp: onMessage_def route_def callback_for_def invoke_def Let_def split: option.splits)
qed

interpretation dispatch: message_consumer onMessage route
  by unfold_locales (rule onMessage_route)

lemma ucast_type_inject: "(ucast (a :: u8) :: u32) = ucast b \<longleftrightarrow> a = b"
proof
  assume eq: "(ucast a :: u32) = ucast b"
  have narrow: "ucast (ucast w :: u32) = w" for w :: u8
    by (rule bit_word_eqI) (simp add: bit_simps)
  show "a = b" using arg_cong [OF eq, of "ucast :: u32 \<Rightarrow> u8"] by (simp only: narrow)
qed simp

section \<open>Properties\<close>

text \<open>
  A callback registered for a message type gets exactly the messages whose header carries
  that type, each as the bytes its length field covers, and every other message is dispatched
  as before the registration; a default callback gets the messages whose type has no entry and
  changes nothing for the others.
\<close>

theorem dispatch_after_registration:
  "onMessage (setCallBackOnMessage t (Some cb) d) m =
     (if ucast (hdr_type m) = ofp_type_val t then Inr (Call cb (load m 0 (hdr_length m)))
      else onMessage d m) \<and>
   onMessage (setDefaultCallback (Some cb) d) m =
     (if funs d (ucast (hdr_type m)) = None then Inr (Call cb (load m 0 (hdr_length m)))
      else onMessage d m)"
  by (auto simp: setCallBackOnMessage_def setDefaultCallback_def onMessage_def invoke_def Let_def
      split: option.splits)

text \<open>
  The error branches: with no default callback a message of an unregistered type ends in
  \<open>onError\<close>, which drops it, and a type registered with an empty function throws
  \<open>bad_function_call\<close> even when a default callback is set.
\<close>

theorem dispatch_errors:
  "onMessage new_dispatcher m = Inr On_error \<and>
   (funs d (ucast (hdr_type m)) = None \<longrightarrow>
      onMessage (d\<lparr>default_callback := None\<rparr>) m = Inr On_error) \<and>
   (ucast (hdr_type m) = ofp_type_val t \<longrightarrow>
      onMessage (setCallBackOnMessage t None d) m = Inl Bad_function_call)"
  by (simp add: onMessage_def new_dispatcher_def setCallBackOnMessage_def invoke_def Let_def)

theorem dispatch_errors_witness:
  "onMessage (setCallBackOnMessage OFPT_PACKET_IN None (setDefaultCallback (Some ()) new_dispatcher))
     (mem_of (header_bytes 4 10 8 1)) = Inl Bad_function_call"
proof -
  have "hdr_type (mem_of (header_bytes 4 10 8 1)) = 10"
    by (simp add: hdr_type_load mem_of_def store_def header_bytes_def)
  then have "ucast (hdr_type (mem_of (header_bytes 4 10 8 1))) = ofp_type_val OFPT_PACKET_IN"
    by simp
  then show ?thesis by (rule dispatch_errors [THEN conjunct2, THEN conjunct2, THEN mp])
qed

end
