(* ===== verification/Session.thy ===== *)
theory Session imports Dispatcher begin

text \<open>
  The reading half of \<open>Session.h\<close> and \<open>Session.cpp\<close>: the loop that cuts the byte stream of a TCP
  connection into OpenFlow messages. Reads are asynchronous: a session has at most one read
  outstanding, and the handler of a completed read starts the next one. The asio library is a
  parameter: a completion is the pair of its error flag and of the bytes it placed in the buffer,
  and \<open>asio_delivers\<close> states what \<open>async_read\<close> with \<open>transfer_exactly\<close> promises of them.

  The log statements of the handlers print and change nothing; they are not modelled.
\<close>

section \<open>State\<close>

text \<open>\<open>enum { max_length = 102400 }\<close>, the size of \<open>data_\<close>.\<close>

definition max_length :: nat where "max_length = 102400"

datatype read_handler = Handle_read_header | Handle_read

text \<open>An outstanding \<open>async_read\<close>: where in \<open>data_\<close> it writes, how much, and who is called.\<close>

record async_read =
  rd_offset :: nat
  rd_length :: u64
  rd_handler :: read_handler

record 'd session =
  sess_name :: string
  sess_ip :: string
  sess_port :: u16
  sess_dispatcher :: "'d option"
  sess_data :: mem
  sess_read :: "async_read option"

text \<open>A completed read: the error code and the bytes transferred.\<close>

record completion =
  c_error :: bool
  c_bytes :: bytes

text \<open>What a handler does outside the session.\<close>

datatype 'o session_out =
    Dispatched 'o        \<comment> \<open>\<open>dispatcher_->onMessage(data_)\<close> returned\<close>
  | Raised exn           \<comment> \<open>it threw, and the exception leaves the handler\<close>
  | Null_dispatcher      \<comment> \<open>no dispatcher was set\<close>
  | Read_failed          \<comment> \<open>\<open>handle_read\<close> logged a fatal error\<close>
  | Overrun              \<comment> \<open>the read wrote past the end of \<open>data_\<close>: undefined behaviour\<close>

section \<open>Operations\<close>

definition new_session :: "string \<Rightarrow> mem \<Rightarrow> 'd session" where
  "new_session nm junk =
     \<lparr>sess_name = nm, sess_ip = [], sess_port = 0, sess_dispatcher = None, sess_data = junk,
      sess_read = None\<rparr>"

definition listen :: "u16 \<Rightarrow> string \<Rightarrow> 'd session \<Rightarrow> 'd session" where
  "listen port ip s = s\<lparr>sess_port := port, sess_ip := ip\<rparr>"

definition connect :: "u16 \<Rightarrow> string \<Rightarrow> 'd session \<Rightarrow> 'd session" where
  "connect port ip s = s\<lparr>sess_port := port, sess_ip := ip\<rparr>"

definition set_dispatcher :: "'d \<Rightarrow> 'd session \<Rightarrow> 'd session" where
  "set_dispatcher d s = s\<lparr>sess_dispatcher := Some d\<rparr>"

definition read_header_request :: async_read where
  "read_header_request =
     \<lparr>rd_offset = 0, rd_length = of_nat (sizeof ofp_header), rd_handler = Handle_read_header\<rparr>"

definition session_read :: "'d session \<Rightarrow> 'd session" where
  "session_read s = s\<lparr>sess_read := Some read_header_request\<rparr>"

definition session_start :: "'d session \<Rightarrow> 'd session" where
  "session_start s = session_read s"

text \<open>
  \<open>dispatcher_->onMessage(data_); read();\<close> with the dispatcher's operation as the parameter
  \<open>onm\<close>. An exception leaves the handler before the next read is started.
\<close>

definition dispatch_and_read ::
    "('d \<Rightarrow> mem \<Rightarrow> exn + 'o) \<Rightarrow> 'd session \<Rightarrow> 'd session \<times> 'o session_out list" where
  "dispatch_and_read onm s =
     (case sess_dispatcher s of
        None \<Rightarrow> (s, [Null_dispatcher])
      | Some d \<Rightarrow>
          (case onm d (sess_data s) of
             Inl e \<Rightarrow> (s, [Raised e])
           | Inr a \<Rightarrow> (session_read s, [Dispatched a])))"

text \<open>
  \<open>size_t length = ntohs(header->length) - sizeof(ofp_header)\<close> is a 64-bit subtraction that
  wraps. The error code of the header read is not looked at.
\<close>

definition body_length :: "mem \<Rightarrow> u64" where
  "body_length m = of_nat (hdr_length m) - of_nat (sizeof ofp_header)"

definition handle_read_header ::
    "('d \<Rightarrow> mem \<Rightarrow> exn + 'o) \<Rightarrow> bool \<Rightarrow> 'd session \<Rightarrow> 'd session \<times> 'o session_out list" where
  "handle_read_header onm error s =
     (if body_length (sess_data s) = 0 then dispatch_and_read onm s
      else (s\<lparr>sess_read := Some \<lparr>rd_offset = sizeof ofp_header, rd_length = body_length (sess_data s),
               rd_handler = Handle_read\<rparr>\<rparr>, []))"

definition handle_read ::
    "('d \<Rightarrow> mem \<Rightarrow> exn + 'o) \<Rightarrow> bool \<Rightarrow> 'd session \<Rightarrow> 'd session \<times> 'o session_out list" where
  "handle_read onm error s = (if \<not> error then dispatch_and_read onm s else (s, [Read_failed]))"

text \<open>
  The io thread runs the handler of the outstanding read on a completion of it. \<open>data_\<close> has
  \<open>max_length\<close> bytes. A completion that places bytes past them has overwritten other members of
  the session or other objects before the handler is called; what the program does from there on
  is undefined. The model reports it as \<open>Overrun\<close> and runs no handler; nothing it says of the
  session afterwards is a statement about the program. The lifecycle of \<open>Shutdown\<close> ends there.
\<close>

definition complete ::
    "('d \<Rightarrow> mem \<Rightarrow> exn + 'o) \<Rightarrow> 'd session \<Rightarrow> completion \<Rightarrow> 'd session \<times> 'o session_out list" where
  "complete onm s c =
     (case sess_read s of
        None \<Rightarrow> (s, [])
      | Some r \<Rightarrow>
          if max_length < rd_offset r + length (c_bytes c) then (s, [Overrun])
          else
            let s' = s\<lparr>sess_data := store (sess_data s) (rd_offset r) (c_bytes c), sess_read := None\<rparr>
            in case rd_handler r of
                 Handle_read_header \<Rightarrow> handle_read_header onm (c_error c) s'
               | Handle_read \<Rightarrow> handle_read onm (c_error c) s')"

lemmas session_defs [op_defs] =
  session_read_def read_header_request_def dispatch_and_read_def handle_read_header_def
  handle_read_def complete_def

section \<open>Bounds of the reads\<close>

definition in_bounds :: "async_read \<Rightarrow> bool" where
  "in_bounds r \<longleftrightarrow> rd_offset r + unat (rd_length r) \<le> max_length"

lemma read_header_in_bounds: "in_bounds read_header_request"
  by (simp add: in_bounds_def read_header_request_def max_length_def)

lemma unat_body_length:
  "unat (body_length m) = (if 8 \<le> hdr_length m then hdr_length m - 8 else 2 ^ 64 + hdr_length m - 8)"
proof -
  have eq: "uint (body_length m) = (int (hdr_length m) - 8) mod 2 ^ 64"
    using hdr_length_bound [of m] by (simp add: body_length_def uint_word_ariths take_bit_eq_mod unsigned_of_nat)
  show ?thesis
  proof (cases "8 \<le> hdr_length m")
    case True
    then have "uint (body_length m) = int (hdr_length m) - 8"
      using hdr_length_bound [of m] unfolding eq by (intro mod_pos_pos_trivial) auto
    with True show ?thesis by (simp add: unat_eq_nat_uint nat_diff_distrib)
  next
    case False
    then have "uint (body_length m) = int (hdr_length m) - 8 + 2 ^ 64"
      unfolding eq by (subst mod_add_self2 [symmetric]) (intro mod_pos_pos_trivial, auto)
    with False show ?thesis by (simp add: unat_eq_nat_uint)
  qed
qed

lemma body_length_zero: "body_length m = 0 \<longleftrightarrow> hdr_length m = 8"
  using unat_body_length [of m] unat_eq_zero [of "body_length m"] hdr_length_bound [of m]
  by (auto split: if_splits)

section \<open>Framing\<close>

text \<open>The completions that deliver one message: its header, and its body when it has one.\<close>

definition completed :: "bytes \<Rightarrow> completion" where
  "completed bs = \<lparr>c_error = False, c_bytes = bs\<rparr>"

definition reads_of :: "message \<Rightarrow> completion list" where
  "reads_of msg =
     completed (take 8 msg) # (if 8 < length msg then [completed (drop 8 msg)] else [])"

text \<open>The messages that are complete after the first \<open>n\<close> of the completions that deliver \<open>msgs\<close>.\<close>

fun framed :: "nat \<Rightarrow> message list \<Rightarrow> message list" where
  "framed n [] = []"
| "framed n (msg # msgs) =
     (if length (reads_of msg) \<le> n then msg # framed (n - length (reads_of msg)) msgs else [])"

lemma framed_prefix: "\<exists>rest. msgs = framed n msgs @ rest"
  by (induction n msgs rule: framed.induct) auto

lemma framed_mono: "k \<le> n \<Longrightarrow> \<exists>rest. framed n msgs = framed k msgs @ rest"
proof (induction n msgs arbitrary: k rule: framed.induct)
  case (2 n msg msgs)
  then show ?case by (cases "length (reads_of msg) \<le> k") auto
qed simp

lemma framed_all: "framed (length (concat (map reads_of msgs))) msgs = msgs"
  by (induction msgs) simp_all

lemma framed_take: "framed (length (take n (concat (map reads_of msgs)))) msgs = framed n msgs"
proof (induction n msgs rule: framed.induct)
  case (2 n msg msgs)
  then show ?case by (cases "length (reads_of msg) \<le> n") auto
qed simp

text \<open>
  A run in which every completion answers the read that is outstanding: no error, as many bytes
  as were asked for, and room for them in \<open>data_\<close>.
\<close>

fun answers :: "('d \<Rightarrow> mem \<Rightarrow> exn + 'o) \<Rightarrow> 'd session \<Rightarrow> completion list \<Rightarrow> bool" where
  "answers onm s [] = True"
| "answers onm s (c # cs) =
     (case sess_read s of
        None \<Rightarrow> False
      | Some r \<Rightarrow> \<not> c_error c \<and> length (c_bytes c) = unat (rd_length r) \<and> in_bounds r \<and>
          answers onm (fst (complete onm s c)) cs)"

lemma answers_append:
  "answers onm s (cs @ ds) \<longleftrightarrow> answers onm s cs \<and> answers onm (fst (run (complete onm) s cs)) ds"
  by (induction cs arbitrary: s) (auto simp: split_beta split: option.splits)

text \<open>A session that waits for a header, with its dispatcher set.\<close>

definition ready :: "'d \<Rightarrow> 'd session \<Rightarrow> bool" where
  "ready d s \<longleftrightarrow> sess_dispatcher s = Some d \<and> sess_read s = Some read_header_request"

lemma ready_start: "ready d (session_start (set_dispatcher d s))"
  by (simp add: ready_def session_start_def session_read_def set_dispatcher_def)

lemma load_header_completed:
  assumes "8 \<le> length msg"
  shows "load (store m 0 (take 8 msg)) 0 8 = take 8 msg"
  using assms by (intro load_store_same') simp

lemma hdr_of_header_completed:
  assumes "well_framed msg"
  shows "hdr_length (store m 0 (take 8 msg)) = length msg"
proof -
  have "hdr_length (store m 0 (take 8 msg)) = msg_length (take 8 msg)"
    using assms by (intro hdr_of_load(1) [of _ 8]) (simp_all add: load_header_completed well_framed_def)
  also have "\<dots> = msg_length msg" by (simp add: msg_length_def take_drop)
  finally show ?thesis using assms by (simp add: well_framed_def)
qed

lemma load_message_completed:
  assumes "8 \<le> length msg"
  shows "load (store (store m 0 (take 8 msg)) 8 (drop 8 msg)) 0 (length msg) = msg"
proof -
  have "store (store m 0 (take 8 msg)) 8 (drop 8 msg) = store m 0 msg"
    using store_store_append [of m 0 "take 8 msg" "drop 8 msg"] assms by simp
  then show ?thesis by simp
qed

text \<open>The header of a message with a body is read without a dispatch.\<close>

lemma header_waits:
  assumes "sess_read s = Some read_header_request" and "well_framed msg" and "length msg \<noteq> 8"
  shows "snd (complete onm s (completed (take 8 msg))) = []"
  using assms hdr_of_header_completed [OF assms(2), of "sess_data s"]
  by (simp add: complete_def completed_def read_header_request_def handle_read_header_def body_length_zero Let_def
      max_length_def)

context message_consumer
begin

lemma dispatch_ready:
  assumes "sess_dispatcher s = Some d" and "well_framed msg" and "load (sess_data s) 0 (length msg) = msg"
    and "route d msg = Inr a"
  shows "\<exists>s'. dispatch_and_read onm s = (s', [Dispatched a]) \<and> ready d s' \<and> sess_data s' = sess_data s"
  using assms consumes [of msg "sess_data s" d]
  by (simp add: dispatch_and_read_def ready_def session_read_def)

lemma frame_one:
  assumes "ready d s" and "well_framed msg" and "route d msg = Inr a"
  shows "answers onm s (reads_of msg) \<and>
    (\<exists>s'. run (complete onm) s (reads_of msg) = (s', [Dispatched a]) \<and> ready d s' \<and>
      load (sess_data s') 0 (length msg) = msg)"
proof -
  let ?m = "store (sess_data s) 0 (take 8 msg)"
  let ?t = "s\<lparr>sess_data := ?m, sess_read := None\<rparr>"
  have len: "hdr_length ?m = length msg" using assms(2) by (rule hdr_of_header_completed)
  have ge: "8 \<le> length msg" using assms(2) by (simp add: well_framed_def)
  have rd: "sess_dispatcher s = Some d" "sess_read s = Some read_header_request"
    using assms(1) by (simp_all add: ready_def)
  have first: "complete onm s (completed (take 8 msg)) = handle_read_header onm False ?t"
    using rd by (simp add: complete_def completed_def read_header_request_def Let_def max_length_def)
  have size: "length (take 8 msg) = unat (rd_length read_header_request)"
    using ge by (simp add: read_header_request_def)
  show ?thesis
  proof (cases "length msg = 8")
    case True
    then have "body_length ?m = 0" using len by (simp add: body_length_zero del: take_all)
    moreover have "load ?m 0 (length msg) = msg"
      using True load_header_completed [of msg "sess_data s"] by simp
    moreover obtain s' where "dispatch_and_read onm ?t = (s', [Dispatched a])" "ready d s'"
      "sess_data s' = ?m"
      using dispatch_ready [of ?t d msg a] rd assms(2,3) calculation(2) by auto
    ultimately show ?thesis
      using True first rd size read_header_in_bounds
      by (simp add: reads_of_def handle_read_header_def completed_def)
  next
    case False
    let ?r = "\<lparr>rd_offset = 8, rd_length = body_length ?m, rd_handler = Handle_read\<rparr>"
    let ?u = "s\<lparr>sess_data := store ?m 8 (drop 8 msg), sess_read := None\<rparr>"
    have turn: "complete onm s (completed (take 8 msg)) = (?t\<lparr>sess_read := Some ?r\<rparr>, [])"
      using first False by (simp add: handle_read_header_def body_length_zero len)
    have body: "length (drop 8 msg) = unat (rd_length ?r)" "in_bounds ?r"
      using ge len well_framed_bound [OF assms(2)]
      by (simp_all add: unat_body_length in_bounds_def max_length_def)
    have "complete onm (?t\<lparr>sess_read := Some ?r\<rparr>) (completed (drop 8 msg)) =
        dispatch_and_read onm ?u"
      using ge well_framed_bound [OF assms(2)]
      by (simp add: complete_def completed_def handle_read_def max_length_def)
    moreover have "load (sess_data ?u) 0 (length msg) = msg"
      using load_message_completed [OF ge] by simp
    moreover obtain s' where "dispatch_and_read onm ?u = (s', [Dispatched a])" "ready d s'"
      "sess_data s' = sess_data ?u"
      using dispatch_ready [of ?u d msg a] rd assms(2,3) calculation(2) by auto
    ultimately show ?thesis
      using False ge turn rd size body read_header_in_bounds
      by (simp add: reads_of_def) (simp add: completed_def)
  qed
qed

lemma frame_all:
  assumes "ready d s" and "\<And>msg. msg \<in> set msgs \<Longrightarrow> well_framed msg"
    and "map (route d) msgs = map Inr as"
  shows "answers onm s (concat (map reads_of msgs)) \<and>
    (\<exists>s'. run (complete onm) s (concat (map reads_of msgs)) = (s', map Dispatched as) \<and> ready d s')"
  using assms
proof (induction msgs arbitrary: s as)
  case Nil
  then show ?case by simp
next
  case (Cons msg msgs)
  then obtain a as' where as: "as = a # as'" "route d msg = Inr a" "map (route d) msgs = map Inr as'"
    by (cases as) auto
  obtain s1 where one: "answers onm s (reads_of msg)"
    "run (complete onm) s (reads_of msg) = (s1, [Dispatched a])" "ready d s1"
    using frame_one [OF Cons.prems(1) Cons.prems(2) as(2)] by auto
  obtain s2 where "answers onm s1 (concat (map reads_of msgs))"
    "run (complete onm) s1 (concat (map reads_of msgs)) = (s2, map Dispatched as')" "ready d s2"
    using Cons.IH [OF one(3) _ as(3)] Cons.prems(2) by auto
  with one as(1) show ?case by (simp add: run_append answers_append)
qed

text \<open>A run that stops anywhere has dispatched the messages that are complete.\<close>

lemma frame_some:
  assumes "ready d s" and "list_all well_framed msgs" and "\<And>msg. route d msg = Inr (act msg)"
  shows "snd (run (complete onm) s (take n (concat (map reads_of msgs)))) =
    map (\<lambda>msg. Dispatched (act msg)) (framed n msgs)"
  using assms(1,2)
proof (induction n msgs arbitrary: s rule: framed.induct)
  case (2 n msg msgs)
  have wf: "well_framed msg" "list_all well_framed msgs" using 2(3) by simp_all
  obtain s1 where one: "run (complete onm) s (reads_of msg) = (s1, [Dispatched (act msg)])" "ready d s1"
    using frame_one [OF 2(2) wf(1) assms(3)] by blast
  show ?case
  proof (cases "length (reads_of msg) \<le> n")
    case True
    then show ?thesis
      using 2(1) [OF True one(2) wf(2)] one(1) by (simp add: run_append split_beta)
  next
    case False
    then consider "n = 0" | "n = Suc 0" "length msg \<noteq> 8"
      by (cases n) (auto simp: reads_of_def split: if_splits)
    then show ?thesis
    proof cases
      case 2
      then have "take n (concat (map reads_of (msg # msgs))) = [completed (take 8 msg)]"
        by (simp add: reads_of_def)
      then show ?thesis
        using False header_waits [OF _ wf(1) 2(2), of s onm] \<open>ready d s\<close> by (simp add: ready_def split_beta)
    qed (use False in simp)
  qed
qed simp

end

section \<open>When a session stops reading\<close>

text \<open>A dispatcher with a function for every message: nothing it is given makes it throw.\<close>

definition total_dispatch :: "('d \<Rightarrow> mem \<Rightarrow> exn + 'o) \<Rightarrow> 'd session \<Rightarrow> bool" where
  "total_dispatch onm s \<longleftrightarrow> (\<exists>d. sess_dispatcher s = Some d \<and> (\<forall>m. \<exists>a. onm d m = Inr a))"

definition fine :: "'o session_out \<Rightarrow> bool" where
  "fine x \<longleftrightarrow> (case x of Raised e \<Rightarrow> False | Null_dispatcher \<Rightarrow> False | _ \<Rightarrow> True)"

lemma complete_total:
  assumes "total_dispatch onm s"
  shows "total_dispatch onm (fst (complete onm s c))" and "list_all fine (snd (complete onm s c))"
    and "sess_read s \<noteq> None \<Longrightarrow>
      sess_read (fst (complete onm s c)) = None \<longleftrightarrow> Read_failed \<in> set (snd (complete onm s c))"
    and "sess_read s = None \<Longrightarrow> complete onm s c = (s, [])"
proof -
  obtain d where d: "sess_dispatcher s = Some d" "\<And>m. \<exists>a. onm d m = Inr a"
    using assms by (auto simp: total_dispatch_def)
  have dr: "\<exists>a. dispatch_and_read onm s' = (session_read s', [Dispatched a])" if "sess_dispatcher s' = Some d" for s'
    using d(2) [of "sess_data s'"] that by (auto simp: dispatch_and_read_def)
  have kept: "sess_dispatcher (fst (complete onm s c)) = Some d"
    using d(1) by (auto simp: session_defs Let_def split: option.split read_handler.split sum.split)
  then show "total_dispatch onm (fst (complete onm s c))" using d(2) by (simp add: total_dispatch_def)
  show none: "complete onm s c = (s, [])" if "sess_read s = None"
    using that by (simp add: complete_def)
  have some: "(list_all fine (snd (complete onm s c))) \<and>
      (sess_read (fst (complete onm s c)) = None \<longleftrightarrow> Read_failed \<in> set (snd (complete onm s c)))"
    if r: "sess_read s = Some r" for r
  proof -
    let ?s = "s\<lparr>sess_data := store (sess_data s) (rd_offset r) (c_bytes c), sess_read := None\<rparr>"
    obtain a where a: "dispatch_and_read onm ?s = (session_read ?s, [Dispatched a])"
      using dr [of ?s] d(1) by auto
    show ?thesis
      using a
      by (cases "rd_handler r")
        (auto simp: complete_def r handle_read_header_def handle_read_def session_read_def fine_def Let_def)
  qed
  show "list_all fine (snd (complete onm s c))" using none some by (cases "sess_read s") auto
  show "sess_read (fst (complete onm s c)) = None \<longleftrightarrow> Read_failed \<in> set (snd (complete onm s c))"
    if "sess_read s \<noteq> None" using some that by auto
qed

lemma run_total:
  assumes "total_dispatch onm s"
  shows "list_all fine (snd (run (complete onm) s cs))"
    and "sess_read s \<noteq> None \<Longrightarrow>
      sess_read (fst (run (complete onm) s cs)) = None \<longleftrightarrow> Read_failed \<in> set (snd (run (complete onm) s cs))"
proof -
  have stays: "run (complete onm) s' cs = (s', [])" if "sess_read s' = None" "total_dispatch onm s'" for s' cs
    using that by (induction cs) (simp_all add: complete_total(4))
  have "list_all fine (snd (run (complete onm) s cs)) \<and> (sess_read s \<noteq> None \<longrightarrow>
      (sess_read (fst (run (complete onm) s cs)) = None \<longleftrightarrow> Read_failed \<in> set (snd (run (complete onm) s cs))))"
    using assms
  proof (induction cs arbitrary: s)
    case (Cons c cs)
    note one = complete_total [OF Cons.prems, of c]
    show ?case
    proof (cases "sess_read (fst (complete onm s c)) = None")
      case True
      then show ?thesis
        using one stays [OF True one(1)] by (auto simp: fst_run_Cons snd_run_Cons simp del: run.simps(2))
    next
      case False
      then show ?thesis
        using one Cons.IH [OF one(1)] by (auto simp: fst_run_Cons snd_run_Cons simp del: run.simps(2))
    qed
  qed simp
  then show "list_all fine (snd (run (complete onm) s cs))"
    "sess_read s \<noteq> None \<Longrightarrow>
      sess_read (fst (run (complete onm) s cs)) = None \<longleftrightarrow> Read_failed \<in> set (snd (run (complete onm) s cs))"
    by blast+
qed

section \<open>The io loop over a socket\<close>

text \<open>
  A socket of the asio library: \<open>recv k n\<close> is the completion of \<open>async_read\<close> of exactly \<open>n\<close>
  bytes on the socket state \<open>k\<close>, \<open>inbox k\<close> the bytes the peer has sent and nobody has read yet.
  As the library documents it, the read completes without error with the next \<open>n\<close> bytes of the
  stream when the peer sends that many, however TCP cut them into segments.
\<close>

definition asio_delivers :: "('k \<Rightarrow> nat \<Rightarrow> completion \<times> 'k) \<Rightarrow> ('k \<Rightarrow> bytes) \<Rightarrow> bool" where
  "asio_delivers recv inbox \<longleftrightarrow>
     (\<forall>k n. n \<le> length (inbox k) \<longrightarrow>
        fst (recv k n) = completed (take n (inbox k)) \<and> inbox (snd (recv k n)) = drop n (inbox k))"

text \<open>\<open>io_service.run()\<close> for one session: a given number of turns, each completing one read.\<close>

fun io_loop ::
    "nat \<Rightarrow> ('k \<Rightarrow> nat \<Rightarrow> completion \<times> 'k) \<Rightarrow> ('d \<Rightarrow> mem \<Rightarrow> exn + 'o) \<Rightarrow> 'k \<Rightarrow> 'd session \<Rightarrow>
     'k \<times> 'd session \<times> 'o session_out list" where
  "io_loop 0 recv onm k s = (k, s, [])"
| "io_loop (Suc n) recv onm k s =
     (case sess_read s of
        None \<Rightarrow> (k, s, [])
      | Some r \<Rightarrow>
          let (c, k') = recv k (unat (rd_length r));
              (s', os) = complete onm s c;
              (k'', s'', os') = io_loop n recv onm k' s'
          in (k'', s'', os @ os'))"

lemma io_loop_answers:
  assumes "asio_delivers recv inbox" and "answers onm s cs"
    and "inbox k = concat (map c_bytes cs) @ rest"
  shows "\<exists>k'. io_loop (length cs) recv onm k s = (k', run (complete onm) s cs) \<and> inbox k' = rest"
  using assms(2,3)
proof (induction cs arbitrary: s k)
  case Nil
  then show ?case by simp
next
  case (Cons c cs)
  then obtain r where r: "sess_read s = Some r" "\<not> c_error c" "length (c_bytes c) = unat (rd_length r)"
    "answers onm (fst (complete onm s c)) cs"
    by (auto split: option.splits)
  have c: "c = completed (c_bytes c)" using r(2) by (cases c) (simp add: completed_def)
  obtain d k1 where rc: "recv k (unat (rd_length r)) = (d, k1)" by fastforce
  have "inbox k = c_bytes c @ (concat (map c_bytes cs) @ rest)" using Cons.prems(2) by simp
  then have "unat (rd_length r) \<le> length (inbox k)"
    "take (unat (rd_length r)) (inbox k) = c_bytes c"
    "drop (unat (rd_length r)) (inbox k) = concat (map c_bytes cs) @ rest"
    using r(3) [symmetric] by simp_all
  then have "d = c" "inbox k1 = concat (map c_bytes cs) @ rest"
    using assms(1) rc c unfolding asio_delivers_def by (metis fst_conv, metis snd_conv)
  moreover obtain k' where "io_loop (length cs) recv onm k1 (fst (complete onm s c)) =
      (k', run (complete onm) (fst (complete onm s c)) cs)" "inbox k' = rest"
    using Cons.IH [OF r(4)] calculation(2) by blast
  ultimately show ?case using rc r(1) by (simp add: split_beta Let_def)
qed

lemma concat_reads_of: "concat (map c_bytes (reads_of msg)) = msg"
  by (simp add: reads_of_def completed_def)

lemma concat_map_reads_of: "concat (map c_bytes (concat (map reads_of msgs))) = concat msgs"
  by (induction msgs) (simp_all add: concat_reads_of)

lemma io_loop_frames:
  assumes "asio_delivers recv inbox" and "inbox k = concat msgs @ rest"
    and "ready d s" and "\<And>msg. msg \<in> set msgs \<Longrightarrow> well_framed msg"
    and "map (route d) msgs = map Inr as"
  shows "\<exists>k' s'. io_loop (length (concat (map reads_of msgs))) recv onMessage k s =
      (k', s', map Dispatched as) \<and> ready d s' \<and> inbox k' = rest"
proof -
  let ?cs = "concat (map reads_of msgs)"
  obtain s' where run: "answers onMessage s ?cs"
    "run (complete onMessage) s ?cs = (s', map Dispatched as)" "ready d s'"
    using dispatch.frame_all [OF assms(3,4,5)] by auto
  have "inbox k = concat (map c_bytes ?cs) @ rest"
    using assms(2) by (simp only: concat_map_reads_of)
  from io_loop_answers [OF assms(1) run(1) this] run(2,3) show ?thesis by auto
qed

text \<open>A failed header read leaves the last header in place; it is dispatched again.\<close>

lemma stale_header:
  assumes "ready d s" and "load (sess_data s) 0 8 = msg" and "well_framed msg"
    and "route d msg = Inr a"
  shows "snd (run (complete onMessage) s (replicate n \<lparr>c_error = True, c_bytes = []\<rparr>)) =
    replicate n (Dispatched a)"
proof -
  have len: "length msg = 8" using assms(2) by auto
  have "hdr_length (sess_data s) = 8"
    using hdr_of_load(1) [OF assms(2)] assms(3) len by (simp add: well_framed_def)
  then have "body_length (sess_data s) = 0" by (simp add: body_length_zero)
  moreover have "onMessage d (sess_data s) = Inr a"
    using dispatch.consumes [of msg "sess_data s" d] assms(2-4) len by simp
  ultimately have step: "complete onMessage s \<lparr>c_error = True, c_bytes = []\<rparr> = (s, [Dispatched a])"
    using assms(1)
    by (simp add: complete_def ready_def read_header_request_def handle_read_header_def
        dispatch_and_read_def session_read_def max_length_def)
  show ?thesis by (induction n) (simp_all add: step split_beta)
qed

section \<open>Properties\<close>

text \<open>
  C4. Framing. When the peer sends well-framed messages, the io loop calls the dispatcher once
  for each of them, in order, with exactly its bytes, however the stream was cut into TCP
  segments; every read it starts stays inside \<open>data_\<close> and it ends waiting for the next header,
  with the unread bytes still in the socket. The hypothesis on the socket is what asio documents
  for \<open>async_read\<close> with \<open>transfer_exactly\<close>.
\<close>

theorem session_framing:
  assumes "asio_delivers recv inbox" and "inbox k = concat msgs @ rest"
    and "list_all well_framed msgs" and "map (route d) msgs = map Inr actions"
  shows "\<exists>k' s'. io_loop (length (concat (map reads_of msgs))) recv onMessage k
        (session_start (set_dispatcher d s)) = (k', s', map Dispatched actions) \<and>
      ready d s' \<and> inbox k' = rest \<and>
      answers onMessage (session_start (set_dispatcher d s)) (concat (map reads_of msgs))"
proof -
  have wf: "\<And>msg. msg \<in> set msgs \<Longrightarrow> well_framed msg" using assms(3) by (simp add: list_all_iff)
  show ?thesis
    using io_loop_frames [OF assms(1,2) ready_start [of d s] wf assms(4)]
      dispatch.frame_all [OF ready_start [of d s] wf assms(4), THEN conjunct1]
    by auto
qed

definition list_recv :: "bytes \<Rightarrow> nat \<Rightarrow> completion \<times> bytes" where
  "list_recv k n = (\<lparr>c_error = length k < n, c_bytes = take n k\<rparr>, drop n k)"

lemma list_recv_delivers: "asio_delivers list_recv id"
  by (simp add: asio_delivers_def list_recv_def completed_def)

theorem session_framing_witness:
  "\<exists>k' s'. io_loop 3 list_recv onMessage (header_bytes 4 0 8 1 @ header_bytes 4 10 9 2 @ [7])
      (session_start (set_dispatcher (setDefaultCallback (Some ()) new_dispatcher) (new_session [] (\<lambda>_. 0)))) =
      (k', s', [Dispatched (Call () (header_bytes 4 0 8 1)),
                Dispatched (Call () (header_bytes 4 10 9 2 @ [7]))]) \<and> k' = []"
proof -
  let ?d = "setDefaultCallback (Some ()) new_dispatcher"
  let ?ms = "[header_bytes 4 0 8 1, header_bytes 4 10 9 2 @ [7]]"
  have "id (concat ?ms) = concat ?ms @ []" by simp
  moreover have "list_all well_framed ?ms" by (simp add: well_framed_def)
  moreover have "map (route ?d) ?ms = map Inr (map (Call ()) ?ms)"
    by (simp add: route_def callback_for_def setDefaultCallback_def new_dispatcher_def)
  ultimately have "\<exists>k' s'. io_loop (length (concat (map reads_of ?ms))) list_recv onMessage (concat ?ms)
      (session_start (set_dispatcher ?d (new_session [] (\<lambda>_. 0)))) =
      (k', s', map Dispatched (map (Call ()) ?ms)) \<and> id k' = []"
    using session_framing [OF list_recv_delivers] by blast
  moreover have "length (concat (map reads_of ?ms)) = 3"
    by (simp add: reads_of_def)
  ultimately show ?thesis by simp
qed

text \<open>
  C17. Bounds of the reads. The read that \<open>handle_read_header\<close> starts stays inside the 102400
  bytes of \<open>data_\<close> exactly when the length field of the header is at least 8. A smaller length
  wraps around in the 64-bit subtraction and asks asio for more than 2^63 bytes at \<open>data_ + 8\<close>.
\<close>

theorem header_read_bounds:
  assumes "sess_read (fst (handle_read_header onm error (s\<lparr>sess_read := None\<rparr>))) = Some r"
  shows "(in_bounds r \<longleftrightarrow> 8 \<le> hdr_length (sess_data s)) \<and>
    (2 ^ 63 < unat (rd_length r) \<longleftrightarrow> hdr_length (sess_data s) < 8)"
proof -
  consider "r = read_header_request" "hdr_length (sess_data s) = 8"
    | "rd_offset r = 8" "rd_length r = body_length (sess_data s)" "hdr_length (sess_data s) \<noteq> 8"
    using assms by (auto simp: handle_read_header_def dispatch_and_read_def session_read_def
        body_length_zero split: if_splits option.splits sum.splits)
  then show ?thesis
  proof cases
    case 1
    then show ?thesis using read_header_in_bounds by (simp add: read_header_request_def)
  next
    case 2
    then show ?thesis
      using hdr_length_bound [of "sess_data s"]
      by (auto simp: in_bounds_def unat_body_length max_length_def)
  qed
qed

text \<open>A header that claims a length of 4.\<close>

theorem header_read_bounds_witness:
  "\<exists>r. sess_read (fst (handle_read_header onMessage False
      ((new_session [] (mem_of (header_bytes 4 10 4 1)) :: unit dispatcher session)\<lparr>sess_read := None\<rparr>))) = Some r \<and>
    \<not> in_bounds r \<and> 2 ^ 63 < unat (rd_length r)"
proof -
  let ?s = "new_session [] (mem_of (header_bytes 4 10 4 1)) :: unit dispatcher session"
  have len: "hdr_length (sess_data ?s) = 4"
    using hdr_of_load(1) [of "mem_of (header_bytes 4 10 4 1)" 8 "header_bytes 4 10 4 1"]
      load_mem_of_all [of "header_bytes 4 10 4 1"]
    by (simp add: new_session_def)
  then obtain r where r: "sess_read (fst (handle_read_header onMessage False (?s\<lparr>sess_read := None\<rparr>))) = Some r"
    by (simp add: handle_read_header_def body_length_zero)
  show ?thesis using header_read_bounds [OF r] len r by auto
qed

text \<open>
  An error in the body of a message stops the session: the failure is logged, no read is
  outstanding any more, and whatever completes later does nothing. The bytes that did arrive
  before the error lie inside \<open>data_\<close>.
\<close>

lemma body_error_completes:
  assumes "sess_read s = Some r" and "rd_handler r = Handle_read" and "c_error c"
    and "rd_offset r + length (c_bytes c) \<le> max_length"
  shows "\<exists>t. complete onm s c = (t, [Read_failed]) \<and> sess_read t = None"
  using assms by (simp add: complete_def handle_read_def)

theorem body_error_stops:
  assumes "sess_read s = Some r" and "rd_handler r = Handle_read" and "c_error c"
    and "rd_offset r + length (c_bytes c) \<le> max_length"
  shows "snd (run (complete onm) s (c # cs)) = [Read_failed] \<and>
    sess_read (fst (run (complete onm) s (c # cs))) = None"
proof -
  obtain t where t: "complete onm s c = (t, [Read_failed])" "sess_read t = None"
    using body_error_completes [OF assms] by blast
  have "complete onm t c' = (t, [])" for c' using t(2) by (simp add: complete_def)
  then have "run (complete onm) t cs = (t, [])" by (induction cs) simp_all
  with t show ?thesis by simp
qed

theorem body_error_stops_witness:
  "snd (run (complete onMessage) ((new_session [] (\<lambda>_. 0) :: unit dispatcher session)
      \<lparr>sess_read := Some \<lparr>rd_offset = 8, rd_length = 1, rd_handler = Handle_read\<rparr>\<rparr>)
      [\<lparr>c_error = True, c_bytes = []\<rparr>, completed [1]]) = [Read_failed]"
  using body_error_stops [of "(new_session [] (\<lambda>_. 0) :: unit dispatcher session)
      \<lparr>sess_read := Some \<lparr>rd_offset = 8, rd_length = 1, rd_handler = Handle_read\<rparr>\<rparr>"
      "\<lparr>rd_offset = 8, rd_length = 1, rd_handler = Handle_read\<rparr>"
      "\<lparr>c_error = True, c_bytes = []\<rparr>" onMessage "[completed [1]]"]
  by (simp add: max_length_def)

text \<open>
  An error in the header read is not noticed. When the connection ends after a message that
  is only a header, each failed read of the next header dispatches that last message once more
  and starts another read, for as long as the reads keep failing.
\<close>

theorem stale_header_redispatched:
  assumes "ready d s" and "load (sess_data s) 0 8 = msg" and "well_framed msg"
    and "route d msg = Inr a"
  shows "snd (run (complete onMessage) s (replicate n \<lparr>c_error = True, c_bytes = []\<rparr>)) =
    replicate n (Dispatched a)"
  using assms by (rule stale_header)

theorem stale_header_redispatched_witness:
  "snd (run (complete onMessage)
      (session_start (set_dispatcher (setDefaultCallback (Some ()) new_dispatcher)
        (new_session [] (mem_of (header_bytes 4 2 8 1)))))
      (replicate 5 \<lparr>c_error = True, c_bytes = []\<rparr>)) =
    replicate 5 (Dispatched (Call () (header_bytes 4 2 8 1)))"
proof (rule stale_header_redispatched [OF ready_start])
  show "load (sess_data (session_start (set_dispatcher (setDefaultCallback (Some ()) new_dispatcher)
      (new_session [] (mem_of (header_bytes 4 2 8 1)))))) 0 8 = header_bytes 4 2 8 1"
    using load_mem_of_all [of "header_bytes 4 2 8 1"]
    by (simp add: session_start_def session_read_def set_dispatcher_def new_session_def)
qed (simp_all add: well_framed_def route_def callback_for_def setDefaultCallback_def new_dispatcher_def)

end
