(* ===== verification/Hex_Utility.thy ===== *)
theory Hex_Utility imports Euth_Prelude begin

text \<open>
  \<open>utility.cpp\<close>: \<open>to_hex_string\<close>, the dump of a byte range that every log line uses. A byte is
  written by \<open>std::hex\<close> (lower case, no leading zero) and followed by a blank. The reader
  \<open>parse_hex\<close> is the specification side: it shows that a dump determines the bytes.
\<close>

section \<open>Writing\<close>

definition hex_digit :: "nat \<Rightarrow> char" where
  "hex_digit d = ''0123456789abcdef'' ! d"

text \<open>\<open>ss << std::hex << (unsigned short)(unsigned char)data[i]\<close>: one digit below 16, two above.\<close>

definition hex_of_byte :: "byte \<Rightarrow> string" where
  "hex_of_byte b =
     (let n = unat b in if n < 16 then [hex_digit n] else [hex_digit (n div 16), hex_digit (n mod 16)])"

definition to_hex_string :: "mem \<Rightarrow> nat \<Rightarrow> string" where
  "to_hex_string data len = concat (map (\<lambda>i. hex_of_byte (data i) @ '' '') [0..<len])"

section \<open>Reading back\<close>

definition digit_value :: "char \<Rightarrow> nat" where
  "digit_value c = (let n = of_char c in if n < 58 then n - 48 else n - 87)"

fun parse_hex :: "nat \<Rightarrow> string \<Rightarrow> bytes" where
  "parse_hex acc [] = []"
| "parse_hex acc (c # cs) =
     (if c = CHR '' '' then of_nat acc # parse_hex 0 cs else parse_hex (16 * acc + digit_value c) cs)"

lemma hex_digits:
  "d < 16 \<Longrightarrow> digit_value (hex_digit d) = d \<and> hex_digit d \<noteq> CHR '' ''"
proof -
  have "list_all (\<lambda>d. digit_value (hex_digit d) = d \<and> hex_digit d \<noteq> CHR '' '') [0..<16]"
    by (simp add: upt_rec hex_digit_def digit_value_def)
  moreover assume "d < 16"
  ultimately show ?thesis by (simp add: list_all_iff)
qed

lemma parse_hex_byte: "parse_hex 0 (hex_of_byte b @ CHR '' '' # rest) = b # parse_hex 0 rest"
proof (cases "unat b < 16")
  case True
  then show ?thesis using hex_digits [of "unat b"] by (simp add: hex_of_byte_def)
next
  case False
  have "unat b div 16 < 16" "unat b mod 16 < 16" using unat_u8_bound [of b] by simp_all
  then show ?thesis using False hex_digits by (simp add: hex_of_byte_def Let_def)
qed

fun dump :: "bytes \<Rightarrow> string" where
  "dump [] = []"
| "dump (b # bs) = hex_of_byte b @ CHR '' '' # dump bs"

lemma dump_eq: "dump bs = concat (map (\<lambda>b. hex_of_byte b @ '' '') bs)"
  by (induction bs) simp_all

lemma to_hex_string_dump: "to_hex_string data len = dump (load data 0 len)"
  by (simp add: to_hex_string_def dump_eq load_def o_def)

lemma parse_dump: "parse_hex 0 (dump bs) = bs"
  by (induction bs) (simp_all add: parse_hex_byte)

lemma length_dump: "2 * length bs \<le> length (dump bs) \<and> length (dump bs) \<le> 3 * length bs"
  by (induction bs) (auto simp: hex_of_byte_def Let_def)

section \<open>Properties\<close>

text \<open>
  C40. The dump of a byte range can be read back: parsing what \<open>to_hex_string\<close> writes for the
  first \<open>len\<close> bytes at a pointer gives exactly those bytes, so two different ranges never log the
  same text; and the dump takes two or three characters for each byte.
\<close>

theorem to_hex_string_roundtrip:
  "parse_hex 0 (to_hex_string data len) = load data 0 len \<and>
   2 * len \<le> length (to_hex_string data len) \<and> length (to_hex_string data len) \<le> 3 * len"
  using length_dump [of "load data 0 len"] by (simp add: to_hex_string_dump parse_dump)

end
