(* ===== verification/Log_Level.thy ===== *)
theory Log_Level imports Hex_Utility begin

text \<open>
  The log as the programs see it: the severities of \<open>boost::log::trivial\<close> with the order and the
  numbers the library documents, the filter that
  \<open>boost_log_init\<close> of \<open>eproxy.cpp\<close> and of \<open>UnitTest_PacketInTester.cpp\<close> installs, and the records that
  pass it. \<open>BOOST_LOG_TRIVIAL(level) << ...\<close> makes a record only if the filter lets the level through.
\<close>

datatype severity_level = Log_trace | Log_debug | Log_info | Log_warning | Log_error | Log_fatal

primrec severity_val :: "severity_level \<Rightarrow> int" where
  "severity_val Log_trace = 0"
| "severity_val Log_debug = 1"
| "severity_val Log_info = 2"
| "severity_val Log_warning = 3"
| "severity_val Log_error = 4"
| "severity_val Log_fatal = 5"

lemma severity_val_inject: "severity_val a = severity_val b \<Longrightarrow> a = b"
  by (cases a; cases b) simp_all

lemma severity_val_bounds: "0 \<le> severity_val l" "severity_val l \<le> 5"
  by (cases l; simp)+

instantiation severity_level :: linorder
begin

definition less_eq_severity_level :: "severity_level \<Rightarrow> severity_level \<Rightarrow> bool" where
  "less_eq_severity_level a b \<longleftrightarrow> severity_val a \<le> severity_val b"

definition less_severity_level :: "severity_level \<Rightarrow> severity_level \<Rightarrow> bool" where
  "less_severity_level a b \<longleftrightarrow> severity_val a < severity_val b"

instance
  by standard (auto simp: less_eq_severity_level_def less_severity_level_def intro: severity_val_inject)

end

type_synonym log_filter = "severity_level \<Rightarrow> bool"

text \<open>\<open>set_filter(severity >= s)\<close>; before any filter is set every record passes.\<close>

definition boost_log_init :: "int \<Rightarrow> log_filter" where
  "boost_log_init severity l \<longleftrightarrow> severity \<le> severity_val l"

definition no_filter :: log_filter where
  "no_filter l = True"

datatype log_record = Record severity_level string

definition boost_log :: "log_filter \<Rightarrow> severity_level \<Rightarrow> string \<Rightarrow> log_record list" where
  "boost_log passes l txt = (if passes l then [Record l txt] else [])"

lemma filter_upward: "boost_log_init s l \<Longrightarrow> l \<le> l' \<Longrightarrow> boost_log_init s l'"
  by (simp add: boost_log_init_def less_eq_severity_level_def)

lemma filter_extremes: "s \<le> 0 \<Longrightarrow> boost_log_init s l" "5 < s \<Longrightarrow> \<not> boost_log_init s l"
  using severity_val_bounds [of l] by (simp_all add: boost_log_init_def)

end
