(* ===== verification/Session_Write.thy ===== *)
theory Session_Write imports Session Log_Level begin

text \<open>
  The writing half of \<open>Session.cpp\<close>. \<open>write\<close> posts a handler to the io service; the io thread runs
  it and it starts an \<open>async_write\<close> of the whole message at once, whether or not an earlier one is
  still in progress. An \<open>async_write\<close> is carried out by one or more \<open>async_write_some\<close> calls, each
  of which moves some of its remaining bytes to the socket; the asio documentation leaves the
  number of bytes to the library and the order between two outstanding writes undefined.

  \<open>handle_write\<close> is the end of a write: it changes no state and logs the message, or the error.
\<close>

section \<open>State and operations\<close>

text \<open>
  \<open>w_posted\<close>: messages whose handler the io thread has not run; \<open>w_ops\<close>: every started write with
  the number of its bytes already transferred, in the order they were started; \<open>w_wire\<close>: the bytes
  on the socket, each with the write it belongs to.
\<close>

record writer =
  w_posted :: "message list"
  w_ops :: "(message \<times> nat) list"
  w_wire :: "(nat \<times> byte) list"

definition new_writer :: writer where
  "new_writer = \<lparr>w_posted = [], w_ops = [], w_wire = []\<rparr>"

definition session_write :: "message \<Rightarrow> writer \<Rightarrow> writer" where
  "session_write msg w = w\<lparr>w_posted := w_posted w @ [msg]\<rparr>"

definition write_in_io_thread :: "message \<Rightarrow> writer \<Rightarrow> writer" where
  "write_in_io_thread msg w = w\<lparr>w_ops := w_ops w @ [(msg, 0)]\<rparr>"

text \<open>One \<open>async_write_some\<close> of the write \<open>i\<close> that moves \<open>n\<close> bytes.\<close>

definition transfer :: "nat \<Rightarrow> nat \<Rightarrow> writer \<Rightarrow> writer" where
  "transfer i n w =
     (case w_ops w ! i of
        (msg, k) \<Rightarrow> w\<lparr>w_ops := (w_ops w)[i := (msg, k + n)],
                      w_wire := w_wire w @ map (Pair i) (take n (drop k msg))\<rparr>)"

text \<open>A step of the io thread on the writes, when the step is possible.\<close>

definition start_write :: "writer \<Rightarrow> writer" where
  "start_write w = (case w_posted w of [] \<Rightarrow> w | msg # rest \<Rightarrow> write_in_io_thread msg (w\<lparr>w_posted := rest\<rparr>))"

definition move_write :: "nat \<Rightarrow> nat \<Rightarrow> writer \<Rightarrow> writer" where
  "move_write i n w =
     (if i < length (w_ops w) \<and> 0 < n \<and> snd (w_ops w ! i) + n \<le> length (fst (w_ops w ! i))
      then transfer i n w else w)"

text \<open>
  The events of the writing half: a call of \<open>write\<close>, the io thread running the next posted handler,
  and a transfer of the library. A transfer or handler that is not possible does nothing.
\<close>

datatype writer_event =
    Call_write message
  | Run_posted
  | Write_some nat nat

primrec writer_do :: "writer \<Rightarrow> writer_event \<Rightarrow> writer" where
  "writer_do w (Call_write msg) = session_write msg w"
| "writer_do w Run_posted = start_write w"
| "writer_do w (Write_some i n) = move_write i n w"

definition writer_run :: "writer_event list \<Rightarrow> writer" where
  "writer_run es = fold (\<lambda>e w. writer_do w e) es new_writer"

text \<open>The messages \<open>write\<close> has been called with, and whether the write \<open>i\<close> has no byte left to move.\<close>

definition posts :: "writer_event list \<Rightarrow> message list" where
  "posts es = List.map_filter (\<lambda>e. case e of Call_write msg \<Rightarrow> Some msg | _ \<Rightarrow> None) es"

definition write_finished :: "nat \<Rightarrow> writer \<Rightarrow> bool" where
  "write_finished i w \<longleftrightarrow> i < length (w_ops w) \<and> snd (w_ops w ! i) = length (fst (w_ops w ! i))"

text \<open>The handler of a finished write of the session \<open>nm\<close>, with the error's text when there was one.\<close>

definition handle_write :: "log_filter \<Rightarrow> string \<Rightarrow> string option \<Rightarrow> message \<Rightarrow> log_record list" where
  "handle_write passes nm error msg =
     (case error of
        None \<Rightarrow> boost_log passes Log_debug (nm @ '' | handle_write : '' @ to_hex_string (mem_of msg) (length msg))
      | Some err \<Rightarrow> boost_log passes Log_fatal (nm @ '' | handle_write error '' @ err @ [CHR 0x0A]))"

inductive write_step :: "writer \<Rightarrow> writer \<Rightarrow> bool" where
  post: "write_step w (session_write msg w)"
| start: "w_posted w = msg # rest \<Longrightarrow> write_step w (write_in_io_thread msg (w\<lparr>w_posted := rest\<rparr>))"
| move: "i < length (w_ops w) \<Longrightarrow> w_ops w ! i = (msg, k) \<Longrightarrow> 0 < n \<Longrightarrow> k + n \<le> length msg \<Longrightarrow>
     write_step w (transfer i n w)"

text \<open>The same steps under the discipline asio asks for: a write moves only when the earlier ones are done.\<close>

definition done_before :: "nat \<Rightarrow> writer \<Rightarrow> bool" where
  "done_before i w \<longleftrightarrow> list_all (\<lambda>(msg, k). k = length msg) (take i (w_ops w))"

inductive write_step_in_turn :: "writer \<Rightarrow> writer \<Rightarrow> bool" where
  post_in_turn: "write_step_in_turn w (session_write msg w)"
| start_in_turn: "w_posted w = msg # rest \<Longrightarrow>
     write_step_in_turn w (write_in_io_thread msg (w\<lparr>w_posted := rest\<rparr>))"
| move_in_turn: "i < length (w_ops w) \<Longrightarrow> w_ops w ! i = (msg, k) \<Longrightarrow> 0 < n \<Longrightarrow> k + n \<le> length msg \<Longrightarrow>
     done_before i w \<Longrightarrow> write_step_in_turn w (transfer i n w)"

inductive_cases write_stepE: "write_step w w'"
inductive_cases write_step_in_turnE: "write_step_in_turn w w'"

inductive write_reach :: "writer \<Rightarrow> bool" where
  initially: "write_reach new_writer"
| further: "write_reach w \<Longrightarrow> write_step w w' \<Longrightarrow> write_reach w'"

inductive write_reach_in_turn :: "writer \<Rightarrow> bool" where
  initially_in_turn: "write_reach_in_turn new_writer"
| further_in_turn: "write_reach_in_turn w \<Longrightarrow> write_step_in_turn w w' \<Longrightarrow> write_reach_in_turn w'"

text \<open>Everything handed to \<open>write\<close>, in the order of the calls; the stream a receiver sees.\<close>

definition written :: "writer \<Rightarrow> message list" where
  "written w = map fst (w_ops w) @ w_posted w"

definition stream :: "writer \<Rightarrow> bytes" where
  "stream w = map snd (w_wire w)"

definition stream_of_op :: "nat \<Rightarrow> writer \<Rightarrow> bytes" where
  "stream_of_op i w = map snd (filter (\<lambda>(j, b). j = i) (w_wire w))"

lemmas writer_defs [op_defs] =
  session_write_def write_in_io_thread_def transfer_def new_writer_def

section \<open>The interface of a message sink\<close>

text \<open>A log that every step extends by what it emits is extended by what the run emits.\<close>

lemma run_log:
  assumes "I s" and "\<And>s e. I s \<Longrightarrow> I (fst (step s e))"
    and "\<And>s e. I s \<Longrightarrow> log (fst (step s e)) = log s @ List.map_filter g (snd (step s e))"
  shows "log (fst (run step s es)) = log s @ List.map_filter g (snd (run step s es))"
  using assms(1)
proof (induction es arbitrary: s)
  case (Cons e es)
  then show ?case
    by (simp add: fst_run_Cons snd_run_Cons map_filter_append assms(2,3) del: run.simps)
qed (simp add: List.map_filter_def)

text \<open>Two readings of the output that agree on every step agree on the run.\<close>

lemma run_readings:
  assumes "I s" and "\<And>s e. I s \<Longrightarrow> I (fst (step s e))"
    and "\<And>s e. I s \<Longrightarrow> List.map_filter g (snd (step s e)) = List.map_filter h (List.map_filter k (snd (step s e)))"
  shows "List.map_filter g (snd (run step s es)) = List.map_filter h (List.map_filter k (snd (run step s es)))"
  using assms(1)
proof (induction es arbitrary: s)
  case (Cons e es)
  then show ?case
    by (simp add: snd_run_Cons map_filter_append assms(2,3) del: run.simps)
qed (simp add: List.map_filter_def)

text \<open>
  What the components that send messages rely on: a call adds its message to the end of the
  log of messages written, and nothing else.
\<close>

locale message_sink =
  fixes wr :: "message \<Rightarrow> 's \<Rightarrow> 's"
    and log :: "'s \<Rightarrow> message list"
  assumes log_write: "log (wr msg s) = log s @ [msg]"
begin

lemma log_fold: "log (fold wr msgs s) = log s @ msgs"
  by (induction msgs arbitrary: s) (simp_all add: log_write)

end

interpretation socket: message_sink session_write written
  by unfold_locales (simp add: written_def session_write_def)

lemma written_start [simp]: "written (start_write w) = written w"
  by (simp add: written_def start_write_def write_in_io_thread_def split: list.split)

lemma written_move [simp]: "written (move_write i n w) = written w"
  by (auto simp: written_def move_write_def transfer_def map_update split: prod.split
      intro: list_update_same_conv [THEN iffD2])

lemma written_write [simp]: "written (session_write msg w) = written w @ [msg]"
  by (rule socket.log_write)

section \<open>Invariants\<close>

lemma written_step: "write_step w w' \<Longrightarrow> written w' = written w \<or> (\<exists>msg. written w' = written w @ [msg])"
  by (erule write_stepE)
    (auto simp: written_def writer_defs map_update intro: list_update_same_conv [THEN iffD2]
      split: prod.split)

definition write_inv :: "writer \<Rightarrow> bool" where
  "write_inv w \<longleftrightarrow>
     (\<forall>i < length (w_ops w). snd (w_ops w ! i) \<le> length (fst (w_ops w ! i)) \<and>
        stream_of_op i w = take (snd (w_ops w ! i)) (fst (w_ops w ! i))) \<and>
     (\<forall>(j, b) \<in> set (w_wire w). j < length (w_ops w))"

lemma write_inv_new: "write_inv new_writer"
  by (simp add: write_inv_def new_writer_def)

lemma stream_of_op_fresh:
  "(\<forall>(j, b) \<in> set (w_wire w). j < i) \<Longrightarrow> stream_of_op i w = []"
  by (auto simp: stream_of_op_def filter_empty_conv)

lemma stream_of_op_transfer:
  "w_ops w ! i = (msg, k) \<Longrightarrow>
   stream_of_op j (transfer i n w) = stream_of_op j w @ (if j = i then take n (drop k msg) else [])"
  by (simp add: stream_of_op_def transfer_def filter_map o_def)

lemma take_add_drop: "take (k + n) xs = take k xs @ take n (drop k xs)"
  by (rule take_add)

lemma write_inv_step:
  assumes "write_step w w'" and "write_inv w"
  shows "write_inv w'"
  using assms(1)
proof cases
  case (post msg)
  with assms(2) show ?thesis by (simp add: write_inv_def writer_defs stream_of_op_def)
next
  case (start msg rest)
  have "stream_of_op (length (w_ops w)) w = []"
    using assms(2) by (intro stream_of_op_fresh) (auto simp: write_inv_def)
  with start assms(2) show ?thesis
    by (auto simp: write_inv_def writer_defs stream_of_op_def nth_append less_Suc_eq)
next
  case (move i msg k n)
  have ops: "w_ops (transfer i n w) = (w_ops w)[i := (msg, k + n)]"
    and wire: "w_wire (transfer i n w) = w_wire w @ map (Pair i) (take n (drop k msg))"
    using move by (simp_all add: transfer_def)
  show ?thesis
    unfolding write_inv_def
  proof (intro conjI allI impI)
    fix j assume j: "j < length (w_ops w')"
    show "snd (w_ops w' ! j) \<le> length (fst (w_ops w' ! j))"
      using assms(2) move j by (cases "j = i") (auto simp: write_inv_def ops)
    show "stream_of_op j w' = take (snd (w_ops w' ! j)) (fst (w_ops w' ! j))"
      using assms(2) move j stream_of_op_transfer [OF move(3), of j n]
      by (cases "j = i") (auto simp: write_inv_def ops take_add_drop)
  next
    show "\<forall>(j, b) \<in> set (w_wire w'). j < length (w_ops w')"
      using assms(2) move by (auto simp: write_inv_def ops wire)
  qed
qed

lemma reach_transfer:
  assumes "write_reach w" and "i < length (w_ops w)" and "0 < n"
    and "snd (w_ops w ! i) + n \<le> length (fst (w_ops w ! i))"
  shows "write_reach (transfer i n w)"
  using assms by (intro write_reach.further [OF assms(1) write_step.move]) auto

lemma reach_write: "write_reach w \<Longrightarrow> write_reach (session_write msg w)"
  by (rule write_reach.further [OF _ write_step.post])

lemma reach_start: "write_reach w \<Longrightarrow> write_reach (start_write w)"
  by (auto simp: start_write_def intro: write_reach.further write_step.start split: list.split)

lemma reach_move: "write_reach w \<Longrightarrow> write_reach (move_write i n w)"
  by (cases "w_ops w ! i") (auto simp: move_write_def intro: write_reach.further write_step.move)

lemma reach_inv: "write_reach w \<Longrightarrow> write_inv w"
  by (induction rule: write_reach.induct) (auto intro: write_inv_new write_inv_step)

lemma writer_run_snoc: "writer_run (es @ [e]) = writer_do (writer_run es) e"
  by (simp add: writer_run_def)

lemma writer_run_reach: "write_reach (writer_run es)"
proof (induction es rule: rev_induct)
  case Nil
  then show ?case by (simp add: writer_run_def write_reach.initially)
next
  case (snoc e es)
  then show ?case by (cases e) (auto simp: writer_run_snoc intro: reach_write reach_start reach_move)
qed

lemma writer_run_written: "written (writer_run es) = posts es"
proof (induction es rule: rev_induct)
  case Nil
  then show ?case by (simp add: writer_run_def written_def new_writer_def posts_def List.map_filter_def)
next
  case (snoc e es)
  then show ?case
    by (cases e) (simp_all add: writer_run_snoc posts_def map_filter_append List.map_filter_def)
qed

text \<open>A log that shows debug records shows which messages were written; its texts tell them apart.\<close>

lemma handle_write_shows:
  assumes "handle_write no_filter nm None msg = handle_write no_filter nm None msg'"
  shows "msg = msg'"
proof -
  have "parse_hex 0 (to_hex_string (mem_of msg) (length msg)) = parse_hex 0 (to_hex_string (mem_of msg') (length msg'))"
    using assms by (simp add: handle_write_def boost_log_def no_filter_def)
  then show ?thesis by (simp add: to_hex_string_dump parse_dump)
qed

lemma handle_write_silent: "5 < s \<Longrightarrow> handle_write (boost_log_init s) nm error msg = []"
  by (simp add: handle_write_def boost_log_def filter_extremes split: option.split)

subsection \<open>Writing in turn\<close>

definition in_turn_inv :: "writer \<Rightarrow> bool" where
  "in_turn_inv w \<longleftrightarrow>
     stream w = concat (map (\<lambda>(msg, k). take k msg) (w_ops w)) \<and>
     (\<forall>i < length (w_ops w). snd (w_ops w ! i) \<le> length (fst (w_ops w ! i)) \<and>
        (0 < snd (w_ops w ! i) \<longrightarrow> done_before i w))"

lemma in_turn_idle_after:
  assumes "in_turn_inv w" and "i < length (w_ops w)" and "w_ops w ! i = (msg, k)" and "k < length msg"
  shows "list_all (\<lambda>(msg, k). k = 0) (drop (Suc i) (w_ops w))"
proof (rule list_all_length [THEN iffD2], intro allI impI)
  fix j assume j: "j < length (drop (Suc i) (w_ops w))"
  have "\<not> done_before (Suc i + j) w"
    using assms(2-4) j
    by (auto simp: done_before_def list_all_length intro!: exI [of _ i])
  then have "snd (w_ops w ! (Suc i + j)) = 0"
    using assms(1) [unfolded in_turn_inv_def, THEN conjunct2, rule_format, of "Suc i + j"] j
    by auto
  then show "case drop (Suc i) (w_ops w) ! j of (msg, k) \<Rightarrow> k = 0"
    using j by (simp add: case_prod_beta)
qed

lemma concat_take_zero: "list_all (\<lambda>(msg, k). k = 0) ops \<Longrightarrow> concat (map (\<lambda>(msg, k). take k msg) ops) = []"
  by (induction ops) auto

lemma concat_take_done:
  "list_all (\<lambda>(msg, k). k = length msg) ops \<Longrightarrow>
     concat (map (\<lambda>(msg, k). take k msg) ops) = concat (map fst ops)"
  by (induction ops) auto

lemma in_turn_inv_step:
  assumes "write_step_in_turn w w'" and "in_turn_inv w"
  shows "in_turn_inv w'"
  using assms(1)
proof cases
  case (post_in_turn msg)
  with assms(2) show ?thesis by (simp add: in_turn_inv_def writer_defs stream_def done_before_def)
next
  case (start_in_turn msg rest)
  with assms(2) show ?thesis
    by (auto simp: in_turn_inv_def writer_defs stream_def done_before_def nth_append less_Suc_eq)
next
  case (move_in_turn i msg k n)
  let ?ops = "w_ops w"
  have split: "?ops = take i ?ops @ (msg, k) # drop (Suc i) ?ops"
    using move_in_turn id_take_nth_drop by fastforce
  have ops: "w_ops w' = take i ?ops @ (msg, k + n) # drop (Suc i) ?ops"
    using move_in_turn upd_conv_take_nth_drop by (simp add: transfer_def)
  have idle: "list_all (\<lambda>(msg, k). k = 0) (drop (Suc i) ?ops)"
    using in_turn_idle_after [OF assms(2) move_in_turn(2,3)] move_in_turn by auto
  have "stream w' = stream w @ take n (drop k msg)"
    using move_in_turn by (simp add: transfer_def stream_def o_def)
  also have "stream w = concat (map (\<lambda>(msg, k). take k msg) (take i ?ops @ (msg, k) # drop (Suc i) ?ops))"
    using assms(2) split by (simp only: in_turn_inv_def)
  also have "\<dots> = concat (map (\<lambda>(msg, k). take k msg) (take i ?ops)) @ take k msg"
    using concat_take_zero [OF idle] by simp
  finally have str: "stream w' = concat (map (\<lambda>(msg, k). take k msg) (w_ops w'))"
    using ops idle concat_take_zero [of "drop (Suc i) ?ops"] by (simp add: take_add)
  have "snd (w_ops w' ! j) \<le> length (fst (w_ops w' ! j)) \<and> (0 < snd (w_ops w' ! j) \<longrightarrow> done_before j w')"
    if j: "j < length (w_ops w')" for j
  proof -
    consider "j < i" | "j = i" | "i < j" by linarith
    then show ?thesis
    proof cases
      case 1
      then have "w_ops w' ! j = ?ops ! j" "take j (w_ops w') = take j ?ops"
        using move_in_turn(2) by (simp_all add: ops nth_append)
      then show ?thesis
        using assms(2) 1 move_in_turn(2) by (simp add: in_turn_inv_def done_before_def)
    next
      case 2
      then show ?thesis
        using move_in_turn(2-6) by (simp add: ops nth_append done_before_def)
    next
      case 3
      then have "w_ops w' ! j = drop (Suc i) ?ops ! (j - Suc i)" "j - Suc i < length (drop (Suc i) ?ops)"
        using j move_in_turn(2) by (simp_all add: ops nth_append)
      then have "snd (w_ops w' ! j) = 0" using idle by (simp add: list_all_length case_prod_beta)
      then show ?thesis by simp
    qed
  qed
  with str show ?thesis by (simp add: in_turn_inv_def)
qed

lemma reach_in_turn_inv: "write_reach_in_turn w \<Longrightarrow> in_turn_inv w"
proof (induction rule: write_reach_in_turn.induct)
  case initially_in_turn
  then show ?case by (simp add: in_turn_inv_def new_writer_def stream_def)
next
  case (further_in_turn w w')
  then show ?case by (blast intro: in_turn_inv_step)
qed

lemma write_in_turn: "write_reach_in_turn w \<Longrightarrow> write_reach_in_turn (session_write msg w)"
  by (rule further_in_turn [OF _ post_in_turn])

lemma start_in_turn_step: "write_reach_in_turn w \<Longrightarrow> write_reach_in_turn (start_write w)"
  by (auto simp: start_write_def intro: further_in_turn start_in_turn split: list.split)

lemma move_takes_turn:
  assumes "write_reach_in_turn w" and "done_before i w"
  shows "write_reach_in_turn (move_write i n w)"
  using assms
  by (cases "w_ops w ! i") (auto simp: move_write_def intro: further_in_turn move_in_turn)

lemma in_turn_prefix:
  assumes "\<And>i. i < length ops \<Longrightarrow> 0 < snd (ops ! i) \<Longrightarrow> list_all (\<lambda>(msg, k). k = length msg) (take i ops)"
  shows "\<exists>rest. concat (map fst ops) = concat (map (\<lambda>(msg, k). take k msg) ops) @ rest"
  using assms
proof (induction ops)
  case Nil
  then show ?case by simp
next
  case (Cons op ops)
  obtain msg k where op: "op = (msg, k)" by fastforce
  show ?case
  proof (cases "k = length msg")
    case True
    have "list_all (\<lambda>(msg, k). k = length msg) (take i ops)" if "i < length ops" "0 < snd (ops ! i)" for i
      using Cons.prems [of "Suc i"] that by simp
    then obtain rest where "concat (map fst ops) = concat (map (\<lambda>(msg, k). take k msg) ops) @ rest"
      using Cons.IH by blast
    then show ?thesis using op True by simp
  next
    case False
    have "\<not> 0 < snd (ops ! i)" if "i < length ops" for i
      using Cons.prems [of "Suc i"] that False op by auto
    then have "list_all (\<lambda>(msg, k). k = 0) ops" by (simp add: list_all_length case_prod_beta)
    then show ?thesis
      by (intro exI [of _ "drop k msg @ concat (map fst ops)"]) (simp add: op concat_take_zero)
  qed
qed

lemma begun_stream:
  assumes "write_reach_in_turn w"
  shows "\<exists>rest. concat (written w) = stream w @ rest"
proof -
  have inv: "in_turn_inv w" using assms by (rule reach_in_turn_inv)
  then obtain rest where "concat (map fst (w_ops w)) = stream w @ rest"
    using in_turn_prefix [of "w_ops w"] by (auto simp: in_turn_inv_def done_before_def)
  then show ?thesis by (simp add: written_def)
qed

text \<open>Two complete writes whose transfers alternated.\<close>

definition garbled :: writer where
  "garbled =
     transfer 1 4 (transfer 0 4 (transfer 1 4 (transfer 0 4
       (write_in_io_thread (header_bytes 4 14 8 2) (write_in_io_thread (header_bytes 4 10 8 1)
         new_writer)))))"

lemma garbled_reach: "write_reach garbled"
proof -
  let ?a = "header_bytes 4 10 8 1" and ?b = "header_bytes 4 14 8 2"
  let ?w1 = "session_write ?b (session_write ?a new_writer)"
  let ?w2 = "write_in_io_thread ?a (?w1\<lparr>w_posted := [?b]\<rparr>)"
  let ?w3 = "write_in_io_thread ?b (?w2\<lparr>w_posted := []\<rparr>)"
  have "write_reach ?w1" 
    by (rule write_reach.further [OF write_reach.further [OF write_reach.initially write_step.post]
          write_step.post])
  then have "write_reach ?w2"
    by (rule write_reach.further) (rule write_step.start, simp add: writer_defs)
  then have w3: "write_reach ?w3"
    by (rule write_reach.further) (rule write_step.start, simp add: writer_defs)
  have start: "?w3 = write_in_io_thread ?b (write_in_io_thread ?a new_writer)"
    by (simp add: writer_defs)
  have "write_reach (transfer 1 4 (transfer 0 4 (transfer 1 4 (transfer 0 4 ?w3))))"
    by (intro reach_transfer w3) (simp_all add: writer_defs)
  then show ?thesis by (simp add: garbled_def start)
qed

section \<open>Properties\<close>

text \<open>
  C18. However the calls of \<open>write\<close>, the handlers of the io thread and the transfers of the library
  interleave, every message a caller hands over is written: the started writes and the handlers
  still posted are the messages of the calls, in the order of the calls; the bytes on the socket
  that belong to the \<open>i\<close>-th write are the beginning of the message of the \<open>i\<close>-th call, and when
  the write is finished they are that message, whole. No byte on the socket belongs to anything else.
\<close>

theorem write_bytes_conserved:
  assumes "w = writer_run es"
  shows "map fst (w_ops w) @ w_posted w = posts es \<and>
    (\<forall>i < length (w_ops w). stream_of_op i w = take (snd (w_ops w ! i)) (posts es ! i)) \<and>
    (\<forall>i. write_finished i w \<longrightarrow> stream_of_op i w = posts es ! i) \<and>
    list_all (\<lambda>(i, b). i < length (w_ops w)) (w_wire w)"
proof -
  have inv: "write_inv w" using reach_inv [OF writer_run_reach] assms by simp
  have log: "map fst (w_ops w) @ w_posted w = posts es"
    using writer_run_written [of es] assms by (simp add: written_def)
  have msg: "posts es ! i = fst (w_ops w ! i)" if "i < length (w_ops w)" for i
    using that by (simp flip: log add: nth_append)
  have "stream_of_op i w = take (snd (w_ops w ! i)) (posts es ! i)" if "i < length (w_ops w)" for i
    using inv that by (simp add: write_inv_def msg)
  with log msg inv show ?thesis by (auto simp: write_finished_def write_inv_def list_all_iff)
qed

theorem write_bytes_conserved_witness:
  "stream_of_op 1 (writer_run [Call_write (header_bytes 4 10 8 1), Call_write (header_bytes 4 14 8 2),
      Run_posted, Run_posted, Write_some 1 5, Write_some 0 4, Write_some 1 3]) = header_bytes 4 14 8 2"
proof -
  let ?es = "[Call_write (header_bytes 4 10 8 1), Call_write (header_bytes 4 14 8 2),
      Run_posted, Run_posted, Write_some 1 5, Write_some 0 4, Write_some 1 3]"
  have "write_finished 1 (writer_run ?es)"
    by (simp add: writer_run_def write_finished_def start_write_def move_write_def writer_defs)
  moreover have "posts ?es ! 1 = header_bytes 4 14 8 2" by (simp add: posts_def List.map_filter_def)
  ultimately show ?thesis using write_bytes_conserved [OF refl, of ?es] by metis
qed

text \<open>
  If every write waits for the earlier ones, as asio asks of its callers, what the receiver
  has got so far is the beginning of the concatenation of the messages in the order of the calls
  to \<open>write\<close>.
\<close>

theorem writes_in_turn_preserve_stream:
  assumes "write_reach_in_turn w"
  shows "\<exists>rest. concat (written w) = stream w @ rest"
  using assms by (rule begun_stream)

theorem writes_in_turn_preserve_stream_witness:
  "\<exists>rest. concat [header_bytes 4 2 8 1] =
     stream (transfer 0 4 (write_in_io_thread (header_bytes 4 2 8 1) new_writer)) @ rest"
proof -
  let ?a = "header_bytes 4 2 8 1"
  have "write_reach_in_turn (session_write ?a new_writer)"
    by (rule further_in_turn [OF initially_in_turn post_in_turn])
  then have "write_reach_in_turn (write_in_io_thread ?a ((session_write ?a new_writer)\<lparr>w_posted := []\<rparr>))"
    by (rule further_in_turn [OF _ start_in_turn]) (simp add: writer_defs)
  then have "write_reach_in_turn (write_in_io_thread ?a new_writer)"
    by (simp add: writer_defs)
  then have "write_reach_in_turn (transfer 0 4 (write_in_io_thread ?a new_writer))"
    by (rule further_in_turn [OF _ move_in_turn [where k = 0 and msg = ?a]])
      (simp_all add: writer_defs done_before_def)
  from writes_in_turn_preserve_stream [OF this] show ?thesis
    by (simp add: written_def writer_defs)
qed

text \<open>
  C21. The code does not wait: two messages posted one after the other can reach the socket
  mixed. There is a reachable state in which both writes are complete and the receiver sees
  neither message after the other, in either order.
\<close>

theorem concurrent_writes_can_garble:
  "\<exists>w. write_reach w \<and> written w = [header_bytes 4 10 8 1, header_bytes 4 14 8 2] \<and>
     list_all (\<lambda>(msg, k). well_framed msg \<and> k = length msg) (w_ops w) \<and>
     stream w \<noteq> header_bytes 4 10 8 1 @ header_bytes 4 14 8 2 \<and>
     stream w \<noteq> header_bytes 4 14 8 2 @ header_bytes 4 10 8 1"
proof (intro exI conjI)
  let ?a = "header_bytes 4 10 8 1" and ?b = "header_bytes 4 14 8 2"
  show "write_reach garbled" by (rule garbled_reach)
  show "written garbled = [?a, ?b]"
    by (simp add: garbled_def writer_defs written_def)
  show "list_all (\<lambda>(msg, k). well_framed msg \<and> k = length msg) (w_ops garbled)"
    by (simp add: garbled_def writer_defs well_framed_def)
  have "stream garbled ! 1 = 10" "stream garbled ! 5 = 14" "(?a @ ?b) ! 5 \<noteq> 14" "(?b @ ?a) ! 1 \<noteq> 10"
    by (simp_all add: garbled_def writer_defs stream_def header_bytes_def be_bytes_2 be_bytes_4)
  then show "stream garbled \<noteq> ?a @ ?b" "stream garbled \<noteq> ?b @ ?a" by metis+
qed

end
