(* ===== verification/Packet_In_Migrator.thy ===== *)
theory Packet_In_Migrator imports Session_Write begin

text \<open>
  \<open>PacketInMigrator.h\<close>: the migrator builds one OpenFlow message, a flow modification that sends
  every packet to a port, and writes it to the switch session. The message is built by
  assignments through structure pointers into a buffer from \<open>new char[]\<close>, whose initial contents
  are the parameter \<open>junk\<close>; the lemmas show that none of it reaches the message.
\<close>

section \<open>Building the message\<close>

definition COOKIE_SWITCH :: u64 where "COOKIE_SWITCH = 0x627"

definition switch_length :: nat where
  "switch_length = sizeof ofp_flow_mod + sizeof ofp_instruction_actions + sizeof ofp_action_output"

definition flow_mod_assignments :: "assignment list" where
  "flow_mod_assignments =
    [(ofp_flow_mod, 0, [Field ''header'', Field ''version''], bytes_of_word 1 OFP_VERSION),
     (ofp_flow_mod, 0, [Field ''header'', Field ''type''],
        bytes_of_word 1 (ucast (ofp_type_val OFPT_FLOW_MOD) :: u8)),
     (ofp_flow_mod, 0, [Field ''header'', Field ''xid''], bytes_of_word 4 (htonl 0x12345678)),
     (ofp_flow_mod, 0, [Field ''cookie''], bytes_of_word 8 (htobe64 COOKIE_SWITCH)),
     (ofp_flow_mod, 0, [Field ''cookie_mask''], bytes_of_word 8 (0 :: u64)),
     (ofp_flow_mod, 0, [Field ''table_id''], bytes_of_word 1 (0 :: u8)),
     (ofp_flow_mod, 0, [Field ''command''],
        bytes_of_word 1 (ucast (ofp_flow_mod_command_val OFPFC_ADD) :: u8)),
     (ofp_flow_mod, 0, [Field ''idle_timeout''], bytes_of_word 2 (0 :: u16)),
     (ofp_flow_mod, 0, [Field ''hard_timeout''], bytes_of_word 2 (0 :: u16)),
     (ofp_flow_mod, 0, [Field ''priority''], bytes_of_word 2 (htons 1)),
     (ofp_flow_mod, 0, [Field ''buffer_id''], bytes_of_word 4 OFP_NO_BUFFER),
     (ofp_flow_mod, 0, [Field ''out_port''], bytes_of_word 4 (ofp_port_no_val OFPP_ANY)),
     (ofp_flow_mod, 0, [Field ''out_group''], bytes_of_word 4 (ofp_group_val OFPG_ANY)),
     (ofp_flow_mod, 0, [Field ''flags''], bytes_of_word 2 (0 :: u16)),
     (ofp_flow_mod, 0, [Field ''pad'', Index 0], bytes_of_word 1 (0 :: u8)),
     (ofp_flow_mod, 0, [Field ''pad'', Index 1], bytes_of_word 1 (0 :: u8))]"

definition match_assignments :: "assignment list" where
  "match_assignments =
    [(ofp_flow_mod, 0, [Field ''match'', Field ''type''],
        bytes_of_word 2 (htons (ucast (ofp_match_type_val OFPMT_OXM)))),
     (ofp_flow_mod, 0, [Field ''match'', Field ''length''],
        bytes_of_word 2 (htons (of_nat (sizeof ofp_match - 4)))),
     (ofp_flow_mod, 0, [Field ''match'', Field ''pad'', Index 0], bytes_of_word 1 (0 :: u8)),
     (ofp_flow_mod, 0, [Field ''match'', Field ''pad'', Index 1], bytes_of_word 1 (0 :: u8)),
     (ofp_flow_mod, 0, [Field ''match'', Field ''pad'', Index 2], bytes_of_word 1 (0 :: u8)),
     (ofp_flow_mod, 0, [Field ''match'', Field ''pad'', Index 3], bytes_of_word 1 (0 :: u8))]"

definition instruction_assignments :: "assignment list" where
  "instruction_assignments =
    (let base = sizeof ofp_flow_mod in
     [(ofp_instruction_actions, base, [Field ''type''],
        bytes_of_word 2 (htons (ucast (ofp_instruction_type_val OFPIT_APPLY_ACTIONS)))),
      (ofp_instruction_actions, base, [Field ''len''],
        bytes_of_word 2 (htons (of_nat (sizeof ofp_instruction_actions + sizeof ofp_action_output)))),
      (ofp_instruction_actions, base, [Field ''pad'', Index 0], bytes_of_word 1 (0 :: u8)),
      (ofp_instruction_actions, base, [Field ''pad'', Index 1], bytes_of_word 1 (0 :: u8)),
      (ofp_instruction_actions, base, [Field ''pad'', Index 2], bytes_of_word 1 (0 :: u8)),
      (ofp_instruction_actions, base, [Field ''pad'', Index 3], bytes_of_word 1 (0 :: u8))])"

definition action_assignments :: "u32 \<Rightarrow> assignment list" where
  "action_assignments port =
    (let base = sizeof ofp_flow_mod + sizeof ofp_instruction_actions in
     [(ofp_action_output, base, [Field ''type''],
        bytes_of_word 2 (htons (ucast (ofp_action_type_val OFPAT_OUTPUT)))),
      (ofp_action_output, base, [Field ''len''],
        bytes_of_word 2 (htons (of_nat (sizeof ofp_action_output)))),
      (ofp_action_output, base, [Field ''port''], bytes_of_word 4 (htonl port)),
      (ofp_action_output, base, [Field ''max_len''],
        bytes_of_word 2 (ucast (ofp_controller_max_len_val OFPCML_NO_BUFFER) :: u16)),
      (ofp_action_output, base, [Field ''pad'', Index 0], bytes_of_word 1 (0 :: u8)),
      (ofp_action_output, base, [Field ''pad'', Index 1], bytes_of_word 1 (0 :: u8)),
      (ofp_action_output, base, [Field ''pad'', Index 2], bytes_of_word 1 (0 :: u8)),
      (ofp_action_output, base, [Field ''pad'', Index 3], bytes_of_word 1 (0 :: u8)),
      (ofp_action_output, base, [Field ''pad'', Index 4], bytes_of_word 1 (0 :: u8)),
      (ofp_action_output, base, [Field ''pad'', Index 5], bytes_of_word 1 (0 :: u8))])"

definition length_assignment :: "assignment list" where
  "length_assignment =
    [(ofp_flow_mod, 0, [Field ''header'', Field ''length''], bytes_of_word 2 (htons (of_nat switch_length)))]"

definition prepare_switch :: "mem \<Rightarrow> u32 \<Rightarrow> message" where
  "prepare_switch junk port =
     (let buffer = fold assign
            (flow_mod_assignments @ match_assignments @ instruction_assignments @
             action_assignments port @ length_assignment) junk
      in load buffer 0 (hdr_length buffer))"

text \<open>\<open>prepare_drawback\<close> makes an empty string; the construction of its flow mod is commented out.\<close>

definition prepare_drawback :: message where
  "prepare_drawback = []"

section \<open>The migrator\<close>

text \<open>\<open>write\<close> is \<open>session_->write\<close> on whatever state holds the session.\<close>

record migrator =
  eproxy_data_path_port :: u32

definition new_migrator :: "u32 \<Rightarrow> migrator" where
  "new_migrator port = \<lparr>eproxy_data_path_port = port\<rparr>"

definition switch_path :: "(message \<Rightarrow> 's \<Rightarrow> 's) \<Rightarrow> mem \<Rightarrow> migrator \<Rightarrow> 's \<Rightarrow> 's" where
  "switch_path wr junk mig s = wr (prepare_switch junk (eproxy_data_path_port mig)) s"

definition draw_back :: "(message \<Rightarrow> 's \<Rightarrow> 's) \<Rightarrow> migrator \<Rightarrow> 's \<Rightarrow> 's" where
  "draw_back wr mig s = wr prepare_drawback s"

context message_sink
begin

lemma log_switch_path:
  "log (switch_path wr junk mig s) = log s @ [prepare_switch junk (eproxy_data_path_port mig)]"
  by (simp add: switch_path_def log_write)

lemma log_draw_back: "log (draw_back wr mig s) = log s @ [prepare_drawback]"
  by (simp add: draw_back_def log_write)

end

section \<open>The bytes of the message\<close>

lemma switch_sizes [layout_simps]:
  "sizeof ofp_flow_mod = 56" "sizeof ofp_instruction_actions = 8" "sizeof ofp_action_output = 16"
  "sizeof ofp_match = 8"
  by code_simp+

lemma flow_mod_slots [layout_simps]:
  "slot ofp_flow_mod [Field ''header'', Field ''version''] = Some (0, C_uint8)"
  "slot ofp_flow_mod [Field ''header'', Field ''type''] = Some (1, C_uint8)"
  "slot ofp_flow_mod [Field ''header'', Field ''length''] = Some (2, C_uint16)"
  "slot ofp_flow_mod [Field ''header'', Field ''xid''] = Some (4, C_uint32)"
  "slot ofp_flow_mod [Field ''cookie''] = Some (8, C_uint64)"
  "slot ofp_flow_mod [Field ''cookie_mask''] = Some (16, C_uint64)"
  "slot ofp_flow_mod [Field ''table_id''] = Some (24, C_uint8)"
  "slot ofp_flow_mod [Field ''command''] = Some (25, C_uint8)"
  "slot ofp_flow_mod [Field ''idle_timeout''] = Some (26, C_uint16)"
  "slot ofp_flow_mod [Field ''hard_timeout''] = Some (28, C_uint16)"
  "slot ofp_flow_mod [Field ''priority''] = Some (30, C_uint16)"
  "slot ofp_flow_mod [Field ''buffer_id''] = Some (32, C_uint32)"
  "slot ofp_flow_mod [Field ''out_port''] = Some (36, C_uint32)"
  "slot ofp_flow_mod [Field ''out_group''] = Some (40, C_uint32)"
  "slot ofp_flow_mod [Field ''flags''] = Some (44, C_uint16)"
  "slot ofp_flow_mod [Field ''pad'', Index 0] = Some (46, C_uint8)"
  "slot ofp_flow_mod [Field ''pad'', Index 1] = Some (47, C_uint8)"
  "slot ofp_flow_mod [Field ''match'', Field ''type''] = Some (48, C_uint16)"
  "slot ofp_flow_mod [Field ''match'', Field ''length''] = Some (50, C_uint16)"
  "slot ofp_flow_mod [Field ''match'', Field ''pad'', Index 0] = Some (52, C_uint8)"
  "slot ofp_flow_mod [Field ''match'', Field ''pad'', Index 1] = Some (53, C_uint8)"
  "slot ofp_flow_mod [Field ''match'', Field ''pad'', Index 2] = Some (54, C_uint8)"
  "slot ofp_flow_mod [Field ''match'', Field ''pad'', Index 3] = Some (55, C_uint8)"
  by code_simp+

lemma instruction_slots [layout_simps]:
  "slot ofp_instruction_actions [Field ''type''] = Some (0, C_uint16)"
  "slot ofp_instruction_actions [Field ''len''] = Some (2, C_uint16)"
  "slot ofp_instruction_actions [Field ''pad'', Index 0] = Some (4, C_uint8)"
  "slot ofp_instruction_actions [Field ''pad'', Index 1] = Some (5, C_uint8)"
  "slot ofp_instruction_actions [Field ''pad'', Index 2] = Some (6, C_uint8)"
  "slot ofp_instruction_actions [Field ''pad'', Index 3] = Some (7, C_uint8)"
  by code_simp+

lemma action_slots [layout_simps]:
  "slot ofp_action_output [Field ''type''] = Some (0, C_uint16)"
  "slot ofp_action_output [Field ''len''] = Some (2, C_uint16)"
  "slot ofp_action_output [Field ''port''] = Some (4, C_uint32)"
  "slot ofp_action_output [Field ''max_len''] = Some (8, C_uint16)"
  "slot ofp_action_output [Field ''pad'', Index 0] = Some (10, C_uint8)"
  "slot ofp_action_output [Field ''pad'', Index 1] = Some (11, C_uint8)"
  "slot ofp_action_output [Field ''pad'', Index 2] = Some (12, C_uint8)"
  "slot ofp_action_output [Field ''pad'', Index 3] = Some (13, C_uint8)"
  "slot ofp_action_output [Field ''pad'', Index 4] = Some (14, C_uint8)"
  "slot ofp_action_output [Field ''pad'', Index 5] = Some (15, C_uint8)"
  by code_simp+

text \<open>The 80 bytes, written out.\<close>

definition switch_bytes :: "u32 \<Rightarrow> message" where
  "switch_bytes port =
     header_bytes 4 14 80 0x12345678 @
     be_bytes 8 COOKIE_SWITCH @ be_bytes 8 (0 :: u64) @
     [0, 0] @ be_bytes 2 (0 :: u16) @ be_bytes 2 (0 :: u16) @ be_bytes 2 (1 :: u16) @
     be_bytes 4 (0xffffffff :: u32) @ be_bytes 4 (0xffffffff :: u32) @ be_bytes 4 (0xffffffff :: u32) @
     be_bytes 2 (0 :: u16) @ [0, 0] @
     be_bytes 2 (1 :: u16) @ be_bytes 2 (4 :: u16) @ [0, 0, 0, 0] @
     be_bytes 2 (4 :: u16) @ be_bytes 2 (24 :: u16) @ [0, 0, 0, 0] @
     be_bytes 2 (0 :: u16) @ be_bytes 2 (16 :: u16) @ be_bytes 4 port @ be_bytes 2 (0xffff :: u16) @
     [0, 0, 0, 0, 0, 0]"

lemmas assignment_defs =
  flow_mod_assignments_def match_assignments_def instruction_assignments_def action_assignments_def
  length_assignment_def switch_length_def

definition switch_buffer :: "mem \<Rightarrow> u32 \<Rightarrow> mem" where
  "switch_buffer junk port =
     fold assign (flow_mod_assignments @ match_assignments @ instruction_assignments @
       action_assignments port @ length_assignment) junk"

definition switch_widths :: "nat list" where
  "switch_widths =
     [1, 1, 2, 4, 8, 8, 1, 1, 2, 2, 2, 4, 4, 4, 2, 1, 1, 2, 2, 1, 1, 1, 1, 2, 2, 1, 1, 1, 1,
      2, 2, 4, 2, 1, 1, 1, 1, 1, 1]"

lemma constant_bytes:
  "bytes_of_word 8 (0 :: u64) = be_bytes 8 (0 :: u64)"
  "bytes_of_word 2 (0 :: u16) = be_bytes 2 (0 :: u16)"
  "bytes_of_word 2 (65535 :: u16) = be_bytes 2 (65535 :: u16)"
  "bytes_of_word 4 (4294967295 :: u32) = be_bytes 4 (4294967295 :: u32)"
  by (simp_all add: be_bytes_def bytes_of_word_def upt_2_4_8)

lemma switch_buffer_bytes: "load (switch_buffer junk port) 0 80 = switch_bytes port"
proof -
  have fields:
    "load (switch_buffer junk port) 0 80 = load_fields (switch_buffer junk port) 0 switch_widths"
    by (rule load_by_fields) (simp add: switch_widths_def)
  show ?thesis
    unfolding fields switch_widths_def
    by (simp add: switch_buffer_def assignment_defs put_def layout_simps mem_simps wire_simps
        del: One_nat_def)
      (simp add: switch_bytes_def header_bytes_def bytes_of_word_1 [simplified] constant_bytes
        OFP_VERSION_def OFP_NO_BUFFER_def)
qed

lemma length_switch_bytes [simp]: "length (switch_bytes port) = 80"
  by (simp add: switch_bytes_def)

lemma prepare_switch_bytes: "prepare_switch junk port = switch_bytes port"
proof -
  have "hdr_length (switch_buffer junk port) = msg_length (switch_bytes port)"
    by (rule hdr_of_load(1) [OF switch_buffer_bytes]) simp
  also have "\<dots> = 80" by (simp add: switch_bytes_def)
  finally show ?thesis
    using switch_buffer_bytes by (simp add: prepare_switch_def switch_buffer_def)
qed

lemma prepare_switch_framed: "well_framed (prepare_switch junk port)"
  by (simp add: well_framed_def prepare_switch_bytes) (simp add: switch_bytes_def)

section \<open>What a switch reads in it\<close>

text \<open>
  A decoder of flow modifications as the structures of \<open>openflow.h\<close> describe them: the fixed part,
  a match padded to a multiple of 8 bytes, and a list of instructions, each with its type and length.
\<close>

definition u8_at :: "nat \<Rightarrow> bytes \<Rightarrow> u8" where "u8_at off bs = bs ! off"
definition u16_at :: "nat \<Rightarrow> bytes \<Rightarrow> u16" where "u16_at off bs = word_of_be (take 2 (drop off bs))"
definition u32_at :: "nat \<Rightarrow> bytes \<Rightarrow> u32" where "u32_at off bs = word_of_be (take 4 (drop off bs))"
definition u64_at :: "nat \<Rightarrow> bytes \<Rightarrow> u64" where "u64_at off bs = word_of_be (take 8 (drop off bs))"

datatype of_action = Output u32 u16 | Other_action u16 bytes
datatype of_instruction = Apply_actions "of_action list" | Other_instruction u16 bytes

text \<open>One element of a type-length-value list: its type, its body after the length, what follows.\<close>

definition next_tlv :: "bytes \<Rightarrow> (u16 \<times> bytes \<times> bytes) option" where
  "next_tlv bs =
     (let len = unat (u16_at 2 bs)
      in if length bs < 8 \<or> len < 8 \<or> length bs < len \<or> len mod 8 \<noteq> 0 then None
         else Some (u16_at 0 bs, drop 4 (take len bs), drop len bs))"

lemma next_tlv_shorter: "next_tlv bs = Some (t, body, rest) \<Longrightarrow> length rest < length bs"
  by (auto simp: next_tlv_def Let_def split: if_splits)

function tlvs :: "bytes \<Rightarrow> (u16 \<times> bytes) list option" where
  "tlvs bs =
     (if bs = [] then Some []
      else case next_tlv bs of
             None \<Rightarrow> None
           | Some (t, body, rest) \<Rightarrow> map_option (Cons (t, body)) (tlvs rest))"
  by pat_completeness auto
termination
  by (relation "measure length") (auto dest: next_tlv_shorter)

declare tlvs.simps [simp del]

definition decode_action :: "u16 \<times> bytes \<Rightarrow> of_action" where
  "decode_action = (\<lambda>(t, body).
     if t = ucast (ofp_action_type_val OFPAT_OUTPUT) \<and> length body = 12
     then Output (u32_at 0 body) (u16_at 4 body) else Other_action t body)"

definition decode_instruction :: "u16 \<times> bytes \<Rightarrow> of_instruction option" where
  "decode_instruction = (\<lambda>(t, body).
     if t = ucast (ofp_instruction_type_val OFPIT_APPLY_ACTIONS)
     then map_option (\<lambda>as. Apply_actions (map decode_action as)) (tlvs (drop 4 body))
     else Some (Other_instruction t body))"

record flow_mod =
  fm_cookie :: u64
  fm_cookie_mask :: u64
  fm_table :: u8
  fm_command :: u8
  fm_timeouts :: "u16 \<times> u16"
  fm_priority :: u16
  fm_buffer :: u32
  fm_out :: "u32 \<times> u32"
  fm_flags :: u16
  fm_match :: "u16 \<times> bytes"
  fm_instructions :: "of_instruction list"

definition match_size :: "nat \<Rightarrow> nat" where "match_size len = align_up len 8"

definition decode_flow_mod :: "message \<Rightarrow> flow_mod option" where
  "decode_flow_mod msg =
     (let mlen = unat (u16_at 50 msg) in
      if \<not> well_framed msg \<or> u8_at 0 msg \<noteq> OFP_VERSION
         \<or> u8_at 1 msg \<noteq> ucast (ofp_type_val OFPT_FLOW_MOD) \<or> length msg < 56 then None
      else if mlen < 4 \<or> length msg < 48 + match_size mlen then None
      else case tlvs (drop (48 + match_size mlen) msg) of
             None \<Rightarrow> None
           | Some is \<Rightarrow>
               map_option (\<lambda>instrs.
                 \<lparr>fm_cookie = u64_at 8 msg, fm_cookie_mask = u64_at 16 msg, fm_table = u8_at 24 msg,
                  fm_command = u8_at 25 msg, fm_timeouts = (u16_at 26 msg, u16_at 28 msg),
                  fm_priority = u16_at 30 msg, fm_buffer = u32_at 32 msg,
                  fm_out = (u32_at 36 msg, u32_at 40 msg), fm_flags = u16_at 44 msg,
                  fm_match = (u16_at 48 msg, take (mlen - 4) (drop 52 msg)),
                  fm_instructions = instrs\<rparr>)
                 (those (map decode_instruction is)))"

lemma switch_action_tlvs:
  "tlvs (be_bytes 2 (0 :: u16) @ be_bytes 2 (16 :: u16) @ be_bytes 4 (port :: u32) @
      be_bytes 2 (0xffff :: u16) @ [0, 0, 0, 0, 0, 0]) =
    Some [(0, be_bytes 4 port @ be_bytes 2 (0xffff :: u16) @ [0, 0, 0, 0, 0, 0])]"
  by (simp add: tlvs.simps [of "_ @ _"] tlvs.simps [of "[]"] next_tlv_def u16_at_def word_of_be_bytes)

lemma switch_instruction_tlvs:
  "tlvs (drop 56 (switch_bytes port)) =
    Some [(4, [0, 0, 0, 0] @ be_bytes 2 (0 :: u16) @ be_bytes 2 (16 :: u16) @ be_bytes 4 port @
              be_bytes 2 (0xffff :: u16) @ [0, 0, 0, 0, 0, 0])]"
  by (simp add: switch_bytes_def tlvs.simps [of "_ @ _"] tlvs.simps [of "[]"] next_tlv_def u16_at_def
      word_of_be_bytes)

lemma switch_fields:
  "u8_at 0 (switch_bytes port) = 4" "u8_at 1 (switch_bytes port) = 14"
  "u64_at 8 (switch_bytes port) = COOKIE_SWITCH" "u64_at 16 (switch_bytes port) = 0"
  "u8_at 24 (switch_bytes port) = 0" "u8_at 25 (switch_bytes port) = 0"
  "u16_at 26 (switch_bytes port) = 0" "u16_at 28 (switch_bytes port) = 0"
  "u16_at 30 (switch_bytes port) = 1" "u32_at 32 (switch_bytes port) = 0xffffffff"
  "u32_at 36 (switch_bytes port) = 0xffffffff" "u32_at 40 (switch_bytes port) = 0xffffffff"
  "u16_at 44 (switch_bytes port) = 0" "u16_at 48 (switch_bytes port) = 1"
  "u16_at 50 (switch_bytes port) = 4"
  by (simp_all add: switch_bytes_def header_bytes_def u16_at_def u64_at_def u8_at_def u32_at_def
      word_of_be_bytes nth_append)

lemma switch_bytes_framed: "well_framed (switch_bytes port)"
  using prepare_switch_framed [of "\<lambda>_. 0" port] by (simp add: prepare_switch_bytes)

lemma switch_instruction:
  "decode_instruction
     (4, [0, 0, 0, 0] @ be_bytes 2 (0 :: u16) @ be_bytes 2 (16 :: u16) @ be_bytes 4 port @
         be_bytes 2 (0xffff :: u16) @ [0, 0, 0, 0, 0, 0]) =
    Some (Apply_actions [Output port 0xffff])"
  using switch_action_tlvs [of port]
  by (simp add: decode_instruction_def decode_action_def u32_at_def u16_at_def word_of_be_bytes)

section \<open>Properties\<close>

text \<open>
  Whatever the fresh buffer contained, \<open>prepare_switch\<close> sends the same 80 bytes: every byte of
  the message is assigned, each field in network byte order at its offset, and the length field
  tells the size of the string.
\<close>

theorem prepare_switch_deterministic:
  "prepare_switch junk port = switch_bytes port \<and> well_framed (prepare_switch junk port) \<and>
   length (prepare_switch junk port) = switch_length"
  using prepare_switch_framed [of junk port]
  by (simp add: prepare_switch_bytes switch_length_def layout_simps)

text \<open>
  C5. Decoded by the protocol's structures the message is what the migrator means: add, to table
  0, the entry with the migrator's cookie and priority 1 that matches every packet, never times
  out, and whose only instruction applies the action that sends whole packets to the port.
\<close>

theorem prepare_switch_meaning:
  "decode_flow_mod (prepare_switch junk port) =
    Some \<lparr>fm_cookie = COOKIE_SWITCH, fm_cookie_mask = 0, fm_table = 0,
          fm_command = ucast (ofp_flow_mod_command_val OFPFC_ADD), fm_timeouts = (0, 0),
          fm_priority = 1, fm_buffer = OFP_NO_BUFFER,
          fm_out = (ofp_port_no_val OFPP_ANY, ofp_group_val OFPG_ANY), fm_flags = 0,
          fm_match = (ucast (ofp_match_type_val OFPMT_OXM), []),
          fm_instructions =
            [Apply_actions [Output port (ucast (ofp_controller_max_len_val OFPCML_NO_BUFFER))]]\<rparr>"
  using switch_instruction [of port]
  by (simp add: prepare_switch_bytes decode_flow_mod_def switch_fields switch_bytes_framed
      match_size_def layout_simps switch_instruction_tlvs OFP_VERSION_def OFP_NO_BUFFER_def
      del: One_nat_def)

text \<open>
  \<open>draw_back\<close> does not undo the switch: it hands the session a string of no bytes, which is
  not an OpenFlow message, whatever the migrator and the session.
\<close>

theorem draw_back_writes_nothing:
  "written (draw_back session_write mig w) = written w @ [[]] \<and> \<not> well_framed prepare_drawback \<and>
   concat (written (draw_back session_write mig w)) = concat (written w)"
  by (simp add: socket.log_draw_back prepare_drawback_def well_framed_def)

end
