(* ===== verification/Packet_In_Monitor.thy ===== *)
theory Packet_In_Monitor imports OpenFlow_Message begin

text \<open>
  \<open>PacketInMonitor.h\<close>: the monitor counts the packet-ins that pass through it and runs an action
  when a sampling period saw at least \<open>threshold\<close> of them. Two threads share it: the io thread
  calls \<open>onMessage\<close>, the worker thread started by \<open>start\<close> runs \<open>clear\<close>. The worker's loop is
  modelled as a program counter with one step per access to the shared state, so that every
  interleaving of the two threads is a list of events. \<open>is_running\<close> is a plain \<open>bool\<close> and the
  model gives its accesses the order of the events, as on the hardware the program targets.

  The two callbacks are type parameters; \<open>None\<close> is the empty \<open>std::function\<close>.
\<close>

section \<open>State\<close>

text \<open>The worker: the null pointer, the statement of \<open>clear\<close> it is at, or its end.\<close>

datatype worker = Not_started | At_while | At_reset | At_sleep | At_test | At_action | Finished | Aborted

record ('f, 'a) monitor =
  worker :: worker
  counter :: u32
  sample_rate :: u32
  thresh_hold :: u32
  is_running :: bool
  action_cb :: "'a option"
  follow_cb :: "'f option"

datatype ('f, 'a) monitor_out =
    Followed 'f message     \<comment> \<open>\<open>follow_(message)\<close>\<close>
  | Follow_raised           \<comment> \<open>\<open>follow_\<close> was empty: \<open>bad_function_call\<close>\<close>
  | Reset                   \<comment> \<open>\<open>counter = 0\<close>\<close>
  | Slept u32               \<comment> \<open>\<open>sleep_for\<close> that many milliseconds\<close>
  | Triggered 'a            \<comment> \<open>\<open>action_()\<close>\<close>
  | Terminate               \<comment> \<open>\<open>action_\<close> was empty: the exception leaves the thread\<close>

section \<open>Operations\<close>

definition new_monitor :: "u32 \<Rightarrow> u32 \<Rightarrow> ('f, 'a) monitor" where
  "new_monitor rate threshold =
     \<lparr>worker = Not_started, counter = 0, sample_rate = rate, thresh_hold = threshold,
      is_running = True, action_cb = None, follow_cb = None\<rparr>"

definition start :: "('f, 'a) monitor \<Rightarrow> ('f, 'a) monitor" where
  "start m = (if worker m = Not_started then m\<lparr>worker := At_while\<rparr> else m)"

definition add_counter :: "('f, 'a) monitor \<Rightarrow> ('f, 'a) monitor" where
  "add_counter m = m\<lparr>counter := counter m + 1\<rparr>"

text \<open>The \<open>int\<close> that \<open>get_counter\<close> returns is the counter modulo \<open>2 ^ 32\<close>, read as signed.\<close>

definition get_counter :: "('f, 'a) monitor \<Rightarrow> int" where
  "get_counter m = sint (counter m)"

definition set_smaple_rate :: "u32 \<Rightarrow> ('f, 'a) monitor \<Rightarrow> ('f, 'a) monitor" where
  "set_smaple_rate rate m = m\<lparr>sample_rate := rate\<rparr>"

definition set_trigger_action :: "'a option \<Rightarrow> ('f, 'a) monitor \<Rightarrow> ('f, 'a) monitor" where
  "set_trigger_action a m = m\<lparr>action_cb := a\<rparr>"

definition set_follow_action :: "'f option \<Rightarrow> ('f, 'a) monitor \<Rightarrow> ('f, 'a) monitor" where
  "set_follow_action f m = m\<lparr>follow_cb := f\<rparr>"

definition stop :: "('f, 'a) monitor \<Rightarrow> ('f, 'a) monitor" where
  "stop m = m\<lparr>is_running := False\<rparr>"

text \<open>
  \<open>onMessage\<close> is one step: of what it does, only the increment of the atomic \<open>counter\<close> concerns the
  worker. \<open>follow_\<close> is set before \<open>start\<close>, and calling it touches nothing of the monitor.
\<close>

definition monitor_onMessage ::
    "('f, 'a) monitor \<Rightarrow> message \<Rightarrow> ('f, 'a) monitor \<times> ('f, 'a) monitor_out list" where
  "monitor_onMessage m msg =
     (add_counter m, [case follow_cb m of None \<Rightarrow> Follow_raised | Some f \<Rightarrow> Followed f msg])"

text \<open>One step of the worker in \<open>clear\<close>.\<close>

definition clear :: "('f, 'a) monitor \<Rightarrow> ('f, 'a) monitor \<times> ('f, 'a) monitor_out list" where
  "clear m =
     (case worker m of
        At_while \<Rightarrow> (m\<lparr>worker := if is_running m then At_reset else Finished\<rparr>, [])
      | At_reset \<Rightarrow> (m\<lparr>worker := At_sleep, counter := 0\<rparr>, [Reset])
      | At_sleep \<Rightarrow> (m\<lparr>worker := At_test\<rparr>, [Slept (sample_rate m)])
      | At_test \<Rightarrow> (m\<lparr>worker := if thresh_hold m \<le> counter m then At_action else At_while\<rparr>, [])
      | At_action \<Rightarrow>
          (case action_cb m of
             None \<Rightarrow> (m\<lparr>worker := Aborted\<rparr>, [Terminate])
           | Some a \<Rightarrow> (m\<lparr>worker := At_while\<rparr>, [Triggered a]))
      | Not_started \<Rightarrow> (m, [])
      | Finished \<Rightarrow> (m, [])
      | Aborted \<Rightarrow> (m, []))"

text \<open>
  The events of the two threads. The callbacks are set before the threads run, as the programs
  do. An exception that leaves the worker thread ends the process: nothing happens any more.
\<close>

datatype monitor_event = Ev_start | Ev_message message | Ev_worker | Ev_stop | Ev_rate u32

definition monitor_step ::
    "('f, 'a) monitor \<Rightarrow> monitor_event \<Rightarrow> ('f, 'a) monitor \<times> ('f, 'a) monitor_out list" where
  "monitor_step m e =
     (if worker m = Aborted then (m, [])
      else case e of
             Ev_start \<Rightarrow> (start m, [])
           | Ev_message msg \<Rightarrow> monitor_onMessage m msg
           | Ev_worker \<Rightarrow> clear m
           | Ev_stop \<Rightarrow> (stop m, [])
           | Ev_rate r \<Rightarrow> (set_smaple_rate r m, []))"

lemmas monitor_defs [op_defs] =
  new_monitor_def start_def add_counter_def set_smaple_rate_def stop_def monitor_onMessage_def clear_def
  monitor_step_def

section \<open>Invariants\<close>

text \<open>How many messages the monitor forwarded since the worker last cleared the counter.\<close>

definition packets_since_reset :: "('f, 'a) monitor_out list \<Rightarrow> nat" where
  "packets_since_reset os =
     length (filter (\<lambda>x. case x of Followed f msg \<Rightarrow> True | Follow_raised \<Rightarrow> True | _ \<Rightarrow> False)
       (takeWhile (\<lambda>x. x \<noteq> Reset) (rev os)))"

lemma packets_since_reset_simps [simp]:
  "packets_since_reset [] = 0"
  "packets_since_reset (os @ [Reset]) = 0"
  "packets_since_reset (os @ [Followed f msg]) = Suc (packets_since_reset os)"
  "packets_since_reset (os @ [Follow_raised]) = Suc (packets_since_reset os)"
  "packets_since_reset (os @ [Slept r]) = packets_since_reset os"
  "packets_since_reset (os @ [Triggered a]) = packets_since_reset os"
  "packets_since_reset (os @ [Terminate]) = packets_since_reset os"
  by (simp_all add: packets_since_reset_def)

text \<open>The counter is that number modulo \<open>2 ^ 32\<close>, and the worker acts on it only at the threshold.\<close>

definition counts :: "u32 \<Rightarrow> ('f, 'a) monitor \<Rightarrow> ('f, 'a) monitor_out list \<Rightarrow> bool" where
  "counts threshold m os \<longleftrightarrow>
     thresh_hold m = threshold \<and> counter m = of_nat (packets_since_reset os) \<and>
     (worker m = At_action \<longrightarrow> unat threshold \<le> packets_since_reset os)"

lemma counts_new: "counts threshold (new_monitor rate threshold) []"
  by (simp add: counts_def new_monitor_def)

lemma unat_of_nat_le: "unat (of_nat n :: 'a::len word) \<le> n"
  by (simp add: unat_of_nat)

lemma counts_step:
  assumes "counts threshold m os"
  shows "counts threshold (fst (monitor_step m e)) (os @ snd (monitor_step m e))"
proof (cases "worker m = At_test \<and> e = Ev_worker")
  case True
  then show ?thesis
    using assms unat_of_nat_le [of "packets_since_reset os", where 'a = 32]
    by (auto simp: counts_def monitor_defs word_le_nat_alt)
next
  case False
  then show ?thesis
    using assms
    by (auto simp: counts_def monitor_defs split: monitor_event.split worker.split option.split)
qed

lemma one_output: "length (snd (monitor_step m e)) \<le> 1"
  by (auto simp: monitor_defs split: monitor_event.split worker.split option.split)

lemma trigger_step: "snd (monitor_step m e) = [Triggered a] \<Longrightarrow> worker m = At_action"
  by (auto simp: monitor_defs split: if_splits monitor_event.splits worker.splits option.splits)

lemma trigger_counts:
  assumes "counts threshold m os" and "snd (run monitor_step m es) = xs @ Triggered a # ys"
  shows "unat threshold \<le> packets_since_reset (os @ xs)"
  using assms
proof (induction es arbitrary: m os xs)
  case Nil
  then show ?case by simp
next
  case (Cons e es)
  let ?m = "fst (monitor_step m e)" and ?o = "snd (monitor_step m e)"
  have next_counts: "counts threshold ?m (os @ ?o)" using Cons.prems(1) by (rule counts_step)
  have outs: "?o @ snd (run monitor_step ?m es) = xs @ Triggered a # ys"
    using Cons.prems(2) by (simp add: snd_run_Cons del: run.simps)
  consider "?o = []" | "?o = [Triggered a]" "xs = []" | z where "?o = [z]" "\<exists>xs'. xs = z # xs'"
    using one_output [of m e] outs
    by (cases ?o; cases xs) auto
  then show ?case
  proof cases
    case 1
    then show ?thesis using Cons.IH [of ?m os xs] next_counts outs by simp
  next
    case 2
    then show ?thesis using trigger_step [OF 2(1)] Cons.prems(1) by (simp add: counts_def)
  next
    case (3 z)
    then obtain xs' where "xs = z # xs'" by blast
    then show ?thesis using Cons.IH [of ?m "os @ [z]" xs'] next_counts outs 3(1) by simp
  qed
qed

subsection \<open>One sampling period\<close>

lemma messages_run:
  "worker m \<noteq> Aborted \<Longrightarrow> follow_cb m = Some f \<Longrightarrow>
   run monitor_step m (map Ev_message msgs) =
     (m\<lparr>counter := counter m + of_nat (length msgs)\<rparr>, map (Followed f) msgs)"
  by (induction msgs arbitrary: m)
    (simp_all add: monitor_defs algebra_simps)

lemma period_run:
  assumes "worker m = At_reset" and "action_cb m = Some a" and "follow_cb m = Some f"
  shows "snd (run monitor_step m (Ev_worker # map Ev_message msgs @ [Ev_worker, Ev_worker, Ev_worker])) =
    Reset # map (Followed f) msgs @ Slept (sample_rate m) #
    (if unat (thresh_hold m) \<le> length msgs mod 2 ^ 32 then [Triggered a] else [])"
proof -
  let ?m = "m\<lparr>worker := At_sleep, counter := 0\<rparr>"
  have first: "monitor_step m Ev_worker = (?m, [Reset])" using assms(1) by (simp add: monitor_defs)
  have "run monitor_step ?m (map Ev_message msgs) =
      (?m\<lparr>counter := of_nat (length msgs)\<rparr>, map (Followed f) msgs)"
    using messages_run [of ?m f msgs] assms(3) by simp
  moreover have "thresh_hold m \<le> of_nat (length msgs) \<longleftrightarrow> unat (thresh_hold m) \<le> length msgs mod 2 ^ 32"
    by (simp add: word_le_nat_alt unat_of_nat)
  ultimately show ?thesis
    using assms first by (simp add: run_append monitor_defs)
qed

subsection \<open>Stopping\<close>

primrec steps_left :: "worker \<Rightarrow> nat" where
  "steps_left Not_started = 0"
| "steps_left At_while = 1"
| "steps_left At_reset = 5"
| "steps_left At_sleep = 4"
| "steps_left At_test = 3"
| "steps_left At_action = 2"
| "steps_left Finished = 0"
| "steps_left Aborted = 0"

definition in_period :: "worker \<Rightarrow> nat" where
  "in_period w = (if w \<in> {At_reset, At_sleep, At_test, At_action} then 1 else 0)"

definition triggers :: "('f, 'a) monitor_out list \<Rightarrow> nat" where
  "triggers os = length (filter (\<lambda>x. case x of Triggered a \<Rightarrow> True | _ \<Rightarrow> False) os)"

lemma triggers_append [simp]: "triggers (xs @ ys) = triggers xs + triggers ys"
  by (simp add: triggers_def)

lemma stopped_step:
  assumes "\<not> is_running m"
  shows "\<not> is_running (fst (monitor_step m e))"
    and "triggers (snd (monitor_step m e)) + in_period (worker (fst (monitor_step m e))) \<le> in_period (worker m)"
    and "worker m \<noteq> Not_started \<Longrightarrow>
      worker (fst (monitor_step m e)) \<noteq> Not_started \<and>
      steps_left (worker (fst (monitor_step m e))) \<le> steps_left (worker m) - (if e = Ev_worker then 1 else 0)"
  using assms
  by (auto simp: monitor_defs triggers_def in_period_def split: monitor_event.split worker.split option.split)

lemma stopped_triggers:
  "\<not> is_running m \<Longrightarrow>
   triggers (snd (run monitor_step m es)) + in_period (worker (fst (run monitor_step m es)))
     \<le> in_period (worker m)"
proof (induction es arbitrary: m)
  case Nil
  then show ?case by (simp add: triggers_def)
next
  case (Cons e es)
  then show ?case
    using Cons.IH [OF stopped_step(1) [of m e]] stopped_step(2) [of m e]
    by (simp add: fst_run_Cons snd_run_Cons del: run.simps)
qed

lemma stopped_steps_left:
  "\<not> is_running m \<Longrightarrow> worker m \<noteq> Not_started \<Longrightarrow>
   worker (fst (run monitor_step m es)) \<noteq> Not_started \<and>
   steps_left (worker (fst (run monitor_step m es)))
     \<le> steps_left (worker m) - length (filter (\<lambda>e. e = Ev_worker) es)"
proof (induction es arbitrary: m)
  case Nil
  then show ?case by simp
next
  case (Cons e es)
  then show ?case
    using Cons.IH [OF stopped_step(1) [of m e]] stopped_step(3) [of m e]
    by (auto simp: fst_run_Cons simp del: run.simps split: if_splits)
qed

lemma steps_left_zero: "steps_left w = 0 \<Longrightarrow> w \<noteq> Not_started \<Longrightarrow> w \<in> {Finished, Aborted}"
  by (cases w) simp_all

lemma finished_step: "worker m = Finished \<Longrightarrow> worker (fst (monitor_step m e)) = Finished"
  by (auto simp: monitor_defs split: monitor_event.split)

lemma finished_stays: "worker m = Finished \<Longrightarrow> worker (fst (run monitor_step m es)) = Finished"
  by (rule run_invariant) (auto intro: finished_step)

subsection \<open>Idling\<close>

text \<open>Without packets the monitor triggers at most for what it has counted already.\<close>

definition may_trigger :: "('f, 'a) monitor \<Rightarrow> nat" where
  "may_trigger m =
     (if worker m = At_action \<or> worker m \<in> {At_sleep, At_test} \<and> counter m \<noteq> 0 then 1 else 0)"

lemma idle_step:
  assumes "thresh_hold m \<noteq> 0"
  shows "thresh_hold (fst (monitor_step m Ev_worker)) = thresh_hold m"
    and "triggers (snd (monitor_step m Ev_worker)) + may_trigger (fst (monitor_step m Ev_worker)) \<le> may_trigger m"
  using assms
  by (cases "worker m"; simp add: monitor_defs triggers_def may_trigger_def split: option.split)+

lemma idle_triggers:
  "thresh_hold m \<noteq> 0 \<Longrightarrow> list_all (\<lambda>e. e = Ev_worker) es \<Longrightarrow>
   triggers (snd (run monitor_step m es)) \<le> may_trigger m"
proof (induction es arbitrary: m)
  case (Cons e es)
  have "triggers (snd (run monitor_step (fst (monitor_step m Ev_worker)) es)) \<le> may_trigger (fst (monitor_step m Ev_worker))"
    using Cons idle_step(1) [OF Cons.prems(1)] by simp
  then show ?case
    using Cons.prems idle_step(2) [OF Cons.prems(1)] by (simp add: snd_run_Cons del: run.simps)
qed (simp add: triggers_def)

subsection \<open>Forwarding\<close>

definition messages_of :: "monitor_event list \<Rightarrow> message list" where
  "messages_of es = List.map_filter (\<lambda>e. case e of Ev_message msg \<Rightarrow> Some msg | _ \<Rightarrow> None) es"

definition forwarded :: "('f, 'a) monitor_out list \<Rightarrow> ('f \<times> message) list" where
  "forwarded os = List.map_filter (\<lambda>x. case x of Followed f msg \<Rightarrow> Some (f, msg) | _ \<Rightarrow> None) os"

lemma forward_step:
  assumes "follow_cb m = Some f" and "action_cb m = Some a" and "worker m \<noteq> Aborted"
  shows "follow_cb (fst (monitor_step m e)) = Some f" and "action_cb (fst (monitor_step m e)) = Some a"
    and "worker (fst (monitor_step m e)) \<noteq> Aborted"
    and "forwarded (snd (monitor_step m e)) = map (Pair f) (messages_of [e])"
  using assms
  by (auto simp: monitor_defs forwarded_def messages_of_def List.map_filter_def
      split: monitor_event.split worker.split option.split)

lemma forward_run:
  assumes "follow_cb m = Some f" and "action_cb m = Some a" and "worker m \<noteq> Aborted"
  shows "forwarded (snd (run monitor_step m es)) = map (Pair f) (messages_of es)"
  using assms
proof (induction es arbitrary: m)
  case Nil
  then show ?case by (simp add: forwarded_def messages_of_def List.map_filter_def)
next
  case (Cons e es)
  have "forwarded (snd (run monitor_step m (e # es))) =
      forwarded (snd (monitor_step m e)) @ forwarded (snd (run monitor_step (fst (monitor_step m e)) es))"
    by (simp add: snd_run_Cons forwarded_def map_filter_append del: run.simps)
  also have "\<dots> = map (Pair f) (messages_of [e]) @ map (Pair f) (messages_of es)"
    using forward_step [OF Cons.prems, of e] Cons.IH [of "fst (monitor_step m e)"] by simp
  also have "\<dots> = map (Pair f) (messages_of (e # es))"
    by (cases e) (simp_all add: messages_of_def List.map_filter_def)
  finally show ?case .
qed

section \<open>Properties\<close>

text \<open>
  The action never runs without cause: in every interleaving of the threads, when it runs, at
  least \<open>threshold\<close> packets have been counted since the worker last cleared the counter.
\<close>

theorem trigger_needs_packets:
  assumes "snd (run monitor_step (set_follow_action f (set_trigger_action a (new_monitor rate threshold))) es) =
    xs @ Triggered b # ys"
  shows "unat threshold \<le> packets_since_reset xs"
proof -
  have "counts threshold (set_follow_action f (set_trigger_action a (new_monitor rate threshold))) []"
    by (simp add: counts_def new_monitor_def set_follow_action_def set_trigger_action_def)
  from trigger_counts [OF this assms] show ?thesis by simp
qed

theorem trigger_needs_packets_witness:
  "2 \<le> packets_since_reset [Reset, Followed () [1], Followed () [2], Slept 500 :: (unit, unit) monitor_out]"
proof -
  let ?m = "set_follow_action (Some ()) (set_trigger_action (Some ()) (new_monitor 500 2))"
  let ?es = "[Ev_start, Ev_worker, Ev_worker, Ev_message [1], Ev_message [2], Ev_worker, Ev_worker, Ev_worker]"
  have "snd (run monitor_step ?m ?es) =
      [Reset, Followed () [1], Followed () [2], Slept 500] @ Triggered () # []"
    by (simp add: monitor_defs set_follow_action_def set_trigger_action_def)
  from trigger_needs_packets [OF this] show ?thesis by simp
qed

text \<open>
  One sampling period: the messages that arrive while the worker sleeps are forwarded, and
  when it wakes the action runs exactly if their number reaches the threshold. The counter has 32
  bits, so the number is taken modulo \<open>2 ^ 32\<close>.
\<close>

theorem period_triggers:
  assumes "worker m = At_reset" and "action_cb m = Some a" and "follow_cb m = Some f"
  shows "snd (run monitor_step m (Ev_worker # map Ev_message msgs @ [Ev_worker, Ev_worker, Ev_worker])) =
    Reset # map (Followed f) msgs @ Slept (sample_rate m) #
    (if unat (thresh_hold m) \<le> length msgs mod 2 ^ 32 then [Triggered a] else [])"
  using assms by (rule period_run)

definition sample_monitor :: "(nat, bool) monitor" where
  "sample_monitor = fst (run monitor_step
     (set_follow_action (Some 7) (set_trigger_action (Some True) (new_monitor 500 2))) [Ev_start, Ev_worker])"

lemma sample_monitor_eq:
  "sample_monitor = \<lparr>worker = At_reset, counter = 0, sample_rate = 500, thresh_hold = 2, is_running = True,
     action_cb = Some True, follow_cb = Some 7\<rparr>"
  by (simp add: sample_monitor_def monitor_defs set_follow_action_def set_trigger_action_def)

theorem period_triggers_witness:
  "snd (run monitor_step sample_monitor
      (Ev_worker # map Ev_message [[1], [2]] @ [Ev_worker, Ev_worker, Ev_worker])) =
    [Reset, Followed 7 [1], Followed 7 [2], Slept 500, Triggered True]"
  using period_triggers [of sample_monitor True 7 "[[1], [2]]"] by (simp add: sample_monitor_eq)

text \<open>
  The monitor is transparent: with its callbacks set it forwards every message once, in
  order and unchanged, whatever the worker does and whenever \<open>start\<close> and \<open>stop\<close> are called.
\<close>

theorem monitor_forwards_all:
  assumes "follow_cb m = Some f" and "action_cb m = Some a" and "worker m \<noteq> Aborted"
  shows "forwarded (snd (run monitor_step m es)) = map (Pair f) (messages_of es)"
  using assms by (rule forward_run)

theorem monitor_forwards_all_witness:
  "forwarded (snd (run monitor_step sample_monitor
      [Ev_worker, Ev_message [1], Ev_stop, Ev_worker, Ev_message [2], Ev_start])) = [(7, [1]), (7, [2])]"
  using monitor_forwards_all [of sample_monitor 7 True
      "[Ev_worker, Ev_message [1], Ev_stop, Ev_worker, Ev_message [2], Ev_start]"]
  by (simp add: sample_monitor_eq messages_of_def List.map_filter_def)

text \<open>
  C20. After \<open>stop\<close> the action runs at most once more, the worker ends after at most five of its
  steps, whatever else happens, and it never runs again: \<open>start\<close> does not replace a worker that
  exists.
\<close>

theorem stop_ends_worker:
  assumes "\<not> is_running m" and "worker m \<noteq> Not_started"
    and "5 \<le> length (filter (\<lambda>e. e = Ev_worker) es)"
  shows "triggers (snd (run monitor_step m es)) \<le> 1 \<and>
    worker (fst (run monitor_step m es)) \<in> {Finished, Aborted} \<and>
    worker (fst (run monitor_step m (es @ fs))) \<in> {Finished, Aborted}"
proof -
  have bound: "steps_left (worker m) \<le> 5" by (cases "worker m") simp_all
  have ended: "worker (fst (run monitor_step m gs)) \<in> {Finished, Aborted}"
    if "5 \<le> length (filter (\<lambda>e. e = Ev_worker) gs)" for gs
    using stopped_steps_left [OF assms(1,2), of gs] bound that by (intro steps_left_zero) auto
  moreover have "triggers (snd (run monitor_step m es)) \<le> 1"
    using stopped_triggers [OF assms(1), of es] by (simp add: in_period_def split: if_splits)
  ultimately show ?thesis using assms(3) by simp
qed

theorem stop_ends_worker_witness:
  "worker (fst (run monitor_step (stop sample_monitor) (replicate 5 Ev_worker))) \<in> {Finished, Aborted}"
  using stop_ends_worker [of "stop sample_monitor" "replicate 5 Ev_worker" "[]"]
  by (simp add: sample_monitor_eq stop_def)

end
