(* ===== verification/Eproxy.thy ===== *)
theory Eproxy imports Packet_In_Migrator Packet_In_Monitor begin

text \<open>
  \<open>eproxy.cpp\<close>, built without \<open>OVS_ASSIST\<close>: a proxy between a switch and its controller. Messages
  from the controller go to the switch, messages from the switch to the controller, packet-ins among
  them through the monitor, whose action writes the migrator's flow modification to the switch.

  The functions that \<open>std::bind\<close> makes are values of \<open>callback\<close>. The state is the two sessions, each
  with its reading and its writing half, and the monitor; an event is a completed read of a session,
  a step of the monitor's thread, or a step of the io thread on a session's writes. The two
  constructors' uninitialised \<open>data_\<close> arrays and the migrator's buffers are parameters.
\<close>

section \<open>State and wiring\<close>

datatype endpoint = C_session | S_session

text \<open>\<open>bind(&Session::write, session, _1)\<close>, \<open>bind(&PKTINMonitor::onMessage, &monitor, _1)\<close>; \<open>bind(&PKTMigrator::switch_path, &migrator)\<close>.\<close>

datatype callback = Session_write endpoint | Monitor_onMessage
datatype trigger = Switch_path

record eproxy =
  s_session :: "callback dispatcher session"
  c_session :: "callback dispatcher session"
  s_writer :: writer
  c_writer :: writer
  monitor :: "(endpoint, trigger) monitor"
  migrator :: migrator
  stopped :: bool

definition dispatcher_from_switch :: "callback dispatcher" where
  "dispatcher_from_switch =
     setCallBackOnMessage OFPT_PACKET_IN (Some Monitor_onMessage)
       (setDefaultCallback (Some (Session_write C_session)) new_dispatcher)"

definition dispatcher_from_controller :: "callback dispatcher" where
  "dispatcher_from_controller = setDefaultCallback (Some (Session_write S_session)) new_dispatcher"

definition eproxy_main :: "mem \<Rightarrow> mem \<Rightarrow> eproxy" where
  "eproxy_main s_junk c_junk =
     \<lparr>s_session = session_start (listen 9000 ''127.0.0.1''
        (set_dispatcher dispatcher_from_switch (new_session ''switch_session'' s_junk))),
      c_session = session_start (connect 6633 ''128.238.147.221''
        (set_dispatcher dispatcher_from_controller (new_session ''controller_session'' c_junk))),
      s_writer = new_writer, c_writer = new_writer,
      monitor = start (set_follow_action (Some C_session)
        (set_trigger_action (Some Switch_path) (new_monitor 500 10))),
      migrator = new_migrator 3, stopped = False\<rparr>"

section \<open>Events\<close>

datatype eproxy_event =
    Switch_read completion | Controller_read completion | Worker_step mem
  | Write_start endpoint | Write_move endpoint nat nat

text \<open>What a step does, as the components report it.\<close>

datatype eproxy_out =
    From_switch "callback action session_out"
  | From_controller "callback action session_out"
  | From_monitor "(endpoint, trigger) monitor_out"

definition write_to :: "endpoint \<Rightarrow> message \<Rightarrow> eproxy \<Rightarrow> eproxy" where
  "write_to d msg p =
     (case d of
        C_session \<Rightarrow> p\<lparr>c_writer := session_write msg (c_writer p)\<rparr>
      | S_session \<Rightarrow> p\<lparr>s_writer := session_write msg (s_writer p)\<rparr>)"

text \<open>
  The effect of a monitor output: a forwarded message is written, the trigger calls the migrator, an
  exception stops the program (the io thread's is caught in \<open>main\<close>, which returns).
\<close>

definition monitor_effect :: "mem \<Rightarrow> eproxy \<Rightarrow> (endpoint, trigger) monitor_out \<Rightarrow> eproxy" where
  "monitor_effect junk p x =
     (case x of
        Followed d msg \<Rightarrow> write_to d msg p
      | Triggered Switch_path \<Rightarrow> switch_path (write_to S_session) junk (migrator p) p
      | Follow_raised \<Rightarrow> p\<lparr>stopped := True\<rparr>
      | Terminate \<Rightarrow> p\<lparr>stopped := True\<rparr>
      | Reset \<Rightarrow> p
      | Slept ms \<Rightarrow> p)"

definition monitor_does :: "mem \<Rightarrow> eproxy \<Rightarrow> monitor_event \<Rightarrow> eproxy \<times> eproxy_out list" where
  "monitor_does junk p e =
     (case monitor_step (monitor p) e of
        (m, os) \<Rightarrow> (foldl (monitor_effect junk) (p\<lparr>monitor := m\<rparr>) os, map From_monitor os))"

text \<open>The effect of a dispatch: the bound function runs. \<open>junk\<close> plays no role without a trigger.\<close>

definition call_back :: "callback \<Rightarrow> message \<Rightarrow> eproxy \<Rightarrow> eproxy \<times> eproxy_out list" where
  "call_back cb msg p =
     (case cb of
        Session_write d \<Rightarrow> (write_to d msg p, [])
      | Monitor_onMessage \<Rightarrow> monitor_does (\<lambda>_. 0) p (Ev_message msg))"

definition session_effect :: "callback action session_out \<Rightarrow> eproxy \<Rightarrow> eproxy \<times> eproxy_out list" where
  "session_effect x p =
     (case x of
        Dispatched (Call cb msg) \<Rightarrow> call_back cb msg p
      | Dispatched On_error \<Rightarrow> (p, [])
      | Raised e \<Rightarrow> (p\<lparr>stopped := True\<rparr>, [])
      | Null_dispatcher \<Rightarrow> (p\<lparr>stopped := True\<rparr>, [])
      | Read_failed \<Rightarrow> (p, [])
      | Overrun \<Rightarrow> (p, []))"

text \<open>A step of the io thread on the writes of a session.\<close>

definition on_writer :: "endpoint \<Rightarrow> (writer \<Rightarrow> writer) \<Rightarrow> eproxy \<Rightarrow> eproxy" where
  "on_writer d f p =
     (case d of C_session \<Rightarrow> p\<lparr>c_writer := f (c_writer p)\<rparr> | S_session \<Rightarrow> p\<lparr>s_writer := f (s_writer p)\<rparr>)"

definition eproxy_step :: "eproxy \<Rightarrow> eproxy_event \<Rightarrow> eproxy \<times> eproxy_out list" where
  "eproxy_step p e =
     (if stopped p then (p, [])
      else case e of
             Switch_read c \<Rightarrow>
               (case complete onMessage (s_session p) c of
                  (s, xs) \<Rightarrow> let (p', os) = run (\<lambda>p x. session_effect x p) (p\<lparr>s_session := s\<rparr>) xs
                             in (p', map From_switch xs @ os))
           | Controller_read c \<Rightarrow>
               (case complete onMessage (c_session p) c of
                  (s, xs) \<Rightarrow> let (p', os) = run (\<lambda>p x. session_effect x p) (p\<lparr>c_session := s\<rparr>) xs
                             in (p', map From_controller xs @ os))
           | Worker_step junk \<Rightarrow> monitor_does junk p Ev_worker
           | Write_start d \<Rightarrow> (on_writer d start_write p, [])
           | Write_move d i n \<Rightarrow> (on_writer d (move_write i n) p, []))"

lemmas eproxy_defs [op_defs] =
  monitor_effect_def monitor_does_def call_back_def session_effect_def start_write_def move_write_def
  on_writer_def eproxy_step_def write_to_def

section \<open>Frames\<close>

lemma write_to_frame [simp]:
  "s_session (write_to d msg p) = s_session p" "c_session (write_to d msg p) = c_session p"
  "monitor (write_to d msg p) = monitor p" "migrator (write_to d msg p) = migrator p"
  "stopped (write_to d msg p) = stopped p"
  by (simp_all add: write_to_def split: endpoint.split)

lemma on_writer_frame [simp]:
  "s_session (on_writer d f p) = s_session p" "c_session (on_writer d f p) = c_session p"
  "monitor (on_writer d f p) = monitor p" "migrator (on_writer d f p) = migrator p"
  "stopped (on_writer d f p) = stopped p"
  by (simp_all add: on_writer_def split: endpoint.split)

lemma monitor_effect_frame [simp]:
  "s_session (monitor_effect junk p x) = s_session p" "c_session (monitor_effect junk p x) = c_session p"
  "monitor (monitor_effect junk p x) = monitor p" "migrator (monitor_effect junk p x) = migrator p"
  by (simp_all add: monitor_effect_def switch_path_def split: monitor_out.split trigger.split)

lemma monitor_effects_frame [simp]:
  "s_session (foldl (monitor_effect junk) p os) = s_session p"
  "c_session (foldl (monitor_effect junk) p os) = c_session p"
  "monitor (foldl (monitor_effect junk) p os) = monitor p"
  "migrator (foldl (monitor_effect junk) p os) = migrator p"
  by (induction os arbitrary: p) simp_all

lemma monitor_does_frame [simp]:
  "s_session (fst (monitor_does junk p e)) = s_session p"
  "c_session (fst (monitor_does junk p e)) = c_session p"
  "migrator (fst (monitor_does junk p e)) = migrator p"
  "monitor (fst (monitor_does junk p e)) = fst (monitor_step (monitor p) e)"
  "snd (monitor_does junk p e) = map From_monitor (snd (monitor_step (monitor p) e))"
  by (simp_all add: monitor_does_def split: prod.split)

lemma session_effect_frame [simp]:
  "s_session (fst (session_effect x p)) = s_session p" "c_session (fst (session_effect x p)) = c_session p"
  "migrator (fst (session_effect x p)) = migrator p"
  by (simp_all add: session_effect_def call_back_def split: session_out.split action.split callback.split)

definition monitored :: "callback action session_out \<Rightarrow> monitor_event list" where
  "monitored x = (case x of Dispatched (Call Monitor_onMessage msg) \<Rightarrow> [Ev_message msg] | _ \<Rightarrow> [])"

lemma session_effect_monitor:
  "monitor (fst (session_effect x p)) = fst (run monitor_step (monitor p) (monitored x))"
  "snd (session_effect x p) = map From_monitor (snd (run monitor_step (monitor p) (monitored x)))"
  by (simp_all add: session_effect_def call_back_def monitored_def split_beta
      split: session_out.split action.split callback.split)

abbreviation session_effects where
  "session_effects p xs \<equiv> run (\<lambda>p x. session_effect x p) p xs"

lemma session_effects_frame [simp]:
  "s_session (fst (session_effects p xs)) = s_session p" "c_session (fst (session_effects p xs)) = c_session p"
  "migrator (fst (session_effects p xs)) = migrator p"
  by (rule run_frame, simp)+

lemma session_effects_monitor:
  "monitor (fst (session_effects p xs)) = fst (run monitor_step (monitor p) (concat (map monitored xs)))"
  "snd (session_effects p xs) = map From_monitor (snd (run monitor_step (monitor p) (concat (map monitored xs))))"
  by (induction xs arbitrary: p)
    (simp_all add: split_beta run_append session_effect_monitor)

section \<open>The components of the proxy\<close>

fun from_switch :: "eproxy_out \<Rightarrow> callback action session_out option" where
  "from_switch (From_switch x) = Some x" | "from_switch x = None"

fun from_controller :: "eproxy_out \<Rightarrow> callback action session_out option" where
  "from_controller (From_controller x) = Some x" | "from_controller x = None"

fun from_monitor :: "eproxy_out \<Rightarrow> (endpoint, trigger) monitor_out option" where
  "from_monitor (From_monitor x) = Some x" | "from_monitor x = None"

lemma map_filter_sources [simp]:
  "List.map_filter from_switch (map From_switch xs) = xs"
  "List.map_filter from_switch (map From_controller xs) = []"
  "List.map_filter from_switch (map From_monitor ys) = []"
  "List.map_filter from_controller (map From_switch xs) = []"
  "List.map_filter from_controller (map From_controller xs) = xs"
  "List.map_filter from_controller (map From_monitor ys) = []"
  "List.map_filter from_monitor (map From_switch xs) = []"
  "List.map_filter from_monitor (map From_controller xs) = []"
  "List.map_filter from_monitor (map From_monitor ys) = ys"
  by (simp_all add: List.map_filter_def o_def filter_True filter_False)

text \<open>The events each component sees: the completions of its reads; what is dispatched to it.\<close>

fun switch_reads :: "eproxy_event \<Rightarrow> completion list" where
  "switch_reads (Switch_read c) = [c]" | "switch_reads e = []"

fun controller_reads :: "eproxy_event \<Rightarrow> completion list" where
  "controller_reads (Controller_read c) = [c]" | "controller_reads e = []"

definition monitor_events :: "eproxy \<Rightarrow> eproxy_event \<Rightarrow> monitor_event list" where
  "monitor_events p e =
     (if stopped p then []
      else case e of
             Switch_read c \<Rightarrow> concat (map monitored (snd (complete onMessage (s_session p) c)))
           | Controller_read c \<Rightarrow> concat (map monitored (snd (complete onMessage (c_session p) c)))
           | Worker_step junk \<Rightarrow> [Ev_worker]
           | _ \<Rightarrow> [])"

interpretation switch_reader:
  projection eproxy_step "complete onMessage" s_session "\<lambda>p e. if stopped p then [] else switch_reads e" from_switch
proof unfold_locales
  fix p e
  show "s_session (fst (eproxy_step p e)) =
      fst (run (complete onMessage) (s_session p) (if stopped p then [] else switch_reads e))"
    and "List.map_filter from_switch (snd (eproxy_step p e)) =
      snd (run (complete onMessage) (s_session p) (if stopped p then [] else switch_reads e))"
    by (cases e; simp add: eproxy_step_def split_beta map_filter_append session_effects_monitor
        List.map_filter_simps)+
qed

interpretation controller_reader:
  projection eproxy_step "complete onMessage" c_session "\<lambda>p e. if stopped p then [] else controller_reads e" from_controller
proof unfold_locales
  fix p e
  show "c_session (fst (eproxy_step p e)) =
      fst (run (complete onMessage) (c_session p) (if stopped p then [] else controller_reads e))"
    and "List.map_filter from_controller (snd (eproxy_step p e)) =
      snd (run (complete onMessage) (c_session p) (if stopped p then [] else controller_reads e))"
    by (cases e; simp add: eproxy_step_def split_beta map_filter_append session_effects_monitor
        List.map_filter_simps)+
qed

interpretation proxy_monitor:
  projection eproxy_step monitor_step monitor monitor_events from_monitor
proof unfold_locales
  fix p e
  show "monitor (fst (eproxy_step p e)) = fst (run monitor_step (monitor p) (monitor_events p e))"
    and "List.map_filter from_monitor (snd (eproxy_step p e)) =
      snd (run monitor_step (monitor p) (monitor_events p e))"
    by (cases e; simp add: eproxy_step_def monitor_events_def split_beta map_filter_append
        session_effects_monitor List.map_filter_simps)+
qed

section \<open>The wiring is kept\<close>

definition wired :: "eproxy \<Rightarrow> bool" where
  "wired p \<longleftrightarrow> \<not> stopped p \<and> sess_dispatcher (s_session p) = Some dispatcher_from_switch \<and>
     sess_dispatcher (c_session p) = Some dispatcher_from_controller \<and>
     follow_cb (monitor p) = Some C_session \<and> action_cb (monitor p) = Some Switch_path \<and>
     worker (monitor p) \<noteq> Aborted \<and> migrator p = new_migrator 3"

definition switch_callback :: "message \<Rightarrow> callback" where
  "switch_callback msg =
     (if ucast (msg_type msg) = ofp_type_val OFPT_PACKET_IN then Monitor_onMessage
      else Session_write C_session)"

lemma route_switch: "route dispatcher_from_switch msg = Inr (Call (switch_callback msg) msg)"
  by (simp add: route_def callback_for_def dispatcher_from_switch_def switch_callback_def
      setCallBackOnMessage_def setDefaultCallback_def new_dispatcher_def)

lemma route_controller: "route dispatcher_from_controller msg = Inr (Call (Session_write S_session) msg)"
  by (simp add: route_def callback_for_def dispatcher_from_controller_def setDefaultCallback_def
      new_dispatcher_def)

lemma onMessage_switch:
  "\<exists>cb msg. onMessage dispatcher_from_switch m = Inr (Call cb msg) \<and> cb \<in> {Monitor_onMessage, Session_write C_session}"
  by (simp add: onMessage_def dispatcher_from_switch_def setCallBackOnMessage_def setDefaultCallback_def
      new_dispatcher_def invoke_def Let_def)

lemma onMessage_controller:
  "\<exists>msg. onMessage dispatcher_from_controller m = Inr (Call (Session_write S_session) msg)"
  by (simp add: onMessage_def dispatcher_from_controller_def setDefaultCallback_def new_dispatcher_def
      invoke_def Let_def)

lemma complete_outputs:
  assumes "sess_dispatcher s = Some d"
  shows "sess_dispatcher (fst (complete onm s c)) = Some d"
    and "snd (complete onm s c) \<in> {[], [Read_failed], [Overrun]} \<or>
      (\<exists>m e. onm d m = Inl e \<and> snd (complete onm s c) = [Raised e]) \<or>
      (\<exists>m a. onm d m = Inr a \<and> snd (complete onm s c) = [Dispatched a])"
  using assms
  by (auto simp: session_defs Let_def split: option.split read_handler.split sum.split)

lemma switch_outputs:
  assumes "wired p"
  shows "snd (complete onMessage (s_session p) c) \<in> {[], [Read_failed], [Overrun]} \<or>
    (\<exists>msg. snd (complete onMessage (s_session p) c) = [Dispatched (Call Monitor_onMessage msg)]) \<or>
    (\<exists>msg. snd (complete onMessage (s_session p) c) = [Dispatched (Call (Session_write C_session) msg)])"
proof -
  have "sess_dispatcher (s_session p) = Some dispatcher_from_switch" using assms by (simp add: wired_def)
  note outs = complete_outputs(2) [OF this, of onMessage c]
  show ?thesis
    using outs onMessage_switch by (elim disjE exE conjE) (simp, metis Inl_Inr_False, metis insertE emptyE Inr_inject)
qed

lemma controller_outputs:
  assumes "wired p"
  shows "snd (complete onMessage (c_session p) c) \<in> {[], [Read_failed], [Overrun]} \<or>
    (\<exists>msg. snd (complete onMessage (c_session p) c) = [Dispatched (Call (Session_write S_session) msg)])"
proof -
  have "sess_dispatcher (c_session p) = Some dispatcher_from_controller" using assms by (simp add: wired_def)
  note outs = complete_outputs(2) [OF this, of onMessage c]
  show ?thesis
    using outs onMessage_controller by (elim disjE exE conjE) (simp, metis Inl_Inr_False, metis Inr_inject)
qed

text \<open>What the monitor does in the proxy, and its effect.\<close>

lemma monitor_outputs:
  assumes "wired p"
  shows "snd (monitor_step (monitor p) (Ev_message msg)) = [Followed C_session msg]"
    and "snd (monitor_step (monitor p) Ev_worker) = [] \<or>
      snd (monitor_step (monitor p) Ev_worker) = [Reset] \<or>
      (\<exists>r. snd (monitor_step (monitor p) Ev_worker) = [Slept r]) \<or>
      snd (monitor_step (monitor p) Ev_worker) = [Triggered Switch_path]"
  using assms by (auto simp: wired_def monitor_defs split: worker.split)

lemma switch_path_proxy:
  "switch_path (write_to S_session) junk (new_migrator 3) p = write_to S_session (switch_bytes 3) p"
  by (simp add: switch_path_def new_migrator_def prepare_switch_bytes)

lemma monitor_wired:
  assumes "wired p"
  shows "follow_cb (fst (monitor_step (monitor p) e)) = Some C_session"
    "action_cb (fst (monitor_step (monitor p) e)) = Some Switch_path"
    "worker (fst (monitor_step (monitor p) e)) \<noteq> Aborted"
  using forward_step [of "monitor p" C_session Switch_path e] assms by (simp_all add: wired_def)

lemma wired_main: "wired (eproxy_main s_junk c_junk)"
  by (simp add: wired_def eproxy_main_def session_start_def session_read_def listen_def connect_def
      set_dispatcher_def start_def set_follow_action_def set_trigger_action_def new_monitor_def)

section \<open>One step\<close>

definition dispatched_message :: "callback action session_out \<Rightarrow> message option" where
  "dispatched_message x = (case x of Dispatched (Call cb msg) \<Rightarrow> Some msg | _ \<Rightarrow> None)"

text \<open>The messages an output stands for, by the session they are written to.\<close>

definition to_controller :: "eproxy_out \<Rightarrow> message option" where
  "to_controller x =
     (case x of
        From_switch (Dispatched (Call (Session_write C_session) msg)) \<Rightarrow> Some msg
      | From_controller (Dispatched (Call (Session_write C_session) msg)) \<Rightarrow> Some msg
      | From_monitor (Followed C_session msg) \<Rightarrow> Some msg
      | _ \<Rightarrow> None)"

definition to_switch :: "eproxy_out \<Rightarrow> message option" where
  "to_switch x =
     (case x of
        From_switch (Dispatched (Call (Session_write S_session) msg)) \<Rightarrow> Some msg
      | From_controller (Dispatched (Call (Session_write S_session) msg)) \<Rightarrow> Some msg
      | From_monitor (Followed S_session msg) \<Rightarrow> Some msg
      | From_monitor (Triggered Switch_path) \<Rightarrow> Some (switch_bytes 3)
      | _ \<Rightarrow> None)"

lemma written_write_to [simp]:
  "written (s_writer (write_to d msg p)) = written (s_writer p) @ (if d = S_session then [msg] else [])"
  "written (c_writer (write_to d msg p)) = written (c_writer p) @ (if d = C_session then [msg] else [])"
  by (simp_all add: write_to_def split: endpoint.split)

lemma written_on_writer [simp]:
  assumes "\<And>w. written (f w) = written w"
  shows "written (s_writer (on_writer d f p)) = written (s_writer p)"
    and "written (c_writer (on_writer d f p)) = written (c_writer p)"
  by (simp_all add: on_writer_def assms split: endpoint.split)

text \<open>What every step leaves alone.\<close>

definition kept :: "eproxy \<Rightarrow> eproxy \<Rightarrow> bool" where
  "kept p p' \<longleftrightarrow> stopped p' = stopped p \<and> migrator p' = migrator p \<and>
     sess_dispatcher (s_session p') = sess_dispatcher (s_session p) \<and>
     sess_dispatcher (c_session p') = sess_dispatcher (c_session p)"

text \<open>The possible steps of a wired proxy, as one case rule for everything that follows.\<close>

lemma eproxy_step_cases:
  assumes "wired p"
  obtains
    (quiet) "kept p (fst (eproxy_step p e))" "monitor (fst (eproxy_step p e)) = monitor p"
      "written (s_writer (fst (eproxy_step p e))) = written (s_writer p)"
      "written (c_writer (fst (eproxy_step p e))) = written (c_writer p)"
      "snd (eproxy_step p e) \<in> {[], [From_switch Read_failed], [From_controller Read_failed],
        [From_switch Overrun], [From_controller Overrun]}"
  | (to_controller) msg where
      "kept p (fst (eproxy_step p e))" "monitor (fst (eproxy_step p e)) = monitor p"
      "written (s_writer (fst (eproxy_step p e))) = written (s_writer p)"
      "written (c_writer (fst (eproxy_step p e))) = written (c_writer p) @ [msg]"
      "snd (eproxy_step p e) = [From_switch (Dispatched (Call (Session_write C_session) msg))]"
  | (to_switch) msg where
      "kept p (fst (eproxy_step p e))" "monitor (fst (eproxy_step p e)) = monitor p"
      "written (s_writer (fst (eproxy_step p e))) = written (s_writer p) @ [msg]"
      "written (c_writer (fst (eproxy_step p e))) = written (c_writer p)"
      "snd (eproxy_step p e) = [From_controller (Dispatched (Call (Session_write S_session) msg))]"
  | (monitored) msg where
      "kept p (fst (eproxy_step p e))"
      "monitor (fst (eproxy_step p e)) = fst (monitor_step (monitor p) (Ev_message msg))"
      "written (s_writer (fst (eproxy_step p e))) = written (s_writer p)"
      "written (c_writer (fst (eproxy_step p e))) = written (c_writer p) @ [msg]"
      "snd (eproxy_step p e) = [From_switch (Dispatched (Call Monitor_onMessage msg)), From_monitor (Followed C_session msg)]"
  | (working) os where
      "kept p (fst (eproxy_step p e))"
      "monitor (fst (eproxy_step p e)) = fst (monitor_step (monitor p) Ev_worker)"
      "written (s_writer (fst (eproxy_step p e))) = written (s_writer p)"
      "written (c_writer (fst (eproxy_step p e))) = written (c_writer p)"
      "snd (eproxy_step p e) = map From_monitor os" "os = [] \<or> os = [Reset] \<or> (\<exists>r. os = [Slept r])"
      "snd (monitor_step (monitor p) Ev_worker) = os"
  | (triggered)
      "kept p (fst (eproxy_step p e))"
      "monitor (fst (eproxy_step p e)) = fst (monitor_step (monitor p) Ev_worker)"
      "written (s_writer (fst (eproxy_step p e))) = written (s_writer p) @ [switch_bytes 3]"
      "written (c_writer (fst (eproxy_step p e))) = written (c_writer p)"
      "snd (eproxy_step p e) = [From_monitor (Triggered Switch_path)]"
      "snd (monitor_step (monitor p) Ev_worker) = [Triggered Switch_path]"
proof (cases e)
  case (Switch_read c)
  have alive: "\<not> stopped p" using assms by (simp add: wired_def)
  have disp: "sess_dispatcher (fst (complete onMessage (s_session p) c)) = sess_dispatcher (s_session p)"
    using complete_outputs(1) [of "s_session p" dispatcher_from_switch onMessage c] assms by (simp add: wired_def)
  note unfolds = Switch_read alive disp eproxy_step_def split_beta session_effect_def call_back_def
    monitor_does_def kept_def monitor_effect_def Let_def
  from switch_outputs [OF assms, of c] consider
      "snd (complete onMessage (s_session p) c) \<in> {[], [Read_failed], [Overrun]}"
    | msg where "snd (complete onMessage (s_session p) c) = [Dispatched (Call Monitor_onMessage msg)]"
    | msg where "snd (complete onMessage (s_session p) c) = [Dispatched (Call (Session_write C_session) msg)]"
    by blast
  then show thesis
  proof cases
    case 1
    then show thesis by (intro quiet) (auto simp: unfolds)
  next
    case (2 msg)
    then show thesis
      using monitor_outputs(1) [OF assms, of msg] by (intro monitored [of msg]) (simp_all add: unfolds)
  next
    case (3 msg)
    then show thesis by (intro to_controller [of msg]) (simp_all add: unfolds)
  qed
next
  case (Controller_read c)
  have alive: "\<not> stopped p" using assms by (simp add: wired_def)
  have disp: "sess_dispatcher (fst (complete onMessage (c_session p) c)) = sess_dispatcher (c_session p)"
    using complete_outputs(1) [of "c_session p" dispatcher_from_controller onMessage c] assms by (simp add: wired_def)
  note unfolds = Controller_read alive disp eproxy_step_def split_beta session_effect_def call_back_def
    kept_def Let_def
  from controller_outputs [OF assms, of c] consider
      "snd (complete onMessage (c_session p) c) \<in> {[], [Read_failed], [Overrun]}"
    | msg where "snd (complete onMessage (c_session p) c) = [Dispatched (Call (Session_write S_session) msg)]"
    by blast
  then show thesis
  proof cases
    case 1
    then show thesis by (intro quiet) (auto simp: unfolds)
  next
    case (2 msg)
    then show thesis by (intro to_switch [of msg]) (simp_all add: unfolds)
  qed
next
  case (Worker_step junk)
  have alive: "\<not> stopped p" "migrator p = new_migrator 3" using assms by (simp_all add: wired_def)
  have path: "switch_path (write_to S_session) junk (new_migrator 3) q = write_to S_session (switch_bytes 3) q" for q
    by (rule switch_path_proxy)
  note unfolds = Worker_step alive eproxy_step_def split_beta monitor_does_def kept_def monitor_effect_def path
  from monitor_outputs(2) [OF assms] consider os where
      "snd (monitor_step (monitor p) Ev_worker) = os" "os = [] \<or> os = [Reset] \<or> (\<exists>r. os = [Slept r])"
    | "snd (monitor_step (monitor p) Ev_worker) = [Triggered Switch_path]"
    by blast
  then show thesis
  proof cases
    case (1 os)
    then show thesis by (intro working [of os]) (auto simp: unfolds)
  next
    case 2
    then show thesis by (intro triggered) (simp_all add: unfolds)
  qed
next
  case (Write_start d)
  with assms show thesis by (intro quiet) (simp_all add: eproxy_step_def kept_def wired_def)
next
  case (Write_move d i n)
  with assms show thesis by (intro quiet) (simp_all add: eproxy_step_def kept_def wired_def)
qed

lemma wired_step:
  assumes "wired p"
  shows "wired (fst (eproxy_step p e))"
  using assms monitor_wired [OF assms]
  by (cases rule: eproxy_step_cases [OF assms, of e]) (simp_all add: wired_def kept_def)

lemma log_to_controller:
  assumes "wired p"
  shows "written (c_writer (fst (eproxy_step p e))) =
    written (c_writer p) @ List.map_filter to_controller (snd (eproxy_step p e))"
  by (cases rule: eproxy_step_cases [OF assms, of e])
    (auto simp: to_controller_def List.map_filter_simps)

lemma log_to_switch:
  assumes "wired p"
  shows "written (s_writer (fst (eproxy_step p e))) =
    written (s_writer p) @ List.map_filter to_switch (snd (eproxy_step p e))"
  by (cases rule: eproxy_step_cases [OF assms, of e])
    (auto simp: to_switch_def List.map_filter_simps)

lemma controller_gets_dispatched:
  assumes "wired p"
  shows "List.map_filter to_controller (snd (eproxy_step p e)) =
    List.map_filter dispatched_message (List.map_filter from_switch (snd (eproxy_step p e)))"
  by (cases rule: eproxy_step_cases [OF assms, of e])
    (auto simp: to_controller_def dispatched_message_def List.map_filter_simps)

section \<open>Runs\<close>

lemma wired_alive: "wired p \<Longrightarrow> \<not> stopped p"
  by (simp add: wired_def)

lemma wired_run: "wired p \<Longrightarrow> wired (fst (run eproxy_step p es))"
  by (rule run_invariant [where I = wired]) (auto intro: wired_step)

text \<open>
  What the sessions dispatch in a run, from any wired state that waits for a header: the messages whose
  reads have completed.
\<close>

lemma switch_outputs_some:
  assumes "wired p" and "ready dispatcher_from_switch (s_session p)"
    and "concat (map switch_reads es) = take k (concat (map reads_of ms))" and "list_all well_framed ms"
  shows "List.map_filter from_switch (snd (run eproxy_step p es)) =
    map (\<lambda>msg. Dispatched (Call (switch_callback msg) msg)) (framed k ms)"
proof -
  have "events_along eproxy_step (\<lambda>p e. if stopped p then [] else switch_reads e) p es = concat (map switch_reads es)"
    by (rule events_along_const [where I = wired, OF assms(1) wired_step]) (simp_all add: wired_alive)
  then show ?thesis
    using switch_reader.run_out [of p es] assms(3)
      dispatch.frame_some [OF assms(2,4), of "\<lambda>msg. Call (switch_callback msg) msg" k] route_switch
    by simp
qed

lemma controller_outputs_some:
  assumes "wired p" and "ready dispatcher_from_controller (c_session p)"
    and "concat (map controller_reads es) = take k (concat (map reads_of ms))" and "list_all well_framed ms"
  shows "List.map_filter from_controller (snd (run eproxy_step p es)) =
    map (\<lambda>msg. Dispatched (Call (Session_write S_session) msg)) (framed k ms)"
proof -
  have "events_along eproxy_step (\<lambda>p e. if stopped p then [] else controller_reads e) p es = concat (map controller_reads es)"
    by (rule events_along_const [where I = wired, OF assms(1) wired_step]) (simp_all add: wired_alive)
  then show ?thesis
    using controller_reader.run_out [of p es] assms(3)
      dispatch.frame_some [OF assms(2,4), of "\<lambda>msg. Call (Session_write S_session) msg" k] route_controller
    by simp
qed

lemma switch_outputs_from:
  assumes "wired p" and "ready dispatcher_from_switch (s_session p)"
    and "concat (map switch_reads es) = concat (map reads_of ms)" and "list_all well_framed ms"
  shows "List.map_filter from_switch (snd (run eproxy_step p es)) =
    map (\<lambda>msg. Dispatched (Call (switch_callback msg) msg)) ms"
  using switch_outputs_some [OF assms(1,2) _ assms(4), of es "length (concat (map reads_of ms))"]
  by (simp add: assms(3) framed_all del: length_concat)

lemma controller_outputs_from:
  assumes "wired p" and "ready dispatcher_from_controller (c_session p)"
    and "concat (map controller_reads es) = concat (map reads_of ms)" and "list_all well_framed ms"
  shows "List.map_filter from_controller (snd (run eproxy_step p es)) =
    map (\<lambda>msg. Dispatched (Call (Session_write S_session) msg)) ms"
  using controller_outputs_some [OF assms(1,2) _ assms(4), of es "length (concat (map reads_of ms))"]
  by (simp add: assms(3) framed_all del: length_concat)

lemma ready_main:
  "ready dispatcher_from_switch (s_session (eproxy_main s_junk c_junk))"
  "ready dispatcher_from_controller (c_session (eproxy_main s_junk c_junk))"
  by (simp_all add: eproxy_main_def ready_def session_start_def session_read_def listen_def connect_def
      set_dispatcher_def)

lemmas switch_outputs_run = switch_outputs_from [OF wired_main ready_main(1)]
lemmas controller_outputs_run = controller_outputs_from [OF wired_main ready_main(2)]

lemma dispatched_messages:
  "List.map_filter dispatched_message (map (\<lambda>msg. Dispatched (Call (cb msg) msg)) ms) = ms"
  by (induction ms) (simp_all add: List.map_filter_simps dispatched_message_def)

lemma empty_logs: "written (c_writer (eproxy_main s_junk c_junk)) = []"
  "written (s_writer (eproxy_main s_junk c_junk)) = []"
  by (simp_all add: eproxy_main_def written_def new_writer_def)

lemma controller_log:
  "written (c_writer (fst (run eproxy_step (eproxy_main s_junk c_junk) es))) =
    List.map_filter dispatched_message
      (List.map_filter from_switch (snd (run eproxy_step (eproxy_main s_junk c_junk) es)))"
  using run_log [where I = wired and log = "\<lambda>p. written (c_writer p)" and g = to_controller and
      step = eproxy_step, OF wired_main wired_step log_to_controller]
    run_readings [where I = wired and g = to_controller and h = dispatched_message and k = from_switch and
      step = eproxy_step, OF wired_main wired_step controller_gets_dispatched]
  by (simp add: empty_logs)

lemma written_messages:
  assumes "concat (map switch_reads es) = concat (map reads_of ms)" and "list_all well_framed ms"
  shows "written (c_writer (fst (run eproxy_step (eproxy_main s_junk c_junk) es))) = ms"
  using controller_log [of s_junk c_junk es] switch_outputs_run [OF assms]
  by (simp add: dispatched_messages)

text \<open>The switch gets the controller's messages shuffled with the migrator's.\<close>

definition migration :: "eproxy_out \<Rightarrow> message option" where
  "migration x = (case x of From_monitor (Triggered Switch_path) \<Rightarrow> Some (switch_bytes 3) | _ \<Rightarrow> None)"

lemma switch_gets_shuffle:
  assumes "wired p"
  shows "List.map_filter to_switch (snd (eproxy_step p e)) \<in> shuffles
    (List.map_filter dispatched_message (List.map_filter from_controller (snd (eproxy_step p e))))
    (List.map_filter migration (snd (eproxy_step p e)))"
  by (cases rule: eproxy_step_cases [OF assms, of e])
    (auto simp: to_switch_def migration_def dispatched_message_def List.map_filter_simps)

lemma switch_shuffle_run:
  "wired p \<Longrightarrow> List.map_filter to_switch (snd (run eproxy_step p es)) \<in> shuffles
    (List.map_filter dispatched_message (List.map_filter from_controller (snd (run eproxy_step p es))))
    (List.map_filter migration (snd (run eproxy_step p es)))"
proof (induction es arbitrary: p)
  case Nil
  then show ?case by (simp add: List.map_filter_simps)
next
  case (Cons e es)
  show ?case
    using append_in_shuffles [OF switch_gets_shuffle [OF Cons.prems, of e] Cons.IH [OF wired_step [OF Cons.prems]]]
    by (simp add: snd_run_Cons map_filter_append del: run.simps)
qed

lemma migrations_count:
  "List.map_filter migration os = replicate (triggers (List.map_filter from_monitor os)) (switch_bytes 3)"
proof (induction os)
  case Nil
  then show ?case by (simp add: List.map_filter_simps triggers_def)
next
  case (Cons x os)
  show ?case
  proof (cases x)
    case (From_monitor y)
    then show ?thesis
      using Cons by (cases y) (auto simp: List.map_filter_simps migration_def triggers_def split: trigger.split)
  qed (use Cons in \<open>simp_all add: List.map_filter_simps migration_def\<close>)
qed

text \<open>
  The writing halves. The proxy changes a writer only by \<open>write\<close> and by the io thread's steps on its
  own endpoint, so what \<open>write\<close> and the start of a write keep is kept by every event other than a
  transfer on that endpoint.
\<close>

definition writer_of :: "endpoint \<Rightarrow> eproxy \<Rightarrow> writer" where
  "writer_of d p = (case d of C_session \<Rightarrow> c_writer p | S_session \<Rightarrow> s_writer p)"

lemma writer_of_simps [simp]:
  "writer_of d (write_to d' msg p) = (if d = d' then session_write msg (writer_of d p) else writer_of d p)"
  "writer_of d (on_writer d' f p) = (if d = d' then f (writer_of d p) else writer_of d p)"
  "writer_of d (p\<lparr>stopped := b\<rparr>) = writer_of d p" "writer_of d (p\<lparr>monitor := m\<rparr>) = writer_of d p"
  "writer_of d (p\<lparr>s_session := s\<rparr>) = writer_of d p" "writer_of d (p\<lparr>c_session := c\<rparr>) = writer_of d p"
  by (simp_all add: writer_of_def write_to_def on_writer_def split: endpoint.split)

locale writer_closed =
  fixes P :: "writer \<Rightarrow> bool"
  assumes closed_write: "P w \<Longrightarrow> P (session_write msg w)"
    and closed_start: "P w \<Longrightarrow> P (start_write w)"
begin

lemma closed_effect: "P (writer_of d p) \<Longrightarrow> P (writer_of d (monitor_effect junk p x))"
  by (auto simp: monitor_effect_def switch_path_def closed_write split: monitor_out.split trigger.split)

lemma closed_effects: "P (writer_of d p) \<Longrightarrow> P (writer_of d (foldl (monitor_effect junk) p os))"
  by (induction os arbitrary: p) (simp_all add: closed_effect)

lemma closed_does: "P (writer_of d p) \<Longrightarrow> P (writer_of d (fst (monitor_does junk p e)))"
  by (simp add: monitor_does_def split_beta closed_effects)

lemma closed_session: "P (writer_of d p) \<Longrightarrow> P (writer_of d (fst (session_effects p xs)))"
  by (rule run_invariant [where I = "\<lambda>p. P (writer_of d p)"])
    (auto simp: session_effect_def call_back_def closed_write closed_does
      split: session_out.split action.split callback.split)

lemma closed_step:
  assumes "P (writer_of d p)" and "\<And>i n. e = Write_move d i n \<Longrightarrow> P (move_write i n (writer_of d p))"
  shows "P (writer_of d (fst (eproxy_step p e)))"
  using assms
  by (cases e)
    (auto simp: eproxy_step_def split_beta Let_def intro: closed_session closed_does closed_start)

end

interpretation reachable: writer_closed write_reach
  by unfold_locales (auto intro: reach_write reach_start)

lemma writers_run: "write_reach (writer_of d (fst (run eproxy_step (eproxy_main s_junk c_junk) es)))"
proof (rule run_invariant [where I = "\<lambda>p. write_reach (writer_of d p)"])
  show "write_reach (writer_of d (eproxy_main s_junk c_junk))"
    by (simp add: writer_of_def eproxy_main_def write_reach.initially split: endpoint.split)
qed (rule reachable.closed_step, auto intro: reach_move)

subsection \<open>What the monitor sees\<close>

definition is_packet_in :: "message \<Rightarrow> bool" where
  "is_packet_in msg \<longleftrightarrow> ucast (msg_type msg) = ofp_type_val OFPT_PACKET_IN"

definition counted :: "callback action session_out \<Rightarrow> message option" where
  "counted x = (case x of Dispatched (Call Monitor_onMessage msg) \<Rightarrow> Some msg | _ \<Rightarrow> None)"

definition followed :: "eproxy_out \<Rightarrow> message option" where
  "followed x = (case x of From_monitor (Followed d msg) \<Rightarrow> Some msg | _ \<Rightarrow> None)"

lemma followed_step:
  assumes "wired p"
  shows "List.map_filter followed (snd (eproxy_step p e)) =
    List.map_filter counted (List.map_filter from_switch (snd (eproxy_step p e)))"
  by (cases rule: eproxy_step_cases [OF assms, of e])
    (auto simp: followed_def counted_def List.map_filter_simps)

lemma counted_packet_ins:
  "List.map_filter counted (map (\<lambda>msg. Dispatched (Call (switch_callback msg) msg)) ms) = filter is_packet_in ms"
  by (induction ms) (simp_all add: List.map_filter_simps counted_def switch_callback_def is_packet_in_def)

lemma counts_main: "counts 10 (monitor (eproxy_main s_junk c_junk)) []"
  by (simp add: counts_def eproxy_main_def start_def set_follow_action_def set_trigger_action_def new_monitor_def)

subsection \<open>Reading a message that is only a header\<close>

lemma header_read:
  assumes "wired p" and "ready dispatcher_from_switch (s_session p)" and "well_framed msg" and "length msg = 8"
  obtains s' where "complete onMessage (s_session p) (completed msg) = (s', [Dispatched (Call (switch_callback msg) msg)])"
    "ready dispatcher_from_switch s'"
  using dispatch.frame_one [OF assms(2,3) route_switch] assms(4) by (auto simp: reads_of_def split_beta)

lemma hello_read:
  assumes "wired p" and "ready dispatcher_from_switch (s_session p)"
  obtains s' where "fst (eproxy_step p (Switch_read (completed (header_bytes 4 0 8 1)))) =
      write_to C_session (header_bytes 4 0 8 1) (p\<lparr>s_session := s'\<rparr>)"
proof -
  have msg: "well_framed (header_bytes 4 0 8 1)" "switch_callback (header_bytes 4 0 8 1) = Session_write C_session"
    by (simp_all add: well_framed_def switch_callback_def)
  from header_read [OF assms msg(1)] obtain s' where
    "complete onMessage (s_session p) (completed (header_bytes 4 0 8 1)) =
      (s', [Dispatched (Call (Session_write C_session) (header_bytes 4 0 8 1))])"
    using msg(2) by auto
  with assms(1) that show thesis by (simp add: eproxy_step_def wired_alive session_effect_def call_back_def)
qed

lemma packet_in_read:
  assumes "wired p" and "ready dispatcher_from_switch (s_session p)"
  shows "ready dispatcher_from_switch (s_session (fst (eproxy_step p (Switch_read (completed (header_bytes 4 10 8 2))))))"
    and "monitor (fst (eproxy_step p (Switch_read (completed (header_bytes 4 10 8 2))))) = add_counter (monitor p)"
proof -
  have msg: "well_framed (header_bytes 4 10 8 2)" "switch_callback (header_bytes 4 10 8 2) = Monitor_onMessage"
    by (simp_all add: well_framed_def switch_callback_def)
  from header_read [OF assms msg(1)] obtain s' where
    "complete onMessage (s_session p) (completed (header_bytes 4 10 8 2)) =
      (s', [Dispatched (Call Monitor_onMessage (header_bytes 4 10 8 2))])" "ready dispatcher_from_switch s'"
    using msg(2) by auto
  with assms(1) show
    "ready dispatcher_from_switch (s_session (fst (eproxy_step p (Switch_read (completed (header_bytes 4 10 8 2))))))"
    "monitor (fst (eproxy_step p (Switch_read (completed (header_bytes 4 10 8 2))))) = add_counter (monitor p)"
    by (simp_all add: eproxy_step_def split_beta session_effect_monitor monitored_def monitor_step_def
        monitor_onMessage_def wired_def)
qed

lemma packet_in_reads:
  assumes "wired p" and "ready dispatcher_from_switch (s_session p)"
  shows "monitor (fst (run eproxy_step p (replicate n (Switch_read (completed (header_bytes 4 10 8 2)))))) =
    (monitor p)\<lparr>counter := counter (monitor p) + of_nat n\<rparr>"
  using assms
proof (induction n arbitrary: p)
  case (Suc n)
  show ?case
    using Suc.IH [OF wired_step [OF Suc.prems(1)] packet_in_read(1) [OF Suc.prems]] packet_in_read(2) [OF Suc.prems]
    by (simp add: fst_run_Cons add_counter_def algebra_simps del: run.simps)
qed simp

text \<open>What the switch is written and what the monitor follows, from what the sessions have dispatched.\<close>

lemma switch_shuffle_main:
  assumes "List.map_filter from_controller (snd (run eproxy_step (eproxy_main s_junk c_junk) es)) =
    map (\<lambda>msg. Dispatched (Call (Session_write S_session) msg)) ms"
  shows "written (s_writer (fst (run eproxy_step (eproxy_main s_junk c_junk) es))) \<in>
    shuffles ms (replicate
      (triggers (List.map_filter from_monitor (snd (run eproxy_step (eproxy_main s_junk c_junk) es))))
      (switch_bytes 3))"
proof -
  let ?outs = "snd (run eproxy_step (eproxy_main s_junk c_junk) es)"
  have "written (s_writer (fst (run eproxy_step (eproxy_main s_junk c_junk) es))) = List.map_filter to_switch ?outs"
    using run_log [where I = wired and log = "\<lambda>p. written (s_writer p)" and g = to_switch and
        step = eproxy_step, OF wired_main wired_step log_to_switch]
    by (simp add: empty_logs)
  then show ?thesis
    using switch_shuffle_run [OF wired_main, of s_junk c_junk es] assms
    by (simp add: dispatched_messages migrations_count)
qed

lemma followed_messages:
  assumes "List.map_filter from_switch (snd (run eproxy_step (eproxy_main s_junk c_junk) es)) =
    map (\<lambda>msg. Dispatched (Call (switch_callback msg) msg)) ms"
  shows "List.map_filter followed (snd (run eproxy_step (eproxy_main s_junk c_junk) es)) = filter is_packet_in ms"
  using run_readings [where I = wired and g = followed and h = counted and k = from_switch and
      step = eproxy_step, OF wired_main wired_step followed_step, of s_junk c_junk es] assms
  by (simp add: counted_packet_ins)

section \<open>Properties\<close>

text \<open>
  C1. The proxy is transparent from the switch to the controller: however the reads of the switch
  session interleave with everything else, the messages written to the controller are exactly
  the messages the switch sent, packet-ins included, byte for byte and in order.
\<close>

theorem proxy_switch_to_controller:
  assumes "concat (map switch_reads es) = concat (map reads_of ms)" and "list_all well_framed ms"
  shows "written (c_writer (fst (run eproxy_step (eproxy_main s_junk c_junk) es))) = ms"
  using assms by (rule written_messages)

definition sample_messages :: "message list" where
  "sample_messages = [header_bytes 4 0 8 1, header_bytes 4 10 12 2 @ [1, 2, 3, 4]]"

definition sample_events :: "eproxy_event list" where
  "sample_events =
     [Switch_read (completed (header_bytes 4 0 8 1)), Worker_step (\<lambda>_. 0),
      Controller_read (completed (header_bytes 4 0 8 1)),
      Switch_read (completed (header_bytes 4 10 12 2)), Worker_step (\<lambda>_. 7), Write_start C_session,
      Switch_read (completed [1, 2, 3, 4])]"

theorem proxy_switch_to_controller_witness:
  "written (c_writer (fst (run eproxy_step (eproxy_main (\<lambda>_. 0) (\<lambda>_. 1)) sample_events))) = sample_messages"
  by (rule proxy_switch_to_controller)
    (simp_all add: sample_events_def sample_messages_def reads_of_def well_framed_def)

text \<open>
  C10. From the controller to the switch the proxy adds and removes nothing but the migrator's
  messages: what is written to the switch is a shuffle of the controller's messages, in order and
  unchanged, with one flow modification towards port 3 for each time the monitor triggered.
\<close>

theorem proxy_controller_to_switch:
  assumes "concat (map controller_reads es) = concat (map reads_of ms)" and "list_all well_framed ms"
  shows "written (s_writer (fst (run eproxy_step (eproxy_main s_junk c_junk) es))) \<in>
    shuffles ms (replicate
      (triggers (List.map_filter from_monitor (snd (run eproxy_step (eproxy_main s_junk c_junk) es))))
      (switch_bytes 3))"
  by (rule switch_shuffle_main) (rule controller_outputs_run [OF assms])

theorem proxy_controller_to_switch_witness:
  "\<exists>k. written (s_writer (fst (run eproxy_step (eproxy_main (\<lambda>_. 0) (\<lambda>_. 1)) sample_events))) \<in>
    shuffles [header_bytes 4 0 8 1] (replicate k (switch_bytes 3))"
  using proxy_controller_to_switch [of sample_events "[header_bytes 4 0 8 1]" "\<lambda>_. 0" "\<lambda>_. 1"]
  by (auto simp: sample_events_def reads_of_def well_framed_def)

text \<open>
  The detour is taken only under load: whenever the migrator is triggered, at least ten
  packet-ins went through the monitor since its thread last cleared the counter.
\<close>

theorem migration_needs_packet_ins:
  assumes "snd (run eproxy_step (eproxy_main s_junk c_junk) es) = xs @ From_monitor (Triggered Switch_path) # ys"
  shows "10 \<le> packets_since_reset (List.map_filter from_monitor xs)"
proof -
  let ?p = "eproxy_main s_junk c_junk"
  have "snd (run monitor_step (monitor ?p) (events_along eproxy_step monitor_events ?p es)) =
      List.map_filter from_monitor xs @ Triggered Switch_path # List.map_filter from_monitor ys"
    using proxy_monitor.run_out [of ?p es] by (simp add: assms map_filter_append List.map_filter_simps)
  from trigger_counts [OF counts_main this] show ?thesis by simp
qed

text \<open>A run with ten packet-ins in one period.\<close>

definition busy_events :: "eproxy_event list" where
  "busy_events = [Worker_step (\<lambda>_. 0), Worker_step (\<lambda>_. 0)] @
     replicate 10 (Switch_read (completed (header_bytes 4 10 8 2))) @
     [Worker_step (\<lambda>_. 0), Worker_step (\<lambda>_. 0)]"

theorem migration_needs_packet_ins_witness:
  "\<exists>xs. snd (run eproxy_step (eproxy_main (\<lambda>_. 0) (\<lambda>_. 0)) (busy_events @ [Worker_step (\<lambda>_. 0)])) =
      xs @ [From_monitor (Triggered Switch_path)] \<and>
    10 \<le> packets_since_reset (List.map_filter from_monitor xs)"
proof -
  let ?p = "eproxy_main (\<lambda>_. 0) (\<lambda>_. 0)" and ?w = "Worker_step (\<lambda>_. 0)"
  let ?p2 = "fst (run eproxy_step ?p [?w, ?w])"
  let ?p3 = "fst (run eproxy_step ?p2 (replicate 10 (Switch_read (completed (header_bytes 4 10 8 2)))))"
  let ?q = "fst (run eproxy_step ?p busy_events)"
  have step: "monitor (fst (eproxy_step p ?w)) = fst (monitor_step (monitor p) Ev_worker)"
    "s_session (fst (eproxy_step p ?w)) = s_session p" "wired (fst (eproxy_step p ?w))"
    "snd (eproxy_step p ?w) = map From_monitor (snd (monitor_step (monitor p) Ev_worker))" if "wired p" for p
    using that wired_step [OF that, of ?w] by (simp_all add: eproxy_step_def wired_alive)
  have p2: "wired ?p2" "s_session ?p2 = s_session ?p"
    "monitor ?p2 = fst (run monitor_step (monitor ?p) [Ev_worker, Ev_worker])"
    using step [OF wired_main, of "\<lambda>_. 0" "\<lambda>_. 0"]
      step [OF wired_step [OF wired_main], of "\<lambda>_. 0" "\<lambda>_. 0" ?w]
    by (simp_all add: split_beta)
  have "ready dispatcher_from_switch (s_session ?p2)"
    unfolding p2(2)
    by (simp add: eproxy_main_def ready_def session_start_def session_read_def listen_def set_dispatcher_def)
  then have p3: "monitor ?p3 = (monitor ?p2)\<lparr>counter := counter (monitor ?p2) + of_nat 10\<rparr>" "wired ?p3"
    using packet_in_reads [OF p2(1), of 10] wired_run [OF p2(1)] by auto
  have "fst (run eproxy_step ?p (as @ bs @ cs)) =
      fst (run eproxy_step (fst (run eproxy_step (fst (run eproxy_step ?p as)) bs)) cs)" for as bs cs
    by (simp add: run_append split_beta)
  then have "?q = fst (run eproxy_step ?p3 [?w, ?w])" unfolding busy_events_def by blast
  then have q: "monitor ?q = fst (run monitor_step (monitor ?p3) [Ev_worker, Ev_worker])" "wired ?q"
    using step [OF p3(2)] step [OF wired_step [OF p3(2)], of ?w] by (simp_all add: split_beta)
  have "snd (monitor_step (monitor ?q) Ev_worker) = [Triggered Switch_path]"
    unfolding q(1) p3(1) p2(3)
    by (simp add: eproxy_main_def monitor_defs set_follow_action_def set_trigger_action_def)
  then have last: "snd (eproxy_step ?q ?w) = [From_monitor (Triggered Switch_path)]"
    using step(4) [OF q(2)] by simp
  have run: "snd (run eproxy_step ?p (busy_events @ [?w])) =
      snd (run eproxy_step ?p busy_events) @ From_monitor (Triggered Switch_path) # []"
    using last by (simp add: run_append split_beta)
  show ?thesis using migration_needs_packet_ins [OF run] run by blast
qed

text \<open>
  The monitor counts what it should: the messages that pass through it are exactly the
  packet-ins among the switch's messages, in order.
\<close>

theorem monitor_gets_packet_ins:
  assumes "concat (map switch_reads es) = concat (map reads_of ms)" and "list_all well_framed ms"
  shows "List.map_filter followed (snd (run eproxy_step (eproxy_main s_junk c_junk) es)) = filter is_packet_in ms"
  by (rule followed_messages) (rule switch_outputs_run [OF assms])

theorem monitor_gets_packet_ins_witness:
  "List.map_filter followed (snd (run eproxy_step (eproxy_main (\<lambda>_. 0) (\<lambda>_. 1)) sample_events)) =
    [header_bytes 4 10 12 2 @ [1, 2, 3, 4]]"
  using monitor_gets_packet_ins [of sample_events sample_messages]
  by (simp add: sample_events_def sample_messages_def reads_of_def well_framed_def is_packet_in_def)

text \<open>
  On the controller's socket: the bytes that belong to the \<open>i\<close>-th started write are a beginning
  of the \<open>i\<close>-th message of the switch, for every interleaving of reads, writes and the monitor.
\<close>

theorem proxy_bytes_reach_controller:
  assumes "concat (map switch_reads es) = concat (map reads_of ms)" and "list_all well_framed ms"
    and "w = c_writer (fst (run eproxy_step (eproxy_main s_junk c_junk) es))" and "i < length (w_ops w)"
  shows "i < length ms \<and> stream_of_op i w = take (snd (w_ops w ! i)) (ms ! i)"
proof -
  have "written w = ms" using written_messages [OF assms(1,2)] assms(3) by simp
  then have "map fst (w_ops w) @ w_posted w = ms" by (simp add: written_def)
  then have i: "i < length ms" "fst (w_ops w ! i) = ms ! i"
    using assms(4) by (auto simp: nth_append)
  have "write_inv w"
    using writers_run [of C_session s_junk c_junk es] assms(3) by (simp add: writer_of_def reach_inv)
  then show ?thesis using i assms(4) by (simp add: write_inv_def)
qed

theorem proxy_bytes_reach_controller_witness:
  "stream_of_op 0 (c_writer (fst (run eproxy_step (eproxy_main (\<lambda>_. 0) (\<lambda>_. 1))
      [Switch_read (completed (header_bytes 4 0 8 1)), Write_start C_session, Write_move C_session 0 5]))) =
    take 5 (header_bytes 4 0 8 1)"
proof -
  let ?p = "eproxy_main (\<lambda>_. 0) (\<lambda>_. 1)"
  let ?es = "[Switch_read (completed (header_bytes 4 0 8 1)), Write_start C_session, Write_move C_session 0 5]"
  have "ready dispatcher_from_switch (s_session ?p)"
    by (simp add: eproxy_main_def ready_def session_start_def session_read_def listen_def set_dispatcher_def)
  then obtain s' where first: "fst (eproxy_step ?p (Switch_read (completed (header_bytes 4 0 8 1)))) =
      write_to C_session (header_bytes 4 0 8 1) (?p\<lparr>s_session := s'\<rparr>)"
    using hello_read [OF wired_main] by blast
  have alive: "\<not> stopped ?p" "c_writer ?p = new_writer" by (simp_all add: eproxy_main_def)
  let ?p1 = "write_to C_session (header_bytes 4 0 8 1) (?p\<lparr>s_session := s'\<rparr>)"
  have "fst (run eproxy_step ?p ?es) =
      fst (eproxy_step (fst (eproxy_step ?p1 (Write_start C_session))) (Write_move C_session 0 5))"
    by (simp only: fst_run_Cons first run.simps(1) fst_conv)
  then have w: "w_ops (c_writer (fst (run eproxy_step ?p ?es))) = [(header_bytes 4 0 8 1, 5)]"
    using alive
    by (simp add: write_to_def eproxy_step_def on_writer_def start_write_def move_write_def writer_defs
        del: run.simps)
  show ?thesis
    using proxy_bytes_reach_controller [of ?es "[header_bytes 4 0 8 1]" _ "\<lambda>_. 0" "\<lambda>_. 1" 0, OF _ _ refl] w
    by (simp add: reads_of_def well_framed_def del: run.simps)
qed

end
