(* ===== verification/Eproxy_Stream.thy ===== *)
theory Eproxy_Stream imports Eproxy begin

text \<open>
  The proxy end to end. The first part follows the bytes on the controller's socket when the io
  thread's transfers do not overlap, the discipline asio asks for and \<open>Session::write\<close> does not
  enforce. The second part follows one sampling period of the monitor inside the running proxy,
  from the switch's reads to the message written back to the switch.
\<close>

section \<open>The controller's stream\<close>

text \<open>The events whose transfers towards the controller take turns.\<close>

definition takes_turn :: "eproxy \<Rightarrow> eproxy_event \<Rightarrow> bool" where
  "takes_turn p e = (case e of Write_move C_session i n \<Rightarrow> done_before i (c_writer p) | _ \<Rightarrow> True)"

fun in_turn :: "eproxy \<Rightarrow> eproxy_event list \<Rightarrow> bool" where
  "in_turn p [] = True"
| "in_turn p (e # es) = (takes_turn p e \<and> in_turn (fst (eproxy_step p e)) es)"

lemma in_turn_append: "in_turn p (es @ fs) \<longleftrightarrow> in_turn p es \<and> in_turn (fst (run eproxy_step p es)) fs"
  by (induction es arbitrary: p) (simp_all add: fst_run_Cons del: run.simps(2))

interpretation taking_turns: writer_closed write_reach_in_turn
  by unfold_locales (auto intro: write_in_turn start_in_turn_step)

lemma in_turn_step:
  assumes "write_reach_in_turn (c_writer p)" and "takes_turn p e"
  shows "write_reach_in_turn (c_writer (fst (eproxy_step p e)))"
proof -
  have "write_reach_in_turn (writer_of C_session (fst (eproxy_step p e)))"
    using assms
    by (intro taking_turns.closed_step) (auto simp: writer_of_def takes_turn_def intro: move_takes_turn)
  then show ?thesis by (simp add: writer_of_def)
qed

lemma in_turn_run:
  "write_reach_in_turn (c_writer p) \<Longrightarrow> in_turn p es \<Longrightarrow>
   write_reach_in_turn (c_writer (fst (run eproxy_step p es)))"
  by (induction es arbitrary: p) (auto simp: fst_run_Cons in_turn_step simp del: run.simps(2))

lemma in_turn_main:
  "in_turn (eproxy_main s_junk c_junk) es \<Longrightarrow>
   write_reach_in_turn (c_writer (fst (run eproxy_step (eproxy_main s_junk c_junk) es)))"
  by (rule in_turn_run) (simp_all add: eproxy_main_def initially_in_turn)

subsection \<open>The writes can be completed\<close>

text \<open>What is left to do: a step for every unfinished write, two for every message still posted.\<close>

definition unfinished :: "(message \<times> nat) list \<Rightarrow> nat" where
  "unfinished ops = length (filter (\<lambda>(msg, k). k \<noteq> length msg) ops)"

definition work_left :: "writer \<Rightarrow> nat" where
  "work_left w = unfinished (w_ops w) + 2 * length (w_posted w)"

lemma unfinished_simps [simp]:
  "unfinished [] = 0"
  "unfinished ((msg, k) # ops) = (if k = length msg then 0 else 1) + unfinished ops"
  "unfinished (ops @ ops') = unfinished ops + unfinished ops'"
  by (simp_all add: unfinished_def)

lemma all_finished: "unfinished ops = 0 \<Longrightarrow> list_all (\<lambda>(msg, k). k = length msg) ops"
  by (auto simp: unfinished_def filter_empty_conv list_all_iff)

lemma first_unfinished:
  "unfinished ops \<noteq> 0 \<Longrightarrow> \<exists>as msg k bs. ops = as @ (msg, k) # bs \<and> unfinished as = 0 \<and> k \<noteq> length msg"
proof (induction ops)
  case (Cons op ops)
  obtain msg k where op: "op = (msg, k)" by fastforce
  show ?case
  proof (cases "k = length msg")
    case True
    then obtain as m j bs where "ops = as @ (m, j) # bs" "unfinished as = 0" "j \<noteq> length m"
      using Cons op by auto
    then show ?thesis using True op by (intro exI [of _ "op # as"]) auto
  next
    case False
    then show ?thesis using op by (intro exI [of _ "[]"] exI [of _ msg] exI [of _ k] exI [of _ ops]) simp
  qed
qed simp

lemma finishing_transfer:
  assumes "w_ops w = as @ (msg, k) # bs" and "unfinished as = 0" and "k < length msg"
  shows "done_before (length as) w"
    and "work_left (move_write (length as) (length msg - k) w) < work_left w"
  using assms all_finished [of as]
  by (simp_all add: done_before_def work_left_def move_write_def transfer_def list_update_append)

lemma starting_write:
  "w_posted w = msg # rest \<Longrightarrow> work_left (start_write w) < work_left w"
  by (simp add: start_write_def write_in_io_thread_def work_left_def)

text \<open>One useful step of the io thread exists as long as there is work.\<close>

lemma useful_step:
  assumes "wired p" and "write_reach_in_turn (c_writer p)" and "work_left (c_writer p) \<noteq> 0"
  obtains e where "switch_reads e = []" "takes_turn p e"
    "work_left (c_writer (fst (eproxy_step p e))) < work_left (c_writer p)"
proof (cases "unfinished (w_ops (c_writer p)) = 0")
  case True
  with assms(3) obtain msg rest where "w_posted (c_writer p) = msg # rest"
    by (cases "w_posted (c_writer p)") (auto simp: work_left_def)
  then show thesis
    using assms(1) starting_write
    by (intro that [of "Write_start C_session"])
      (simp_all add: takes_turn_def eproxy_step_def on_writer_def wired_alive)
next
  case False
  then obtain as msg k bs where ops: "w_ops (c_writer p) = as @ (msg, k) # bs" "unfinished as = 0" "k \<noteq> length msg"
    using first_unfinished by blast
  have "k \<le> length msg"
    using reach_in_turn_inv [OF assms(2)] ops(1)
    by (auto simp: in_turn_inv_def dest: spec [of _ "length as"])
  with ops(3) have k: "k < length msg" by simp
  show thesis
    using assms(1) finishing_transfer [OF ops(1,2) k]
    by (intro that [of "Write_move C_session (length as) (length msg - k)"])
      (simp_all add: takes_turn_def eproxy_step_def on_writer_def wired_alive)
qed

lemma writes_complete:
  assumes "wired p" and "write_reach_in_turn (c_writer p)"
  shows "\<exists>fs. concat (map switch_reads fs) = [] \<and> in_turn p fs \<and>
    work_left (c_writer (fst (run eproxy_step p fs))) = 0"
  using assms
proof (induction "work_left (c_writer p)" arbitrary: p rule: less_induct)
  case less
  show ?case
  proof (cases "work_left (c_writer p) = 0")
    case True
    then show ?thesis by (intro exI [of _ "[]"]) simp
  next
    case False
    then obtain e where e: "switch_reads e = []" "takes_turn p e"
      "work_left (c_writer (fst (eproxy_step p e))) < work_left (c_writer p)"
      using useful_step [OF less.prems] by blast
    then obtain fs where "concat (map switch_reads fs) = []" "in_turn (fst (eproxy_step p e)) fs"
      "work_left (c_writer (fst (run eproxy_step (fst (eproxy_step p e)) fs))) = 0"
      using less.hyps [OF e(3) wired_step [OF less.prems(1)] in_turn_step [OF less.prems(2) e(2)]] by blast
    with e show ?thesis by (intro exI [of _ "e # fs"]) (simp add: fst_run_Cons del: run.simps(2))
  qed
qed

lemma finished_stream:
  assumes "write_reach_in_turn w" and "work_left w = 0"
  shows "stream w = concat (written w)"
  using reach_in_turn_inv [OF assms(1)] assms(2) concat_take_done [OF all_finished, of "w_ops w"]
  by (simp add: in_turn_inv_def work_left_def written_def)

section \<open>One period under load\<close>

text \<open>A run that starts before a sampling period and ends after the worker's decision.\<close>

definition period_events :: "mem \<Rightarrow> eproxy_event list \<Rightarrow> eproxy_event list" where
  "period_events junk es = Worker_step junk # es @ [Worker_step junk, Worker_step junk, Worker_step junk]"

definition no_worker :: "eproxy_event list \<Rightarrow> bool" where
  "no_worker es \<longleftrightarrow> list_all (\<lambda>e. case e of Worker_step junk \<Rightarrow> False | _ \<Rightarrow> True) es"

lemma monitored_counted: "concat (map monitored xs) = map Ev_message (List.map_filter counted xs)"
  by (induction xs)
    (auto simp: monitored_def counted_def List.map_filter_simps split: session_out.split action.split callback.split)

text \<open>While the worker sleeps, the monitor sees what the switch's session dispatches to it.\<close>

lemma monitor_sees_step:
  assumes "wired p" and "no_worker [e]"
  shows "monitor_events p e = map Ev_message (List.map_filter counted (List.map_filter from_switch (snd (eproxy_step p e))))"
proof (cases e)
  case (Switch_read c)
  then show ?thesis
    using assms(1) by (simp add: monitor_events_def switch_reader.own_out wired_alive monitored_counted split_beta)
next
  case (Controller_read c)
  then show ?thesis
    using assms(1) controller_outputs [OF assms(1), of c]
    by (auto simp: monitor_events_def switch_reader.own_out wired_alive monitored_def List.map_filter_simps)
qed (use assms in \<open>simp_all add: monitor_events_def switch_reader.own_out wired_alive no_worker_def List.map_filter_simps\<close>)

lemma monitor_sees:
  "wired p \<Longrightarrow> no_worker es \<Longrightarrow> events_along eproxy_step monitor_events p es =
   map Ev_message (List.map_filter counted (List.map_filter from_switch (snd (run eproxy_step p es))))"
proof (induction es arbitrary: p)
  case (Cons e es)
  have "no_worker [e]" "no_worker es" using Cons.prems(2) by (simp_all add: no_worker_def)
  then show ?case
    using Cons.IH [OF wired_step [OF Cons.prems(1)]] monitor_sees_step [OF Cons.prems(1)]
    by (simp add: snd_run_Cons map_filter_append del: run.simps)
qed (simp add: List.map_filter_simps)

lemma period_monitor_events:
  assumes "wired p" and "no_worker es" and "ready dispatcher_from_switch (s_session p)"
    and "concat (map switch_reads es) = concat (map reads_of ms)" and "list_all well_framed ms"
  shows "events_along eproxy_step monitor_events p (period_events junk es) =
    Ev_worker # map Ev_message (filter is_packet_in ms) @ [Ev_worker, Ev_worker, Ev_worker]"
proof -
  let ?q = "fst (eproxy_step p (Worker_step junk))"
  have q: "wired ?q" using assms(1) by (rule wired_step)
  moreover have "ready dispatcher_from_switch (s_session ?q)"
    using assms(1,3) switch_reader.own_step [of p "Worker_step junk"] by (simp add: wired_alive)
  ultimately have "events_along eproxy_step monitor_events ?q es = map Ev_message (filter is_packet_in ms)"
    using monitor_sees [OF q assms(2)] switch_outputs_from [OF q _ assms(4,5)] by (simp add: counted_packet_ins)
  moreover have "monitor_events r (Worker_step junk) = [Ev_worker]" if "wired r" for r
    using that by (simp add: monitor_events_def wired_alive)
  ultimately show ?thesis
    using assms(1) wired_run [OF q, of es] wired_step
    by (simp add: period_events_def events_along_append)
qed

lemma period_triggers_once:
  assumes "wired p" and "worker (monitor p) = At_reset" and "no_worker es"
    and "ready dispatcher_from_switch (s_session p)"
    and "concat (map switch_reads es) = concat (map reads_of ms)" and "list_all well_framed ms"
  shows "triggers (List.map_filter from_monitor (snd (run eproxy_step p (period_events junk es)))) =
    (if unat (thresh_hold (monitor p)) \<le> length (filter is_packet_in ms) mod 2 ^ 32 then 1 else 0)"
proof -
  have cbs: "action_cb (monitor p) = Some Switch_path" "follow_cb (monitor p) = Some C_session"
    using assms(1) by (simp_all add: wired_def)
  have none: "triggers (map (Followed f) xs) = 0" for f :: endpoint and xs
    by (simp add: triggers_def)
  show ?thesis
    using proxy_monitor.run_out [of p "period_events junk es"]
      period_monitor_events [OF assms(1,3-6)]
      period_run [OF assms(2) cbs, of "filter is_packet_in ms"] none
    by (simp add: triggers_def)
qed

section \<open>One side down\<close>

text \<open>A session that reads no more.\<close>

definition switch_lost :: "eproxy \<Rightarrow> bool" where
  "switch_lost p \<longleftrightarrow> wired p \<and> sess_read (s_session p) = None"

lemma complete_lost: "sess_read s = None \<Longrightarrow> complete onm s c = (s, [])"
  by (simp add: complete_def)

lemma switch_lost_step:
  assumes "switch_lost p"
  shows "switch_lost (fst (eproxy_step p e))" and "List.map_filter from_switch (snd (eproxy_step p e)) = []"
    and "list_all (\<lambda>e. e = Ev_worker) (monitor_events p e)"
proof -
  have lost: "wired p" "sess_read (s_session p) = None" using assms by (simp_all add: switch_lost_def)
  show "switch_lost (fst (eproxy_step p e))" "List.map_filter from_switch (snd (eproxy_step p e)) = []"
    using lost wired_step [OF lost(1)]
    by (cases e; simp add: switch_lost_def switch_reader.own_step switch_reader.own_out complete_lost)+
  show "list_all (\<lambda>e. e = Ev_worker) (monitor_events p e)"
  proof (cases e)
    case (Controller_read c)
    then show ?thesis
      using controller_outputs [OF lost(1), of c] by (auto simp: monitor_events_def monitored_def)
  qed (simp_all add: monitor_events_def lost(2) complete_lost)
qed

lemma switch_lost_run:
  "switch_lost p \<Longrightarrow>
   list_all (\<lambda>e. e = Ev_worker) (events_along eproxy_step monitor_events p es) \<and>
   List.map_filter from_switch (snd (run eproxy_step p es)) = []"
proof (induction es arbitrary: p)
  case (Cons e es)
  show ?case
    using Cons.IH [OF switch_lost_step(1) [OF Cons.prems]] switch_lost_step(2,3) [OF Cons.prems, of e]
    by (simp add: snd_run_Cons map_filter_append del: run.simps)
qed (simp add: List.map_filter_simps)

text \<open>The end of a session: a read of a body that completes with an error.\<close>

lemma switch_read_fails:
  assumes "wired p" and "sess_read (s_session p) = Some r" and "rd_handler r = Handle_read"
    and "c_error c" and "rd_offset r + length (c_bytes c) \<le> max_length"
  shows "switch_lost (fst (eproxy_step p (Switch_read c)))"
    and "monitor (fst (eproxy_step p (Switch_read c))) = monitor p"
    and "written (c_writer (fst (eproxy_step p (Switch_read c)))) = written (c_writer p)"
    and "written (s_writer (fst (eproxy_step p (Switch_read c)))) = written (s_writer p)"
    and "c_session (fst (eproxy_step p (Switch_read c))) = c_session p"
proof -
  obtain t where t: "complete onMessage (s_session p) c = (t, [Read_failed])" "sess_read t = None"
    using body_error_completes [OF assms(2-5)] by blast
  have step: "fst (eproxy_step p (Switch_read c)) = p\<lparr>s_session := t\<rparr>"
    using assms(1) t(1) by (simp add: eproxy_step_def wired_alive session_effect_def)
  show "switch_lost (fst (eproxy_step p (Switch_read c)))"
    using wired_step [OF assms(1), of "Switch_read c"] t(2) by (simp add: switch_lost_def step)
  show "monitor (fst (eproxy_step p (Switch_read c))) = monitor p"
    "written (c_writer (fst (eproxy_step p (Switch_read c)))) = written (c_writer p)"
    "written (s_writer (fst (eproxy_step p (Switch_read c)))) = written (s_writer p)"
    "c_session (fst (eproxy_step p (Switch_read c))) = c_session p"
    by (simp_all add: step)
qed

text \<open>After the header of a message with a body the proxy waits for the body, and nothing else has changed.\<close>

lemma body_awaited:
  assumes "wired p" and "ready dispatcher_from_switch (s_session p)" and "well_framed msg" and "length msg \<noteq> 8"
  obtains r where "sess_read (s_session (fst (eproxy_step p (Switch_read (completed (take 8 msg)))))) = Some r"
    "rd_handler r = Handle_read" "rd_offset r = 8" "wired (fst (eproxy_step p (Switch_read (completed (take 8 msg)))))"
    "monitor (fst (eproxy_step p (Switch_read (completed (take 8 msg))))) = monitor p"
    "c_session (fst (eproxy_step p (Switch_read (completed (take 8 msg))))) = c_session p"
    "written (s_writer (fst (eproxy_step p (Switch_read (completed (take 8 msg)))))) = written (s_writer p)"
proof -
  let ?c = "completed (take 8 msg)"
  have first: "sess_read (s_session p) = Some read_header_request" using assms(2) by (simp add: ready_def)
  have outs: "snd (complete onMessage (s_session p) ?c) = []"
    using header_waits [OF first assms(3,4)] .
  let ?r = "\<lparr>rd_offset = 8, rd_length = body_length (store (sess_data (s_session p)) 0 (take 8 msg)),
    rd_handler = Handle_read\<rparr>"
  have read: "sess_read (fst (complete onMessage (s_session p) ?c)) = Some ?r"
    using first assms(4) hdr_of_header_completed [OF assms(3), of "sess_data (s_session p)"]
    by (simp add: complete_def completed_def read_header_request_def handle_read_header_def body_length_zero
        max_length_def Let_def)
  have step: "fst (eproxy_step p (Switch_read ?c)) = p\<lparr>s_session := fst (complete onMessage (s_session p) ?c)\<rparr>"
    using assms(1) outs by (simp add: eproxy_step_def wired_alive split_beta)
  show thesis
    using read wired_step [OF assms(1), of "Switch_read ?c"] by (intro that [of ?r]) (simp_all add: step)
qed

lemma lost_switch_relay:
  assumes "switch_lost p" and "thresh_hold (monitor p) \<noteq> 0"
    and "ready dispatcher_from_controller (c_session p)"
    and "concat (map controller_reads es) = concat (map reads_of cs)" and "list_all well_framed cs"
  shows "written (c_writer (fst (run eproxy_step p es))) = written (c_writer p) \<and>
    (\<exists>zs k. k \<le> 1 \<and> zs \<in> shuffles cs (replicate k (switch_bytes 3)) \<and>
      written (s_writer (fst (run eproxy_step p es))) = written (s_writer p) @ zs)"
proof
  let ?outs = "snd (run eproxy_step p es)"
  have wired: "wired p" using assms(1) by (simp add: switch_lost_def)
  show "written (c_writer (fst (run eproxy_step p es))) = written (c_writer p)"
    using run_log [where I = wired and log = "\<lambda>p. written (c_writer p)" and g = to_controller and
        step = eproxy_step, OF wired wired_step log_to_controller, of es]
      run_readings [where I = wired and g = to_controller and h = dispatched_message and k = from_switch and
        step = eproxy_step, OF wired wired_step controller_gets_dispatched, of es]
      switch_lost_run [OF assms(1), of es]
    by (simp add: List.map_filter_simps)
  let ?k = "triggers (List.map_filter from_monitor ?outs)"
  have "?k \<le> may_trigger (monitor p)"
    using idle_triggers [OF assms(2)] switch_lost_run [OF assms(1), of es] by (simp add: proxy_monitor.run_out)
  then have "?k \<le> 1" by (simp add: may_trigger_def split: if_splits)
  moreover have "List.map_filter to_switch ?outs \<in> shuffles cs (replicate ?k (switch_bytes 3))"
    using switch_shuffle_run [OF wired, of es] controller_outputs_from [OF wired assms(3-5)]
    by (simp add: dispatched_messages migrations_count)
  moreover have "written (s_writer (fst (run eproxy_step p es))) = written (s_writer p) @ List.map_filter to_switch ?outs"
    using run_log [where I = wired and log = "\<lambda>p. written (s_writer p)" and g = to_switch and
        step = eproxy_step, OF wired wired_step log_to_switch] .
  ultimately show "\<exists>zs k. k \<le> 1 \<and> zs \<in> shuffles cs (replicate k (switch_bytes 3)) \<and>
      written (s_writer (fst (run eproxy_step p es))) = written (s_writer p) @ zs" by blast
qed

section \<open>Properties\<close>

text \<open>
  C13. End to end towards the controller: when the transfers on the controller's socket take turns,
  what the controller has received is at every moment a beginning of the bytes the switch sent, and
  from every state the io thread can bring the two to be equal without reading anything more.
\<close>

theorem proxy_relays_stream:
  assumes "concat (map switch_reads es) = concat (map reads_of ms)" and "list_all well_framed ms"
    and "in_turn (eproxy_main s_junk c_junk) es"
  shows "(\<exists>rest. concat ms = stream (c_writer (fst (run eproxy_step (eproxy_main s_junk c_junk) es))) @ rest) \<and>
    (\<exists>fs. concat (map switch_reads fs) = [] \<and> in_turn (eproxy_main s_junk c_junk) (es @ fs) \<and>
      stream (c_writer (fst (run eproxy_step (eproxy_main s_junk c_junk) (es @ fs)))) = concat ms)"
proof
  let ?p = "eproxy_main s_junk c_junk"
  let ?q = "fst (run eproxy_step ?p es)"
  show "\<exists>rest. concat ms = stream (c_writer ?q) @ rest"
    using begun_stream [OF in_turn_main [OF assms(3)]] by (simp add: written_messages [OF assms(1,2)])
  obtain fs where fs: "concat (map switch_reads fs) = []" "in_turn ?q fs"
    "work_left (c_writer (fst (run eproxy_step ?q fs))) = 0"
    using writes_complete [OF wired_run [OF wired_main] in_turn_main [OF assms(3)]] by blast
  have turn: "in_turn ?p (es @ fs)" using assms(3) fs(2) by (simp add: in_turn_append)
  have "concat (map switch_reads (es @ fs)) = concat (map reads_of ms)" using assms(1) fs(1) by simp
  note log = written_messages [OF this assms(2)]
  have "work_left (c_writer (fst (run eproxy_step ?p (es @ fs)))) = 0"
    using fs(3) by (simp add: run_append split_beta)
  then have "stream (c_writer (fst (run eproxy_step ?p (es @ fs)))) = concat ms"
    using finished_stream [OF in_turn_main [OF turn]] by (simp only: log)
  then show "\<exists>fs. concat (map switch_reads fs) = [] \<and> in_turn ?p (es @ fs) \<and>
      stream (c_writer (fst (run eproxy_step ?p (es @ fs)))) = concat ms"
    using fs(1) turn by blast
qed

theorem proxy_relays_stream_witness:
  "\<exists>rest. concat sample_messages = stream (c_writer (fst (run eproxy_step (eproxy_main (\<lambda>_. 0) (\<lambda>_. 1))
      (sample_events @ [Write_move C_session 0 5])))) @ rest"
  using proxy_relays_stream [of "sample_events @ [Write_move C_session 0 5]" sample_messages "\<lambda>_. 0" "\<lambda>_. 1"]
  by (simp add: sample_events_def sample_messages_def reads_of_def well_framed_def takes_turn_def
      done_before_def del: run.simps)

text \<open>
  C12. One sampling period of the running proxy, with whatever the two sessions read and the io thread
  writes meanwhile: the switch is sent the controller's messages and, exactly if the packet-ins among
  its own messages reached the threshold (modulo \<open>2 ^ 32\<close>), one flow modification among them.
\<close>

theorem overload_migrates:
  assumes "wired p" and "worker (monitor p) = At_reset" and "no_worker es"
    and "ready dispatcher_from_switch (s_session p)" and "ready dispatcher_from_controller (c_session p)"
    and "concat (map switch_reads es) = concat (map reads_of ms)" and "list_all well_framed ms"
    and "concat (map controller_reads es) = concat (map reads_of cs)" and "list_all well_framed cs"
  shows "\<exists>zs. zs \<in> shuffles cs
      (if unat (thresh_hold (monitor p)) \<le> length (filter is_packet_in ms) mod 2 ^ 32 then [switch_bytes 3] else []) \<and>
    written (s_writer (fst (run eproxy_step p (period_events junk es)))) = written (s_writer p) @ zs"
proof (intro exI conjI)
  let ?outs = "snd (run eproxy_step p (period_events junk es))"
  have reads: "concat (map switch_reads (period_events junk es)) = concat (map reads_of ms)"
    "concat (map controller_reads (period_events junk es)) = concat (map reads_of cs)"
    using assms(6,8) by (simp_all add: period_events_def)
  show "written (s_writer (fst (run eproxy_step p (period_events junk es)))) =
      written (s_writer p) @ List.map_filter to_switch ?outs"
    using run_log [where I = wired and log = "\<lambda>p. written (s_writer p)" and g = to_switch and
        step = eproxy_step, OF assms(1) wired_step log_to_switch] .
  show "List.map_filter to_switch ?outs \<in> shuffles cs
      (if unat (thresh_hold (monitor p)) \<le> length (filter is_packet_in ms) mod 2 ^ 32 then [switch_bytes 3] else [])"
    using switch_shuffle_run [OF assms(1), of "period_events junk es"]
      controller_outputs_from [OF assms(1,5) reads(2) assms(9)]
      period_triggers_once [OF assms(1,2,3,4,6,7)]
    by (simp add: dispatched_messages migrations_count split: if_splits)
qed

text \<open>A switch that sends ten packet-ins in the first period, and a greeting from the controller.\<close>

theorem overload_migrates_witness:
  "\<exists>zs. zs \<in> shuffles [header_bytes 4 0 8 1] [switch_bytes 3] \<and>
    written (s_writer (fst (run eproxy_step
      (fst (eproxy_step (eproxy_main (\<lambda>_. 0) (\<lambda>_. 1)) (Worker_step (\<lambda>_. 0))))
      (period_events (\<lambda>_. 0) (Controller_read (completed (header_bytes 4 0 8 1)) #
        replicate 10 (Switch_read (completed (header_bytes 4 10 8 2)))))))) = zs"
proof -
  let ?m = "eproxy_main (\<lambda>_. 0) (\<lambda>_. 1)" and ?w = "Worker_step (\<lambda>_. 0)"
  let ?p = "fst (eproxy_step ?m ?w)"
  let ?es = "Controller_read (completed (header_bytes 4 0 8 1)) #
    replicate 10 (Switch_read (completed (header_bytes 4 10 8 2)))"
  have p: "wired ?p" by (rule wired_step [OF wired_main])
  have start: "monitor ?p = fst (monitor_step (monitor ?m) Ev_worker)" "s_session ?p = s_session ?m"
    "c_session ?p = c_session ?m"
    using wired_main [of "\<lambda>_. 0" "\<lambda>_. 1"] by (simp_all add: eproxy_step_def wired_alive)
  have mon: "worker (monitor ?p) = At_reset" "thresh_hold (monitor ?p) = 10"
    by (simp_all add: start(1), simp_all add: eproxy_main_def monitor_defs set_follow_action_def set_trigger_action_def)
  have quiet: "written (s_writer ?p) = []"
    using log_to_switch [OF wired_main, of "\<lambda>_. 0" "\<lambda>_. 1" ?w] start(1)
    by (simp add: eproxy_step_def eproxy_main_def monitor_defs set_follow_action_def set_trigger_action_def
        written_def new_writer_def monitor_does_def)
  have ms: "concat (map switch_reads ?es) = concat (map reads_of (replicate 10 (header_bytes 4 10 8 2)))"
    "concat (map controller_reads ?es) = concat (map reads_of [header_bytes 4 0 8 1])"
    "list_all well_framed (replicate 10 (header_bytes 4 10 8 2))" "list_all well_framed [header_bytes 4 0 8 1]"
    "no_worker ?es" "length (filter is_packet_in (replicate 10 (header_bytes 4 10 8 2))) = 10"
    by (simp_all add: reads_of_def well_framed_def no_worker_def is_packet_in_def list_all_iff filter_replicate)
  show ?thesis
    using overload_migrates [OF p mon(1) ms(5) _ _ ms(1,3,2,4), of "\<lambda>_. 0"] ready_main [of "\<lambda>_. 0" "\<lambda>_. 1"] mon(2) ms(6) quiet
    by (simp add: start(2,3))
qed

text \<open>
  C22. A failed read on one side is not noticed by the other. When the read of a message's body from
  the switch completes with an error, nothing more is written to the controller from then on, whatever
  completes on that socket later, while every message of the controller is still written to the
  switch, with at most one more flow modification of the migrator among them.
\<close>

theorem half_open_relay:
  assumes "wired p" and "sess_read (s_session p) = Some r" and "rd_handler r = Handle_read"
    and "c_error c" and "rd_offset r + length (c_bytes c) \<le> max_length" and "thresh_hold (monitor p) \<noteq> 0"
    and "ready dispatcher_from_controller (c_session p)"
    and "concat (map controller_reads es) = concat (map reads_of cs)" and "list_all well_framed cs"
  shows "written (c_writer (fst (run eproxy_step p (Switch_read c # es)))) = written (c_writer p) \<and>
    (\<exists>zs k. k \<le> 1 \<and> zs \<in> shuffles cs (replicate k (switch_bytes 3)) \<and>
      written (s_writer (fst (run eproxy_step p (Switch_read c # es)))) = written (s_writer p) @ zs)"
proof -
  let ?q = "fst (eproxy_step p (Switch_read c))"
  note failed = switch_read_fails [OF assms(1-5)]
  have "thresh_hold (monitor ?q) \<noteq> 0" "ready dispatcher_from_controller (c_session ?q)"
    using assms(6,7) by (simp_all add: failed(2,5))
  note relay = lost_switch_relay [OF failed(1) this assms(8,9)]
  then show ?thesis by (simp add: failed(3,4) fst_run_Cons del: run.simps)
qed

text \<open>
  A switch that announces an echo request of nine bytes and disconnects before the ninth; then the
  worker wakes up, the socket of the switch completes once more, and the controller says hello.
\<close>

theorem half_open_relay_witness:
  "\<exists>zs k. k \<le> 1 \<and> zs \<in> shuffles [header_bytes 4 0 8 1] (replicate k (switch_bytes 3)) \<and>
    written (s_writer (fst (run eproxy_step (eproxy_main (\<lambda>_. 0) (\<lambda>_. 1))
      [Switch_read (completed (header_bytes 4 2 9 7)), Switch_read \<lparr>c_error = True, c_bytes = []\<rparr>,
       Worker_step (\<lambda>_. 0), Switch_read (completed [1]), Controller_read (completed (header_bytes 4 0 8 1))]))) = zs"
proof -
  let ?m = "eproxy_main (\<lambda>_. 0) (\<lambda>_. 1)" and ?h = "completed (header_bytes 4 2 9 7)"
  let ?f = "\<lparr>c_error = True, c_bytes = []\<rparr>"
  let ?es = "[Worker_step (\<lambda>_. 0), Switch_read (completed [1]), Controller_read (completed (header_bytes 4 0 8 1))]"
  let ?p = "fst (eproxy_step ?m (Switch_read ?h))"
  have msg: "well_framed (header_bytes 4 2 9 7 @ [1])" "take 8 (header_bytes 4 2 9 7 @ [1]) = header_bytes 4 2 9 7"
    by (simp_all add: well_framed_def)
  obtain r where r: "sess_read (s_session ?p) = Some r" "rd_handler r = Handle_read" "rd_offset r = 8"
    and p: "wired ?p" "monitor ?p = monitor ?m" "c_session ?p = c_session ?m"
      "written (s_writer ?p) = written (s_writer ?m)"
    using body_awaited [OF wired_main ready_main(1) msg(1), of "\<lambda>_. 0" "\<lambda>_. 1"] msg(2) by auto
  have "thresh_hold (monitor ?p) \<noteq> 0"
    by (simp add: p(2), simp add: eproxy_main_def monitor_defs set_follow_action_def set_trigger_action_def)
  moreover have "ready dispatcher_from_controller (c_session ?p)"
    using ready_main(2) [of "\<lambda>_. 0" "\<lambda>_. 1"] by (simp add: p(3))
  moreover have "concat (map controller_reads ?es) = concat (map reads_of [header_bytes 4 0 8 1])"
    "list_all well_framed [header_bytes 4 0 8 1]"
    by (simp_all add: reads_of_def well_framed_def)
  moreover have "rd_offset r + length (c_bytes ?f) \<le> max_length" "c_error ?f"
    by (simp_all add: r(3) max_length_def)
  ultimately have "\<exists>zs k. k \<le> 1 \<and> zs \<in> shuffles [header_bytes 4 0 8 1] (replicate k (switch_bytes 3)) \<and>
      written (s_writer (fst (run eproxy_step ?p (Switch_read ?f # ?es)))) = zs"
    using half_open_relay [OF p(1) r(1,2), of ?f ?es "[header_bytes 4 0 8 1]"]
    by (simp add: p(4) empty_logs del: run.simps)
  then show ?thesis by (simp add: fst_run_Cons del: run.simps)
qed

text \<open>
  C26. What a switch that disconnects does to the controller: when its last message was only a header,
  say an echo request, every failing read of the next header writes that message to the controller
  once more and starts the next read, without end.
\<close>

theorem disconnect_floods_controller:
  assumes "wired p" and "ready dispatcher_from_switch (s_session p)"
    and "load (sess_data (s_session p)) 0 8 = msg" and "well_framed msg"
  shows "written (c_writer (fst (run eproxy_step p (replicate n (Switch_read \<lparr>c_error = True, c_bytes = []\<rparr>))))) =
    written (c_writer p) @ replicate n msg"
proof -
  let ?f = "\<lparr>c_error = True, c_bytes = []\<rparr>"
  let ?es = "replicate n (Switch_read ?f)"
  have "events_along eproxy_step (\<lambda>p e. if stopped p then [] else switch_reads e) p ?es = concat (map switch_reads ?es)"
    by (rule events_along_const [where I = wired, OF assms(1) wired_step]) (simp_all add: wired_alive)
  moreover have "concat (map switch_reads ?es) = replicate n ?f" by (induction n) simp_all
  ultimately have "List.map_filter from_switch (snd (run eproxy_step p ?es)) =
      replicate n (Dispatched (Call (switch_callback msg) msg))"
    using switch_reader.run_out [of p ?es] stale_header [OF assms(2,3,4) route_switch, of n] by simp
  then have "List.map_filter from_switch (snd (run eproxy_step p ?es)) =
      map (\<lambda>msg. Dispatched (Call (switch_callback msg) msg)) (replicate n msg)"
    by (simp add: map_replicate)
  then show ?thesis
    using run_log [where I = wired and log = "\<lambda>p. written (c_writer p)" and g = to_controller and
        step = eproxy_step, OF assms(1) wired_step log_to_controller, of ?es]
      run_readings [where I = wired and g = to_controller and h = dispatched_message and k = from_switch and
        step = eproxy_step, OF assms(1) wired_step controller_gets_dispatched, of ?es]
    by (simp only: dispatched_messages)
qed

theorem disconnect_floods_controller_witness:
  "written (c_writer (fst (run eproxy_step
      (eproxy_main (mem_of (header_bytes 4 2 8 1)) (\<lambda>_. 0))
      (replicate 3 (Switch_read \<lparr>c_error = True, c_bytes = []\<rparr>))))) = replicate 3 (header_bytes 4 2 8 1)"
proof -
  let ?p = "eproxy_main (mem_of (header_bytes 4 2 8 1)) (\<lambda>_. 0)"
  have "sess_data (s_session ?p) = mem_of (header_bytes 4 2 8 1)"
    by (simp add: eproxy_main_def session_start_def session_read_def listen_def set_dispatcher_def new_session_def)
  then have "load (sess_data (s_session ?p)) 0 8 = header_bytes 4 2 8 1"
    using load_mem_of_all [of "header_bytes 4 2 8 1"] by simp
  from disconnect_floods_controller [OF wired_main ready_main(1) this, of 3] show ?thesis
    by (simp add: empty_logs well_framed_def)
qed

end
