(* ===== verification/Eproxy_Ovs.thy ===== *)
theory Eproxy_Ovs imports Eproxy begin

text \<open>
  \<open>eproxy.cpp\<close> built with \<open>OVS_ASSIST\<close>: a third session, on which an Open vSwitch helps out, joins the
  proxy. Its messages go to the controller and nothing is ever written to it, so it has a reading
  half only. The state is the plain proxy's with that session; an event is one of the plain proxy's
  or a completed read of the OVS session.
\<close>

section \<open>State and steps\<close>

record eproxy_ovs =
  base :: eproxy
  ovs_session :: "callback dispatcher session"

definition dispatcher_from_ovs :: "callback dispatcher" where
  "dispatcher_from_ovs = setDefaultCallback (Some (Session_write C_session)) new_dispatcher"

definition eproxy_ovs_main :: "mem \<Rightarrow> mem \<Rightarrow> mem \<Rightarrow> eproxy_ovs" where
  "eproxy_ovs_main s_junk c_junk ovs_junk =
     \<lparr>base = eproxy_main s_junk c_junk,
      ovs_session = session_start (listen 9001 ''127.0.0.1''
        (set_dispatcher dispatcher_from_ovs (new_session ''ovs_session'' ovs_junk)))\<rparr>"

datatype ovs_event = Base eproxy_event | Ovs_read completion
datatype ovs_out = Base_out eproxy_out | From_ovs "callback action session_out"

definition ovs_step :: "eproxy_ovs \<Rightarrow> ovs_event \<Rightarrow> eproxy_ovs \<times> ovs_out list" where
  "ovs_step p e =
     (if stopped (base p) then (p, [])
      else case e of
             Base e' \<Rightarrow> (case eproxy_step (base p) e' of (b, os) \<Rightarrow> (p\<lparr>base := b\<rparr>, map Base_out os))
           | Ovs_read c \<Rightarrow>
               (case complete onMessage (ovs_session p) c of
                  (s, xs) \<Rightarrow> let (b, os) = run (\<lambda>p x. session_effect x p) (base p) xs
                             in (p\<lparr>base := b, ovs_session := s\<rparr>, map From_ovs xs @ map Base_out os)))"

fun base_events :: "ovs_event \<Rightarrow> eproxy_event list" where
  "base_events (Base e) = [e]" | "base_events (Ovs_read c) = []"

fun ovs_reads :: "ovs_event \<Rightarrow> completion list" where
  "ovs_reads (Base e) = []" | "ovs_reads (Ovs_read c) = [c]"

fun base_out :: "ovs_out \<Rightarrow> eproxy_out option" where
  "base_out (Base_out x) = Some x" | "base_out (From_ovs x) = None"

fun from_ovs :: "ovs_out \<Rightarrow> callback action session_out option" where
  "from_ovs (From_ovs x) = Some x" | "from_ovs (Base_out x) = None"

lemma map_filter_ovs [simp]:
  "List.map_filter base_out (map Base_out xs) = xs" "List.map_filter base_out (map From_ovs ys) = []"
  "List.map_filter from_ovs (map Base_out xs) = []" "List.map_filter from_ovs (map From_ovs ys) = ys"
  by (simp_all add: List.map_filter_def o_def filter_True filter_False)

interpretation ovs_reader:
  projection ovs_step "complete onMessage" ovs_session "\<lambda>p e. if stopped (base p) then [] else ovs_reads e" from_ovs
proof unfold_locales
  fix p e
  show "ovs_session (fst (ovs_step p e)) =
      fst (run (complete onMessage) (ovs_session p) (if stopped (base p) then [] else ovs_reads e))"
    and "List.map_filter from_ovs (snd (ovs_step p e)) =
      snd (run (complete onMessage) (ovs_session p) (if stopped (base p) then [] else ovs_reads e))"
    by (cases e; simp add: ovs_step_def split_beta map_filter_append List.map_filter_simps)+
qed

section \<open>What a message of the OVS does\<close>

definition wired_ovs :: "eproxy_ovs \<Rightarrow> bool" where
  "wired_ovs p \<longleftrightarrow> wired (base p) \<and> sess_dispatcher (ovs_session p) = Some dispatcher_from_ovs"

lemma route_ovs: "route dispatcher_from_ovs msg = Inr (Call (Session_write C_session) msg)"
  by (simp add: route_def callback_for_def dispatcher_from_ovs_def setDefaultCallback_def new_dispatcher_def)

lemma onMessage_ovs: "\<exists>msg. onMessage dispatcher_from_ovs m = Inr (Call (Session_write C_session) msg)"
  by (simp add: onMessage_def dispatcher_from_ovs_def setDefaultCallback_def new_dispatcher_def
      invoke_def Let_def)

lemma ovs_outputs:
  assumes "wired_ovs p"
  shows "snd (complete onMessage (ovs_session p) c) \<in> {[], [Read_failed], [Overrun]} \<or>
    (\<exists>msg. snd (complete onMessage (ovs_session p) c) = [Dispatched (Call (Session_write C_session) msg)])"
proof -
  have "sess_dispatcher (ovs_session p) = Some dispatcher_from_ovs" using assms by (simp add: wired_ovs_def)
  note outs = complete_outputs(2) [OF this, of onMessage c]
  show ?thesis
    using outs onMessage_ovs by (elim disjE exE conjE) (simp, metis Inl_Inr_False, metis Inr_inject)
qed

text \<open>The two kinds of steps.\<close>

lemma ovs_step_cases:
  assumes "wired_ovs p"
  obtains
    (base) e' where "e = Base e'" "base (fst (ovs_step p e)) = fst (eproxy_step (base p) e')"
      "snd (ovs_step p e) = map Base_out (snd (eproxy_step (base p) e'))"
  | (quiet) c where "e = Ovs_read c" "base (fst (ovs_step p e)) = base p"
      "snd (ovs_step p e) \<in> {[], [From_ovs Read_failed], [From_ovs Overrun]}"
  | (relayed) c msg where "e = Ovs_read c" "base (fst (ovs_step p e)) = write_to C_session msg (base p)"
      "snd (ovs_step p e) = [From_ovs (Dispatched (Call (Session_write C_session) msg))]"
proof (cases e)
  case (Base e')
  with assms show thesis by (intro base [of e']) (simp_all add: ovs_step_def wired_ovs_def wired_alive split_beta)
next
  case (Ovs_read c)
  note unfolds = Ovs_read ovs_step_def wired_ovs_def wired_alive split_beta session_effect_def call_back_def Let_def
  from ovs_outputs [OF assms, of c] consider
      "snd (complete onMessage (ovs_session p) c) \<in> {[], [Read_failed], [Overrun]}"
    | msg where "snd (complete onMessage (ovs_session p) c) = [Dispatched (Call (Session_write C_session) msg)]"
    by blast
  then show thesis
  proof cases
    case 1
    then show thesis using assms by (intro quiet [of c]) (auto simp: unfolds)
  next
    case (2 msg)
    then show thesis using assms by (intro relayed [of c msg]) (simp_all add: unfolds)
  qed
qed

lemma wired_write_to: "wired p \<Longrightarrow> wired (write_to d msg p)"
  by (simp add: wired_def)

lemma wired_ovs_step:
  assumes "wired_ovs p"
  shows "wired_ovs (fst (ovs_step p e))"
proof -
  have "sess_dispatcher (ovs_session (fst (ovs_step p e))) = Some dispatcher_from_ovs"
    using assms complete_outputs(1) [of "ovs_session p" dispatcher_from_ovs onMessage]
    by (cases e) (simp_all add: ovs_reader.own_step wired_ovs_def split_beta)
  moreover have "wired (base (fst (ovs_step p e)))"
    using assms
    by (cases rule: ovs_step_cases [OF assms, of e])
      (simp_all add: wired_ovs_def wired_step wired_write_to)
  ultimately show ?thesis by (simp add: wired_ovs_def)
qed

lemma wired_ovs_main: "wired_ovs (eproxy_ovs_main s_junk c_junk ovs_junk)"
  by (simp add: wired_ovs_def eproxy_ovs_main_def wired_main session_start_def session_read_def listen_def
      set_dispatcher_def)

section \<open>The plain proxy inside the assisted one\<close>

text \<open>Two proxies that differ at most in what they write to the controller.\<close>

definition agree :: "eproxy \<Rightarrow> eproxy \<Rightarrow> bool" where
  "agree p q \<longleftrightarrow> s_session p = s_session q \<and> c_session p = c_session q \<and> s_writer p = s_writer q \<and>
     monitor p = monitor q \<and> migrator p = migrator q \<and> stopped p = stopped q"

named_theorems agreeing "operations of the proxy take agreeing states to agreeing states"

lemma agree_refl [simp]: "agree p p"
  by (simp add: agree_def)

lemma agree_write_to [agreeing]: "agree p q \<Longrightarrow> agree (write_to d msg p) (write_to d msg q)"
  by (simp add: agree_def write_to_def split: endpoint.split)

lemma agree_on_writer [agreeing]: "agree p q \<Longrightarrow> agree (on_writer d f p) (on_writer d f q)"
  by (simp add: agree_def on_writer_def split: endpoint.split)

lemma agree_updates [agreeing]:
  "agree p q \<Longrightarrow> agree (p\<lparr>stopped := b\<rparr>) (q\<lparr>stopped := b\<rparr>)"
  "agree p q \<Longrightarrow> agree (p\<lparr>monitor := m\<rparr>) (q\<lparr>monitor := m\<rparr>)"
  "agree p q \<Longrightarrow> agree (p\<lparr>s_session := s\<rparr>) (q\<lparr>s_session := s\<rparr>)"
  "agree p q \<Longrightarrow> agree (p\<lparr>c_session := s\<rparr>) (q\<lparr>c_session := s\<rparr>)"
  by (simp_all add: agree_def)

lemma agree_migrator: "agree p q \<Longrightarrow> migrator p = migrator q"
  by (simp add: agree_def)

lemma agree_effect [agreeing]: "agree p q \<Longrightarrow> agree (monitor_effect junk p x) (monitor_effect junk q x)"
  using agree_migrator [of p q]
  by (cases x) (simp_all add: monitor_effect_def switch_path_def agreeing split: trigger.split)

lemma agree_effects [agreeing]:
  "agree p q \<Longrightarrow> agree (foldl (monitor_effect junk) p os) (foldl (monitor_effect junk) q os)"
  by (induction os arbitrary: p q) (simp_all add: agree_effect)

lemma agree_does [agreeing]:
  assumes "agree p q"
  shows "agree (fst (monitor_does junk p e)) (fst (monitor_does junk q e))"
proof -
  have "monitor p = monitor q" using assms by (simp add: agree_def)
  then show ?thesis
    using assms by (simp add: monitor_does_def split_beta agree_effects agree_updates)
qed

lemma agree_session_effect [agreeing]:
  "agree p q \<Longrightarrow> agree (fst (session_effect x p)) (fst (session_effect x q))"
  by (simp add: session_effect_def call_back_def agreeing split: session_out.split action.split callback.split)

lemma agree_session_effects [agreeing]:
  "agree p q \<Longrightarrow> agree (fst (session_effects p xs)) (fst (session_effects q xs))"
  by (induction xs arbitrary: p q) (simp_all add: fst_run_Cons agree_session_effect del: run.simps(2))

lemma agree_step:
  assumes "agree p q"
  shows "agree (fst (eproxy_step p e)) (fst (eproxy_step q e))" and "snd (eproxy_step p e) = snd (eproxy_step q e)"
proof -
  have eqs: "stopped p = stopped q" "s_session p = s_session q" "c_session p = c_session q" "monitor p = monitor q"
    using assms by (simp_all add: agree_def)
  show "agree (fst (eproxy_step p e)) (fst (eproxy_step q e))"
    using assms by (cases e) (simp_all add: eproxy_step_def split_beta Let_def eqs agreeing)
  show "snd (eproxy_step p e) = snd (eproxy_step q e)"
    by (cases e) (simp_all add: eproxy_step_def split_beta Let_def eqs session_effects_monitor)
qed

lemma agree_write_controller: "agree p q \<Longrightarrow> agree (write_to C_session msg p) q"
  by (simp add: agree_def write_to_def)

text \<open>Without the OVS reads, step by step.\<close>

lemma agree_run:
  "wired_ovs p \<Longrightarrow> agree (base p) q \<Longrightarrow>
   agree (base (fst (run ovs_step p es))) (fst (run eproxy_step q (concat (map base_events es)))) \<and>
   List.map_filter base_out (snd (run ovs_step p es)) = snd (run eproxy_step q (concat (map base_events es)))"
proof (induction es arbitrary: p q)
  case (Cons e es)
  show ?case
  proof (cases rule: ovs_step_cases [OF Cons.prems(1), of e])
    case (1 e')
    then have "agree (base (fst (ovs_step p e))) (fst (eproxy_step q e'))"
      using Cons.prems(2) by (simp add: agree_step)
    from Cons.IH [OF wired_ovs_step [OF Cons.prems(1)] this] show ?thesis
      using 1 agree_step(2) [OF Cons.prems(2)]
      by (simp add: fst_run_Cons snd_run_Cons map_filter_append del: run.simps(2))
  next
    case (2 c)
    then show ?thesis
      using Cons.IH [OF wired_ovs_step [OF Cons.prems(1)], of e q] Cons.prems(2)
      by (auto simp: fst_run_Cons snd_run_Cons map_filter_append List.map_filter_simps simp del: run.simps(2))
  next
    case (3 c msg)
    then show ?thesis
      using Cons.IH [OF wired_ovs_step [OF Cons.prems(1)], of e q] agree_write_controller [OF Cons.prems(2)]
      by (simp add: fst_run_Cons snd_run_Cons map_filter_append List.map_filter_simps del: run.simps(2))
  qed
qed (simp add: List.map_filter_simps)

section \<open>What the controller gets\<close>

lemma controller_shuffle_run:
  "wired_ovs p \<Longrightarrow> \<exists>zs. zs \<in> shuffles
      (List.map_filter to_controller (List.map_filter base_out (snd (run ovs_step p es))))
      (List.map_filter dispatched_message (List.map_filter from_ovs (snd (run ovs_step p es)))) \<and>
    written (c_writer (base (fst (run ovs_step p es)))) = written (c_writer (base p)) @ zs"
proof (induction es arbitrary: p)
  case (Cons e es)
  let ?q = "fst (ovs_step p e)" and ?os = "snd (ovs_step p e)"
  have "\<exists>z. z \<in> shuffles (List.map_filter to_controller (List.map_filter base_out ?os))
        (List.map_filter dispatched_message (List.map_filter from_ovs ?os)) \<and>
      written (c_writer (base ?q)) = written (c_writer (base p)) @ z"
    using log_to_controller [of "base p"] Cons.prems
    by (cases rule: ovs_step_cases [OF Cons.prems, of e])
      (auto simp: dispatched_message_def List.map_filter_simps wired_ovs_def)
  then obtain z where z: "z \<in> shuffles (List.map_filter to_controller (List.map_filter base_out ?os))
      (List.map_filter dispatched_message (List.map_filter from_ovs ?os))"
    "written (c_writer (base ?q)) = written (c_writer (base p)) @ z" by blast
  obtain zs where "zs \<in> shuffles (List.map_filter to_controller (List.map_filter base_out (snd (run ovs_step ?q es))))
      (List.map_filter dispatched_message (List.map_filter from_ovs (snd (run ovs_step ?q es))))"
    "written (c_writer (base (fst (run ovs_step ?q es)))) = written (c_writer (base ?q)) @ zs"
    using Cons.IH [OF wired_ovs_step [OF Cons.prems]] by blast
  with z show ?case
    by (intro exI [of _ "z @ zs"])
      (simp add: fst_run_Cons snd_run_Cons map_filter_append append_in_shuffles del: run.simps)
qed (simp add: List.map_filter_simps)

lemma ovs_outputs_run:
  assumes "concat (map ovs_reads es) = concat (map reads_of ms)" and "list_all well_framed ms"
  shows "List.map_filter from_ovs (snd (run ovs_step (eproxy_ovs_main s_junk c_junk ovs_junk) es)) =
    map (\<lambda>msg. Dispatched (Call (Session_write C_session) msg)) ms"
proof -
  let ?p = "eproxy_ovs_main s_junk c_junk ovs_junk"
  have ready: "ready dispatcher_from_ovs (ovs_session ?p)"
    by (simp add: eproxy_ovs_main_def ready_def session_start_def session_read_def listen_def set_dispatcher_def)
  have "events_along ovs_step (\<lambda>p e. if stopped (base p) then [] else ovs_reads e) ?p es = concat (map ovs_reads es)"
    by (rule events_along_const [where I = wired_ovs, OF wired_ovs_main wired_ovs_step])
      (simp_all add: wired_ovs_def wired_alive)
  moreover have "snd (run (complete onMessage) (ovs_session ?p) (concat (map reads_of ms))) =
      map Dispatched (map (\<lambda>msg. Call (Session_write C_session) msg) ms)"
    using dispatch.frame_all [OF ready, of ms "map (\<lambda>msg. Call (Session_write C_session) msg) ms"] assms(2)
    by (auto simp: route_ovs list_all_iff o_def)
  ultimately show ?thesis
    using ovs_reader.run_out [of ?p es] assms(1) by (simp add: o_def)
qed

lemma base_outputs_run:
  "List.map_filter base_out (snd (run ovs_step (eproxy_ovs_main s_junk c_junk ovs_junk) es)) =
    snd (run eproxy_step (eproxy_main s_junk c_junk) (concat (map base_events es)))"
  using agree_run [OF wired_ovs_main, of s_junk c_junk ovs_junk "eproxy_main s_junk c_junk" es]
  by (simp add: eproxy_ovs_main_def)

lemma controller_messages_run:
  assumes "concat (map switch_reads es) = concat (map reads_of ms)" and "list_all well_framed ms"
  shows "List.map_filter to_controller (snd (run eproxy_step (eproxy_main s_junk c_junk) es)) = ms"
  using run_readings [where I = wired and g = to_controller and h = dispatched_message and k = from_switch and
      step = eproxy_step, OF wired_main wired_step controller_gets_dispatched, of s_junk c_junk es]
    switch_outputs_run [OF assms]
  by (simp add: dispatched_messages)

section \<open>Properties\<close>

text \<open>
  C14. Towards the switch the two builds are the same program: whatever the OVS sends and whenever it
  is read, the assisted proxy reads, dispatches, counts, migrates and writes to the switch exactly as
  the plain proxy does on the remaining events; the states agree in everything but what has been
  written to the controller.
\<close>

theorem ovs_equivalence:
  "agree (base (fst (run ovs_step (eproxy_ovs_main s_junk c_junk ovs_junk) es)))
     (fst (run eproxy_step (eproxy_main s_junk c_junk) (concat (map base_events es)))) \<and>
   List.map_filter base_out (snd (run ovs_step (eproxy_ovs_main s_junk c_junk ovs_junk) es)) =
     snd (run eproxy_step (eproxy_main s_junk c_junk) (concat (map base_events es)))"
  using agree_run [OF wired_ovs_main, of s_junk c_junk ovs_junk "eproxy_main s_junk c_junk" es]
  by (simp add: eproxy_ovs_main_def)

text \<open>
  C15. Towards the controller the assisted proxy merges two streams: what it writes is a shuffle of
  the switch's messages and the OVS's messages, each in its order, complete and unchanged.
\<close>

theorem ovs_controller_shuffle:
  assumes "concat (map switch_reads (concat (map base_events es))) = concat (map reads_of ms)"
    and "list_all well_framed ms"
    and "concat (map ovs_reads es) = concat (map reads_of vs)" and "list_all well_framed vs"
  shows "written (c_writer (base (fst (run ovs_step (eproxy_ovs_main s_junk c_junk ovs_junk) es)))) \<in> shuffles ms vs"
proof -
  let ?p = "eproxy_ovs_main s_junk c_junk ovs_junk"
  have "written (c_writer (base ?p)) = []" by (simp add: eproxy_ovs_main_def empty_logs)
  then show ?thesis
    using controller_shuffle_run [OF wired_ovs_main, of s_junk c_junk ovs_junk es]
      ovs_outputs_run [OF assms(3,4), of s_junk c_junk ovs_junk] base_outputs_run [of s_junk c_junk ovs_junk es]
      controller_messages_run [OF assms(1,2), of s_junk c_junk]
    by (simp add: dispatched_messages)
qed

theorem ovs_controller_shuffle_witness:
  "written (c_writer (base (fst (run ovs_step (eproxy_ovs_main (\<lambda>_. 0) (\<lambda>_. 1) (\<lambda>_. 2))
      (Ovs_read (completed (header_bytes 4 3 8 9)) # map Base sample_events))))) \<in>
    shuffles sample_messages [header_bytes 4 3 8 9]"
proof (rule ovs_controller_shuffle)
  have "concat (map base_events (map Base es)) = es" and "concat (map ovs_reads (map Base es)) = []" for es
    by (induction es) simp_all
  then show "concat (map switch_reads (concat (map base_events
      (Ovs_read (completed (header_bytes 4 3 8 9)) # map Base sample_events)))) = concat (map reads_of sample_messages)"
    and "concat (map ovs_reads (Ovs_read (completed (header_bytes 4 3 8 9)) # map Base sample_events)) =
      concat (map reads_of [header_bytes 4 3 8 9])"
    by (simp_all add: sample_events_def sample_messages_def reads_of_def)
qed (simp_all add: sample_messages_def well_framed_def)

end
