(* ===== verification/Relay_Spec.thy ===== *)
theory Relay_Spec imports OpenFlow_Message begin

text \<open>
  What the proxy is meant to be, without sessions, threads or buffers: a relay that takes the messages
  of the switch below, of the controller above and of the OVS beside it from three queues, in order,
  and passes each on, whole, to the log it belongs to; it counts part of what it passes up and may
  put a detour message into the lower log, but only for enough counted messages, each of which pays
  for one detour at most. The locale \<open>forward_simulation\<close> carries what is proved of the relay to a
  program that simulates it.
\<close>

section \<open>The relay\<close>

text \<open>\<open>fresh\<close>: the messages counted since the last detour or period.\<close>

record relay =
  below :: "message list"
  above :: "message list"
  beside :: "message list"
  up :: "message list"
  down :: "message list"
  detours :: nat
  fresh :: nat

definition new_relay :: "message list \<Rightarrow> message list \<Rightarrow> message list \<Rightarrow> relay" where
  "new_relay ms cs vs = \<lparr>below = ms, above = cs, beside = vs, up = [], down = [], detours = 0, fresh = 0\<rparr>"

inductive relay_step :: "nat \<Rightarrow> (message \<Rightarrow> bool) \<Rightarrow> message \<Rightarrow> relay \<Rightarrow> relay \<Rightarrow> bool"
  for threshold counts detour where
  pass_up: "below r = msg # rest \<Longrightarrow> relay_step threshold counts detour r
     (r\<lparr>below := rest, up := up r @ [msg], fresh := (if counts msg then fresh r + 1 else fresh r)\<rparr>)"
| pass_aside: "beside r = msg # rest \<Longrightarrow> relay_step threshold counts detour r
     (r\<lparr>beside := rest, up := up r @ [msg]\<rparr>)"
| pass_down: "above r = msg # rest \<Longrightarrow> relay_step threshold counts detour r
     (r\<lparr>above := rest, down := down r @ [msg]\<rparr>)"
| new_period: "relay_step threshold counts detour r (r\<lparr>fresh := 0\<rparr>)"
| take_detour: "threshold \<le> fresh r \<Longrightarrow> relay_step threshold counts detour r
     (r\<lparr>down := down r @ [detour], detours := detours r + 1, fresh := 0\<rparr>)"

inductive_cases relay_stepE: "relay_step threshold counts detour r r'"

text \<open>The states of a relay that was given the messages \<open>ms\<close>, \<open>cs\<close> and \<open>vs\<close>.\<close>

inductive relay_reach ::
    "nat \<Rightarrow> (message \<Rightarrow> bool) \<Rightarrow> message \<Rightarrow> message list \<Rightarrow> message list \<Rightarrow> message list \<Rightarrow> relay \<Rightarrow> bool"
  for threshold counts detour ms cs vs where
  at_start: "relay_reach threshold counts detour ms cs vs (new_relay ms cs vs)"
| after_step: "relay_reach threshold counts detour ms cs vs r \<Longrightarrow> relay_step threshold counts detour r r' \<Longrightarrow>
     relay_reach threshold counts detour ms cs vs r'"

text \<open>
  What a relay does: its upper log shuffles the messages it has taken from below and from beside, its
  lower log those taken from above and the detours.
\<close>

definition relayed :: "message \<Rightarrow> message list \<Rightarrow> message list \<Rightarrow> message list \<Rightarrow> relay \<Rightarrow> bool" where
  "relayed detour ms cs vs r \<longleftrightarrow> (\<exists>ms' cs' vs'. ms = ms' @ below r \<and> cs = cs' @ above r \<and> vs = vs' @ beside r \<and>
     up r \<in> shuffles ms' vs' \<and> down r \<in> shuffles cs' (replicate (detours r) detour))"

lemma shuffles_snoc:
  "zs \<in> shuffles xs ys \<Longrightarrow> zs @ [z] \<in> shuffles (xs @ [z]) ys"
  "zs \<in> shuffles xs ys \<Longrightarrow> zs @ [z] \<in> shuffles xs (ys @ [z])"
  using append_in_shuffles [of zs xs ys "[z]" "[z]" "[]"] append_in_shuffles [of zs xs ys "[z]" "[]" "[z]"]
  by simp_all

lemma relayed_step:
  assumes "relay_step threshold counts detour r r'" and "relayed detour ms cs vs r"
  shows "relayed detour ms cs vs r'"
proof -
  obtain ms' cs' vs' where q: "ms = ms' @ below r" "cs = cs' @ above r" "vs = vs' @ beside r"
    "up r \<in> shuffles ms' vs'" "down r \<in> shuffles cs' (replicate (detours r) detour)"
    using assms(2) by (auto simp: relayed_def)
  from assms(1) show ?thesis
  proof cases
    case (pass_up msg rest)
    with q show ?thesis
      unfolding relayed_def
      by (intro exI [of _ "ms' @ [msg]"] exI [of _ cs'] exI [of _ vs']) (simp add: shuffles_snoc)
  next
    case (pass_aside msg rest)
    with q show ?thesis
      unfolding relayed_def
      by (intro exI [of _ ms'] exI [of _ cs'] exI [of _ "vs' @ [msg]"]) (simp add: shuffles_snoc)
  next
    case (pass_down msg rest)
    with q show ?thesis
      unfolding relayed_def
      by (intro exI [of _ ms'] exI [of _ "cs' @ [msg]"] exI [of _ vs']) (simp add: shuffles_snoc)
  next
    case new_period
    with q show ?thesis
      unfolding relayed_def by (intro exI [of _ ms'] exI [of _ cs'] exI [of _ vs']) simp
  next
    case take_detour
    have "replicate (detours r + 1) detour = replicate (detours r) detour @ [detour]"
      by (simp add: replicate_append_same)
    with take_detour q show ?thesis
      unfolding relayed_def
      by (intro exI [of _ ms'] exI [of _ cs'] exI [of _ vs'])
        (simp add: shuffles_snoc replicate_append_same [symmetric] del: replicate.simps)
  qed
qed

lemma relay_reach_relayed: "relay_reach threshold counts detour ms cs vs r \<Longrightarrow> relayed detour ms cs vs r"
proof (induction rule: relay_reach.induct)
  case at_start
  then show ?case by (simp add: relayed_def new_relay_def)
qed (rule relayed_step)

text \<open>Detours are paid for.\<close>

lemma detours_paid:
  "relay_reach threshold counts detour ms cs vs r \<Longrightarrow>
   threshold * detours r + fresh r + length (filter counts (below r)) \<le> length (filter counts ms)"
proof (induction rule: relay_reach.induct)
  case at_start
  then show ?case by (simp add: new_relay_def)
next
  case (after_step r r')
  from after_step(2,3) show ?case by (elim relay_stepE) (auto split: if_splits)
qed

section \<open>Simulation\<close>

text \<open>
  A program, as a step function with outputs, simulates a step relation through \<open>R\<close>, which sees the
  program's state and everything it has put out: the start is related, and every step of the program
  is matched by steps of the relation, none or more.
\<close>

locale forward_simulation =
  fixes step :: "'s \<Rightarrow> 'e \<Rightarrow> 's \<times> 'o list"
    and start :: "'s \<Rightarrow> bool"
    and astep :: "'a \<Rightarrow> 'a \<Rightarrow> bool"
    and astart :: 'a
    and R :: "'s \<Rightarrow> 'o list \<Rightarrow> 'a \<Rightarrow> bool"
  assumes starts: "start s \<Longrightarrow> R s [] astart"
    and steps: "R s os a \<Longrightarrow> \<exists>a'. astep\<^sup>*\<^sup>* a a' \<and> R (fst (step s e)) (os @ snd (step s e)) a'"
begin

lemma simulates_from:
  "R s os a \<Longrightarrow> \<exists>a'. astep\<^sup>*\<^sup>* a a' \<and> R (fst (run step s es)) (os @ snd (run step s es)) a'"
proof (induction es arbitrary: s os a)
  case Nil
  then show ?case by auto
next
  case (Cons e es)
  obtain b where b: "astep\<^sup>*\<^sup>* a b" "R (fst (step s e)) (os @ snd (step s e)) b"
    using steps [OF Cons.prems] by blast
  obtain c where "astep\<^sup>*\<^sup>* b c"
    "R (fst (run step (fst (step s e)) es)) ((os @ snd (step s e)) @ snd (run step (fst (step s e)) es)) c"
    using Cons.IH [OF b(2)] by blast
  with b(1) show ?case by (auto simp: fst_run_Cons snd_run_Cons simp del: run.simps(2) intro: rtranclp_trans)
qed

lemma simulates: "start s \<Longrightarrow> \<exists>a. astep\<^sup>*\<^sup>* astart a \<and> R (fst (run step s es)) (snd (run step s es)) a"
  using simulates_from [OF starts] by fastforce

end

lemma relay_reach_steps:
  "(relay_step threshold counts detour)\<^sup>*\<^sup>* (new_relay ms cs vs) r \<Longrightarrow> relay_reach threshold counts detour ms cs vs r"
  by (induction rule: rtranclp_induct) (auto intro: relay_reach.intros)

end
