(* ===== verification/Eproxy_Relay.thy ===== *)
theory Eproxy_Relay imports Eproxy_Ovs Relay_Spec "HOL-Library.Sublist" begin

text \<open>
  Both builds of the proxy refine the relay of \<open>Relay_Spec\<close> with threshold 10, the packet-ins as the
  counted messages and the migrator's flow modification as the detour: its queues are the messages
  of the peers that have not been read yet, its logs what was written to the two sessions, its
  detours the monitor's triggers. What holds of every reachable relay holds of every run of the
  programs.
\<close>

section \<open>The refinement relation\<close>

text \<open>Between the start of a period and the decision the monitor's counter is at most \<open>fresh\<close>.\<close>

definition counted_fresh :: "(endpoint, trigger) monitor \<Rightarrow> nat \<Rightarrow> bool" where
  "counted_fresh m n \<longleftrightarrow> thresh_hold m = 10 \<and>
     (worker m \<in> {At_sleep, At_test} \<longrightarrow> unat (counter m) \<le> n) \<and> (worker m = At_action \<longrightarrow> 10 \<le> n)"

text \<open>What a session hands out when it has read the message \<open>msg\<close>.\<close>

definition via_switch :: "message \<Rightarrow> callback action session_out" where
  "via_switch msg = Dispatched (Call (switch_callback msg) msg)"

definition via_write :: "endpoint \<Rightarrow> message \<Rightarrow> callback action session_out" where
  "via_write d msg = Dispatched (Call (Session_write d) msg)"

text \<open>
  The sessions have dispatched the first of the messages \<open>ms\<close> and \<open>cs\<close>; then the relay that was given
  these messages has the others in its queues.
\<close>

definition follows :: "message list \<Rightarrow> message list \<Rightarrow> eproxy_out list \<Rightarrow> bool" where
  "follows ms cs os \<longleftrightarrow> prefix (List.map_filter from_switch os) (map via_switch ms) \<and>
     prefix (List.map_filter from_controller os) (map (via_write S_session) cs)"

definition in_step :: "message list \<Rightarrow> message list \<Rightarrow> eproxy \<Rightarrow> eproxy_out list \<Rightarrow> relay \<Rightarrow> bool" where
  "in_step ms cs p os r \<longleftrightarrow> below r = drop (length (List.map_filter from_switch os)) ms \<and>
     above r = drop (length (List.map_filter from_controller os)) cs \<and>
     up r = written (c_writer p) \<and> down r = written (s_writer p) \<and>
     detours r = triggers (List.map_filter from_monitor os) \<and> counted_fresh (monitor p) (fresh r)"

definition represents :: "message list \<Rightarrow> message list \<Rightarrow> eproxy \<Rightarrow> eproxy_out list \<Rightarrow> relay \<Rightarrow> bool" where
  "represents ms cs p os r \<longleftrightarrow> wired p \<and> (follows ms cs os \<longrightarrow> in_step ms cs p os r)"

lemma next_message:
  assumes "prefix (xs @ [x]) (map f ms)"
  shows "\<exists>msg rest. drop (length xs) ms = msg # rest \<and> drop (Suc (length xs)) ms = rest \<and> x = f msg"
proof -
  obtain zs where zs: "map f ms = xs @ x # zs" using assms by (auto simp: prefix_def)
  then have "map f (drop (length xs) ms) = x # zs" by (simp flip: drop_map)
  then obtain msg rest where m: "drop (length xs) ms = msg # rest" "x = f msg" by auto
  then have "drop (Suc (length xs)) ms = rest"
    using drop_drop [of 1 "length xs" ms] by simp
  with m show ?thesis by blast
qed

lemma follows_before: "follows ms cs (os @ os') \<Longrightarrow> follows ms cs os"
  by (auto simp: follows_def map_filter_append dest: append_prefixD)

lemma unat_Suc_le: "unat (w :: u32) \<le> n \<Longrightarrow> unat (w + 1) \<le> Suc n"
  using word_succ_p1 [of w] by (simp add: unat_word_ariths le_SucI mod_less_eq_dividend [THEN order_trans])

lemma counted_message:
  "counted_fresh m n \<Longrightarrow> counted_fresh (fst (monitor_step m (Ev_message msg))) (Suc n)"
  using unat_Suc_le [of "counter m" n] by (auto simp: counted_fresh_def monitor_defs)

text \<open>A step of the monitor's thread: a new period, a detour, or nothing the relay sees.\<close>

lemma counted_worker:
  assumes "counted_fresh m n" and "action_cb m = Some a"
  obtains
    (quiet) "counted_fresh (fst (monitor_step m Ev_worker)) n"
      "snd (monitor_step m Ev_worker) \<in> {[], [Slept (sample_rate m)]}"
  | (period) "counted_fresh (fst (monitor_step m Ev_worker)) 0" "snd (monitor_step m Ev_worker) = [Reset]"
  | (detour) "counted_fresh (fst (monitor_step m Ev_worker)) 0" "snd (monitor_step m Ev_worker) = [Triggered a]"
      "10 \<le> n"
  using assms
  by (cases "worker m") (simp_all add: counted_fresh_def monitor_defs word_le_nat_alt)

lemma triggers_simps [simp]:
  "triggers [] = 0" "triggers [Triggered a] = 1" "triggers [Reset] = 0" "triggers [Slept n] = 0"
  "triggers [Followed f msg] = 0"
  by (simp_all add: triggers_def)

section \<open>The simulation\<close>

lemma relay_moves:
  "below r = msg # rest \<Longrightarrow> (relay_step t c d)\<^sup>*\<^sup>* r
     (r\<lparr>below := rest, up := up r @ [msg], fresh := (if c msg then fresh r + 1 else fresh r)\<rparr>)"
  "beside r = msg # rest \<Longrightarrow> (relay_step t c d)\<^sup>*\<^sup>* r (r\<lparr>beside := rest, up := up r @ [msg]\<rparr>)"
  "above r = msg # rest \<Longrightarrow> (relay_step t c d)\<^sup>*\<^sup>* r (r\<lparr>above := rest, down := down r @ [msg]\<rparr>)"
  "(relay_step t c d)\<^sup>*\<^sup>* r (r\<lparr>fresh := 0\<rparr>)"
  "t \<le> fresh r \<Longrightarrow> (relay_step t c d)\<^sup>*\<^sup>* r (r\<lparr>down := down r @ [d], detours := detours r + 1, fresh := 0\<rparr>)"
  by (rule r_into_rtranclp, rule relay_step.intros, assumption?)+

text \<open>A step of the proxy, matched by the relay; the queue beside it is not touched.\<close>

lemma in_step_next:
  assumes "wired p" and "in_step ms cs p os r" and "follows ms cs (os @ snd (eproxy_step p e))"
  shows "\<exists>r'. (relay_step 10 is_packet_in (switch_bytes 3))\<^sup>*\<^sup>* r r' \<and>
    in_step ms cs (fst (eproxy_step p e)) (os @ snd (eproxy_step p e)) r' \<and> beside r' = beside r"
proof -
  have m: "counted_fresh (monitor p) (fresh r)" "action_cb (monitor p) = Some Switch_path"
    using assms(1,2) by (simp_all add: in_step_def wired_def)
  note rep = assms(2) [unfolded in_step_def]
  note rules = in_step_def map_filter_append List.map_filter_simps
  note coming = assms(3) [unfolded follows_def map_filter_append]
  show ?thesis
  proof (cases rule: eproxy_step_cases [OF assms(1), of e])
    case 1
    have "\<not> prefix (xs @ [x]) (map via_switch ms)" "\<not> prefix (xs @ [x]) (map (via_write S_session) cs)"
      if "x = Read_failed \<or> x = Overrun" for xs x
      using that by (auto simp: via_switch_def via_write_def dest: next_message)
    with 1(5) coming have "snd (eproxy_step p e) = []" by (auto simp: List.map_filter_simps)
    with 1 show ?thesis using rep by (intro exI [of _ r]) (simp add: rules)
  next
    case (2 msg)
    obtain rest where next': "drop (length (List.map_filter from_switch os)) ms = msg # rest"
      "drop (Suc (length (List.map_filter from_switch os))) ms = rest" "switch_callback msg = Session_write C_session"
      using next_message [OF coming [THEN conjunct1, unfolded 2(5), simplified List.map_filter_simps, simplified]]
      by (auto simp: via_switch_def)
    then have "below r = msg # rest" "\<not> is_packet_in msg"
      using rep by (auto simp: switch_callback_def is_packet_in_def split: if_splits)
    then show ?thesis
      using relay_moves(1) [of r msg rest 10 is_packet_in "switch_bytes 3"] 2 rep next'(2)
      by (intro exI conjI) (assumption, simp_all add: rules)
  next
    case (3 msg)
    obtain rest where next': "drop (length (List.map_filter from_controller os)) cs = msg # rest"
      "drop (Suc (length (List.map_filter from_controller os))) cs = rest"
      using next_message [OF coming [THEN conjunct2, unfolded 3(5), simplified List.map_filter_simps, simplified]]
      by (auto simp: via_write_def)
    then have "above r = msg # rest" using rep by simp
    then show ?thesis
      using relay_moves(3) [of r msg rest 10 is_packet_in "switch_bytes 3"] 3 rep next'(2)
      by (intro exI conjI) (assumption, simp_all add: rules)
  next
    case (4 msg)
    obtain rest where next': "drop (length (List.map_filter from_switch os)) ms = msg # rest"
      "drop (Suc (length (List.map_filter from_switch os))) ms = rest" "switch_callback msg = Monitor_onMessage"
      using next_message [OF coming [THEN conjunct1, unfolded 4(5), simplified List.map_filter_simps, simplified]]
      by (auto simp: via_switch_def)
    then have "below r = msg # rest" "is_packet_in msg"
      using rep by (auto simp: switch_callback_def is_packet_in_def split: if_splits)
    then show ?thesis
      using relay_moves(1) [of r msg rest 10 is_packet_in "switch_bytes 3"] 4 rep next'(2) counted_message [OF m(1)]
      by (intro exI conjI) (assumption, simp_all add: rules)
  next
    case (5 outs)
    from m show ?thesis
    proof (cases rule: counted_worker)
      case quiet
      with 5 show ?thesis using rep by (intro exI [of _ r]) (auto simp: rules)
    next
      case period
      then show ?thesis
        using relay_moves(4) [of 10 is_packet_in "switch_bytes 3" r] 5 rep
        by (intro exI conjI) (assumption, auto simp: rules)
    next
      case detour
      with 5 show ?thesis by auto
    qed
  next
    case 6
    from m show ?thesis
    proof (cases rule: counted_worker)
      case detour
      then show ?thesis
        using relay_moves(5) [OF detour(3), of is_packet_in "switch_bytes 3"] 6 rep
        by (intro exI conjI) (assumption, simp_all add: rules)
    qed (use 6 in auto)
  qed
qed

lemma represents_main: "represents ms cs (eproxy_main s_junk c_junk) [] (new_relay ms cs vs)"
proof -
  have "counted_fresh (monitor (eproxy_main s_junk c_junk)) 0"
    by (simp add: counted_fresh_def eproxy_main_def monitor_defs set_follow_action_def set_trigger_action_def)
  then show ?thesis
    by (simp add: represents_def in_step_def wired_main new_relay_def empty_logs List.map_filter_simps)
qed

lemma eproxy_simulates:
  assumes "represents ms cs p os r"
  shows "\<exists>r'. (relay_step 10 is_packet_in (switch_bytes 3))\<^sup>*\<^sup>* r r' \<and>
    represents ms cs (fst (eproxy_step p e)) (os @ snd (eproxy_step p e)) r'"
proof (cases "follows ms cs (os @ snd (eproxy_step p e))")
  case True
  then show ?thesis
    using assms in_step_next follows_before [OF True] wired_step unfolding represents_def by blast
next
  case False
  then show ?thesis
    using assms wired_step by (intro exI [of _ r]) (simp add: represents_def)
qed

interpretation plain: forward_simulation eproxy_step "\<lambda>p. \<exists>s_junk c_junk. p = eproxy_main s_junk c_junk"
  "relay_step 10 is_packet_in (switch_bytes 3)" "new_relay ms cs []" "represents ms cs"
  by unfold_locales (auto intro: represents_main eproxy_simulates)

text \<open>The assisted build: a message of the OVS passes up from the third queue.\<close>

definition follows_ovs :: "message list \<Rightarrow> message list \<Rightarrow> message list \<Rightarrow> ovs_out list \<Rightarrow> bool" where
  "follows_ovs ms cs vs os \<longleftrightarrow> follows ms cs (List.map_filter base_out os) \<and>
     prefix (List.map_filter from_ovs os) (map (via_write C_session) vs)"

definition in_step_ovs ::
    "message list \<Rightarrow> message list \<Rightarrow> message list \<Rightarrow> eproxy_ovs \<Rightarrow> ovs_out list \<Rightarrow> relay \<Rightarrow> bool" where
  "in_step_ovs ms cs vs p os r \<longleftrightarrow> in_step ms cs (base p) (List.map_filter base_out os) r \<and>
     beside r = drop (length (List.map_filter from_ovs os)) vs"

definition represents_ovs ::
    "message list \<Rightarrow> message list \<Rightarrow> message list \<Rightarrow> eproxy_ovs \<Rightarrow> ovs_out list \<Rightarrow> relay \<Rightarrow> bool" where
  "represents_ovs ms cs vs p os r \<longleftrightarrow> wired_ovs p \<and> (follows_ovs ms cs vs os \<longrightarrow> in_step_ovs ms cs vs p os r)"

lemma follows_ovs_before: "follows_ovs ms cs vs (os @ os') \<Longrightarrow> follows_ovs ms cs vs os"
  by (auto simp: follows_ovs_def map_filter_append dest: append_prefixD follows_before)

lemma in_step_ovs_next:
  assumes "wired_ovs p" and "in_step_ovs ms cs vs p os r" and "follows_ovs ms cs vs (os @ snd (ovs_step p e))"
  shows "\<exists>r'. (relay_step 10 is_packet_in (switch_bytes 3))\<^sup>*\<^sup>* r r' \<and>
    in_step_ovs ms cs vs (fst (ovs_step p e)) (os @ snd (ovs_step p e)) r'"
proof -
  have base: "wired (base p)" "in_step ms cs (base p) (List.map_filter base_out os) r"
    using assms(1,2) by (simp_all add: wired_ovs_def in_step_ovs_def)
  note rep = assms(2) [unfolded in_step_ovs_def in_step_def]
  note rules = in_step_ovs_def map_filter_append List.map_filter_simps
  note coming = assms(3) [unfolded follows_ovs_def map_filter_append]
  show ?thesis
  proof (cases rule: ovs_step_cases [OF assms(1), of e])
    case (1 e')
    then show ?thesis
      using in_step_next [OF base, of e'] coming assms(2) by (auto simp: rules)
  next
    case (2 c)
    have "\<not> prefix (xs @ [x]) (map (via_write C_session) vs)" if "x = Read_failed \<or> x = Overrun" for xs x
      using that by (auto simp: via_write_def dest: next_message)
    with 2(3) coming have "snd (ovs_step p e) = []" by (auto simp: List.map_filter_simps)
    with 2 show ?thesis using assms(2) by (intro exI [of _ r]) (simp add: rules)
  next
    case (3 c msg)
    obtain rest where next': "drop (length (List.map_filter from_ovs os)) vs = msg # rest"
      "drop (Suc (length (List.map_filter from_ovs os))) vs = rest"
      using next_message [OF coming [THEN conjunct2, unfolded 3(3), simplified List.map_filter_simps, simplified]]
      by (auto simp: via_write_def)
    then have "beside r = msg # rest" using rep by simp
    then show ?thesis
      using relay_moves(2) [of r msg rest 10 is_packet_in "switch_bytes 3"] 3 rep next'(2)
      by (intro exI conjI) (assumption, simp_all add: rules in_step_def)
  qed
qed

lemma ovs_simulates:
  assumes "represents_ovs ms cs vs p os r"
  shows "\<exists>r'. (relay_step 10 is_packet_in (switch_bytes 3))\<^sup>*\<^sup>* r r' \<and>
    represents_ovs ms cs vs (fst (ovs_step p e)) (os @ snd (ovs_step p e)) r'"
proof (cases "follows_ovs ms cs vs (os @ snd (ovs_step p e))")
  case True
  then show ?thesis
    using assms in_step_ovs_next follows_ovs_before [OF True] wired_ovs_step unfolding represents_ovs_def by blast
next
  case False
  then show ?thesis
    using assms wired_ovs_step by (intro exI [of _ r]) (simp add: represents_ovs_def)
qed

interpretation assisted: forward_simulation ovs_step
  "\<lambda>p. \<exists>s_junk c_junk ovs_junk. p = eproxy_ovs_main s_junk c_junk ovs_junk"
  "relay_step 10 is_packet_in (switch_bytes 3)" "new_relay ms cs vs" "represents_ovs ms cs vs"
proof unfold_locales
  show "represents_ovs ms cs vs p [] (new_relay ms cs vs)"
    if "\<exists>s_junk c_junk ovs_junk. p = eproxy_ovs_main s_junk c_junk ovs_junk" for p
    using that represents_main wired_ovs_main
    by (auto simp: represents_ovs_def in_step_ovs_def represents_def follows_ovs_def eproxy_ovs_main_def
        new_relay_def List.map_filter_simps)
qed (rule ovs_simulates)

text \<open>The relay of a run, from what the two sessions have dispatched.\<close>

lemma plain_relay:
  assumes "List.map_filter from_switch (snd (run eproxy_step (eproxy_main s_junk c_junk) es)) = map via_switch ms'"
    and "List.map_filter from_controller (snd (run eproxy_step (eproxy_main s_junk c_junk) es)) = map (via_write S_session) cs'"
    and "prefix ms' ms" and "prefix cs' cs"
  shows "\<exists>r. relay_reach 10 is_packet_in (switch_bytes 3) ms cs [] r \<and>
    below r = drop (length ms') ms \<and> above r = drop (length cs') cs \<and>
    up r = written (c_writer (fst (run eproxy_step (eproxy_main s_junk c_junk) es))) \<and>
    down r = written (s_writer (fst (run eproxy_step (eproxy_main s_junk c_junk) es))) \<and>
    detours r = triggers (List.map_filter from_monitor (snd (run eproxy_step (eproxy_main s_junk c_junk) es)))"
proof -
  obtain r where r: "(relay_step 10 is_packet_in (switch_bytes 3))\<^sup>*\<^sup>* (new_relay ms cs []) r"
    "represents ms cs (fst (run eproxy_step (eproxy_main s_junk c_junk) es))
      (snd (run eproxy_step (eproxy_main s_junk c_junk) es)) r"
    using plain.simulates [of "eproxy_main s_junk c_junk" ms cs es] by blast
  have "follows ms cs (snd (run eproxy_step (eproxy_main s_junk c_junk) es))"
    by (simp add: follows_def assms map_mono_prefix)
  with r show ?thesis
    using relay_reach_steps by (intro exI [of _ r]) (simp add: represents_def in_step_def assms(1,2))
qed

text \<open>Detours are paid for, so migrations are.\<close>

lemma paid_outputs:
  assumes "List.map_filter from_switch (snd (run eproxy_step (eproxy_main s_junk c_junk) es)) =
      map (\<lambda>msg. Dispatched (Call (switch_callback msg) msg)) ms"
    and "List.map_filter from_controller (snd (run eproxy_step (eproxy_main s_junk c_junk) es)) =
      map (\<lambda>msg. Dispatched (Call (Session_write S_session) msg)) cs"
  shows "\<exists>k. 10 * k \<le> length (filter is_packet_in ms) \<and>
    written (s_writer (fst (run eproxy_step (eproxy_main s_junk c_junk) es))) \<in> shuffles cs (replicate k (switch_bytes 3))"
proof -
  have "map (\<lambda>msg. Dispatched (Call (switch_callback msg) msg)) ms = map via_switch ms"
    "map (\<lambda>msg. Dispatched (Call (Session_write S_session) msg)) cs = map (via_write S_session) cs"
    by (simp_all add: via_switch_def via_write_def)
  from plain_relay [OF assms [unfolded this] prefix_order.refl prefix_order.refl] obtain r where
    r: "relay_reach 10 is_packet_in (switch_bytes 3) ms cs [] r" "above r = []"
    "down r = written (s_writer (fst (run eproxy_step (eproxy_main s_junk c_junk) es)))"
    by auto
  from relay_reach_relayed [OF r(1)] r(2,3) detours_paid [OF r(1)] show ?thesis
    by (intro exI [of _ "detours r"]) (auto simp: relayed_def)
qed

text \<open>The session of the OVS, at any moment.\<close>

lemma ovs_outputs_some:
  assumes "concat (map ovs_reads es) = take n (concat (map reads_of vs))" and "list_all well_framed vs"
  shows "List.map_filter from_ovs (snd (run ovs_step (eproxy_ovs_main s_junk c_junk ovs_junk) es)) =
    map (via_write C_session) (framed n vs)"
proof -
  let ?p = "eproxy_ovs_main s_junk c_junk ovs_junk"
  have ready: "ready dispatcher_from_ovs (ovs_session ?p)"
    by (simp add: eproxy_ovs_main_def ready_def session_start_def session_read_def listen_def set_dispatcher_def)
  have "events_along ovs_step (\<lambda>p e. if stopped (base p) then [] else ovs_reads e) ?p es = concat (map ovs_reads es)"
    by (rule events_along_const [where I = wired_ovs, OF wired_ovs_main wired_ovs_step])
      (simp_all add: wired_ovs_def wired_alive)
  then show ?thesis
    using ovs_reader.run_out [of ?p es] dispatch.frame_some [OF ready assms(2) route_ovs, of n] assms(1)
    by (simp add: via_write_def)
qed

section \<open>Properties\<close>

text \<open>
  C11. Both builds of the proxy refine the relay. Whatever part of the messages \<open>ms\<close> of the switch, \<open>cs\<close>
  of the controller and \<open>vs\<close> of the OVS has been read, there is a reachable state of the relay that was
  given these messages: it has consumed exactly the messages whose reads have completed, its logs
  are what the program has written to the controller and to the switch, and its detours are the
  monitor's triggers. So every message read was relayed once, whole, in order and to its side, and a
  migration costs ten packet-ins of the switch (\<open>relay_reach_relayed\<close>, \<open>detours_paid\<close>).
\<close>

theorem eproxy_refines_relay:
  assumes "concat (map switch_reads es) = take a (concat (map reads_of ms))" and "list_all well_framed ms"
    and "concat (map controller_reads es) = take b (concat (map reads_of cs))" and "list_all well_framed cs"
    and "concat (map ovs_reads fs) = take c (concat (map reads_of vs))" and "list_all well_framed vs"
    and "es = concat (map base_events fs)"
    and "p = run eproxy_step (eproxy_main s_junk c_junk) es"
    and "q = run ovs_step (eproxy_ovs_main s_junk c_junk ovs_junk) fs"
  shows "(\<exists>r. relay_reach 10 is_packet_in (switch_bytes 3) ms cs [] r \<and>
      below r = drop (length (framed a ms)) ms \<and> above r = drop (length (framed b cs)) cs \<and>
      up r = written (c_writer (fst p)) \<and> down r = written (s_writer (fst p)) \<and>
      detours r = triggers (List.map_filter from_monitor (snd p))) \<and>
    (\<exists>r. relay_reach 10 is_packet_in (switch_bytes 3) ms cs vs r \<and>
      below r = drop (length (framed a ms)) ms \<and> above r = drop (length (framed b cs)) cs \<and>
      beside r = drop (length (framed c vs)) vs \<and>
      up r = written (c_writer (base (fst q))) \<and> down r = written (s_writer (base (fst q))) \<and>
      detours r = triggers (List.map_filter from_monitor (List.map_filter base_out (snd q))))"
proof
  have sw: "List.map_filter from_switch (snd p) = map via_switch (framed a ms)"
    using switch_outputs_some [OF wired_main ready_main(1) assms(1,2)] by (simp add: assms(8) via_switch_def)
  have ct: "List.map_filter from_controller (snd p) = map (via_write S_session) (framed b cs)"
    using controller_outputs_some [OF wired_main ready_main(2) assms(3,4)] by (simp add: assms(8) via_write_def)
  have pre: "prefix (framed n msgs) msgs" for n msgs using framed_prefix by (auto simp: prefix_def)
  show "\<exists>r. relay_reach 10 is_packet_in (switch_bytes 3) ms cs [] r \<and>
      below r = drop (length (framed a ms)) ms \<and> above r = drop (length (framed b cs)) cs \<and>
      up r = written (c_writer (fst p)) \<and> down r = written (s_writer (fst p)) \<and>
      detours r = triggers (List.map_filter from_monitor (snd p))"
    using plain_relay [OF sw [unfolded assms(8)] ct [unfolded assms(8)] pre pre] by (simp only: assms(8))
  obtain r where r: "(relay_step 10 is_packet_in (switch_bytes 3))\<^sup>*\<^sup>* (new_relay ms cs vs) r"
    "represents_ovs ms cs vs (fst q) (snd q) r"
    using assisted.simulates [of "eproxy_ovs_main s_junk c_junk ovs_junk" ms cs vs fs] assms(9) by blast
  have outs: "List.map_filter base_out (snd q) = snd p"
    using base_outputs_run assms(7-9) by simp
  have ov: "List.map_filter from_ovs (snd q) = map (via_write C_session) (framed c vs)"
    using ovs_outputs_some [OF assms(5,6)] by (simp add: assms(9))
  have "follows_ovs ms cs vs (snd q)"
    by (simp add: follows_ovs_def follows_def outs sw ct ov pre map_mono_prefix)
  with r show "\<exists>r. relay_reach 10 is_packet_in (switch_bytes 3) ms cs vs r \<and>
      below r = drop (length (framed a ms)) ms \<and> above r = drop (length (framed b cs)) cs \<and>
      beside r = drop (length (framed c vs)) vs \<and>
      up r = written (c_writer (base (fst q))) \<and> down r = written (s_writer (base (fst q))) \<and>
      detours r = triggers (List.map_filter from_monitor (List.map_filter base_out (snd q)))"
    using relay_reach_steps
    by (intro exI [of _ r]) (simp add: represents_ovs_def in_step_ovs_def in_step_def outs sw ct ov)
qed

text \<open>
  A packet-in of the switch and the header of an echo request with a body still to come, a hello of the
  controller, and an echo reply of the OVS: the relay has passed on three messages and keeps the fourth.
\<close>

theorem eproxy_refines_relay_witness:
  "\<exists>r. relay_reach 10 is_packet_in (switch_bytes 3) [header_bytes 4 10 8 2, header_bytes 4 2 9 3 @ [7]]
      [header_bytes 4 0 8 1] [header_bytes 4 3 8 4] r \<and> below r = [header_bytes 4 2 9 3 @ [7]] \<and>
    up r = written (c_writer (base (fst (run ovs_step (eproxy_ovs_main (\<lambda>_. 0) (\<lambda>_. 0) (\<lambda>_. 0))
      [Ovs_read (completed (header_bytes 4 3 8 4)), Base (Switch_read (completed (header_bytes 4 10 8 2))),
       Base (Controller_read (completed (header_bytes 4 0 8 1))),
       Base (Switch_read (completed (header_bytes 4 2 9 3)))]))))"
proof -
  let ?fs = "[Ovs_read (completed (header_bytes 4 3 8 4)), Base (Switch_read (completed (header_bytes 4 10 8 2))),
    Base (Controller_read (completed (header_bytes 4 0 8 1))), Base (Switch_read (completed (header_bytes 4 2 9 3)))]"
  let ?ms = "[header_bytes 4 10 8 2, header_bytes 4 2 9 3 @ [7]]"
  let ?cs = "[header_bytes 4 0 8 1]" and ?vs = "[header_bytes 4 3 8 4]"
  have "concat (map switch_reads (concat (map base_events ?fs))) = take 2 (concat (map reads_of ?ms))"
    "concat (map controller_reads (concat (map base_events ?fs))) = take 1 (concat (map reads_of ?cs))"
    "concat (map ovs_reads ?fs) = take 1 (concat (map reads_of ?vs))"
    "list_all well_framed ?ms" "list_all well_framed ?cs" "list_all well_framed ?vs"
    by (simp_all add: reads_of_def well_framed_def)
  from eproxy_refines_relay [where s_junk = "\<lambda>_. 0" and c_junk = "\<lambda>_. 0" and ovs_junk = "\<lambda>_. 0",
      OF this(1,4,2,5,3,6) refl refl refl, THEN conjunct2]
  obtain r where "relay_reach 10 is_packet_in (switch_bytes 3) ?ms ?cs ?vs r"
    "below r = drop (length (framed 2 ?ms)) ?ms"
    "up r = written (c_writer (base (fst (run ovs_step (eproxy_ovs_main (\<lambda>_. 0) (\<lambda>_. 0) (\<lambda>_. 0)) ?fs))))"
    by blast
  moreover have "length (framed 2 ?ms) = 1" by (simp add: reads_of_def)
  ultimately show ?thesis by (intro exI [of _ r]) (simp del: run.simps)
qed

text \<open>
  Migrations are paid for: what the proxy writes to the switch are the controller's messages with
  some flow modifications among them, and there is at most one of these for every ten packet-ins the
  switch has sent, however the reads, the writes and the monitor's thread interleave.
\<close>

theorem migrations_paid:
  assumes "concat (map switch_reads es) = concat (map reads_of ms)" and "list_all well_framed ms"
    and "concat (map controller_reads es) = concat (map reads_of cs)" and "list_all well_framed cs"
  shows "\<exists>k. 10 * k \<le> length (filter is_packet_in ms) \<and>
    written (s_writer (fst (run eproxy_step (eproxy_main s_junk c_junk) es))) \<in> shuffles cs (replicate k (switch_bytes 3))"
  by (rule paid_outputs) (rule switch_outputs_run [OF assms(1,2)], rule controller_outputs_run [OF assms(3,4)])

text \<open>Nine packet-ins are too few.\<close>

theorem migrations_paid_witness:
  "written (s_writer (fst (run eproxy_step (eproxy_main (\<lambda>_. 0) (\<lambda>_. 1))
      (Controller_read (completed (header_bytes 4 0 8 1)) #
       replicate 9 (Switch_read (completed (header_bytes 4 10 8 2))) @ replicate 50 (Worker_step (\<lambda>_. 0)))))) =
    [header_bytes 4 0 8 1]"
proof -
  let ?es = "Controller_read (completed (header_bytes 4 0 8 1)) #
    replicate 9 (Switch_read (completed (header_bytes 4 10 8 2))) @ replicate 50 (Worker_step (\<lambda>_. 0))"
  have empty: "concat (map switch_reads (replicate n (Worker_step junk))) = []"
    "concat (map controller_reads (replicate n (Worker_step junk))) = []" for n junk
    by (induction n) simp_all
  have "\<exists>k. 10 * k \<le> length (filter is_packet_in (replicate 9 (header_bytes 4 10 8 2))) \<and>
    written (s_writer (fst (run eproxy_step (eproxy_main (\<lambda>_. 0) (\<lambda>_. 1)) ?es))) \<in>
      shuffles [header_bytes 4 0 8 1] (replicate k (switch_bytes 3))"
    by (rule migrations_paid)
      (simp_all add: reads_of_def well_framed_def list_all_iff empty)
  then obtain k where k: "10 * k \<le> length (filter is_packet_in (replicate 9 (header_bytes 4 10 8 2)))"
    "written (s_writer (fst (run eproxy_step (eproxy_main (\<lambda>_. 0) (\<lambda>_. 1)) ?es))) \<in>
      shuffles [header_bytes 4 0 8 1] (replicate k (switch_bytes 3))" by blast
  have "k = 0" using k(1) by (simp add: filter_replicate split: if_splits)
  with k(2) show ?thesis by (simp del: run.simps)
qed

end
