(* ===== verification/Session_Socket.thy ===== *)
theory Session_Socket imports Session begin

text \<open>
  A session inside a program that also owns the session's socket: when the io thread takes a turn on the
  session, the socket answers the read the session has asked for. The locale \<open>session_on_socket\<close> says what
  such a program's steps do to the session and to the socket, and what the session then reads; every
  session of both programs interprets it.
\<close>

section \<open>The answer of a socket\<close>

text \<open>Without an outstanding read there is nothing to answer.\<close>

definition answer :: "('k \<Rightarrow> nat \<Rightarrow> completion \<times> 'k) \<Rightarrow> 'k \<Rightarrow> 'd session \<Rightarrow> completion list \<times> 'k" where
  "answer recv k s =
     (case sess_read s of
        None \<Rightarrow> ([], k)
      | Some r \<Rightarrow> (case recv k (unat (rd_length r)) of (c, k') \<Rightarrow> ([c], k')))"

lemma answer_one: "length (fst (answer recv k s)) \<le> 1"
  by (simp add: answer_def split_beta split: option.split)

lemma answer_delivers:
  assumes "asio_delivers recv inbox" and "answers onm s (c # cs)"
    and "inbox k = concat (map c_bytes (c # cs)) @ rest"
  shows "fst (answer recv k s) = [c]" and "inbox (snd (answer recv k s)) = concat (map c_bytes cs) @ rest"
proof -
  obtain r where r: "sess_read s = Some r" "\<not> c_error c" "length (c_bytes c) = unat (rd_length r)"
    using assms(2) by (auto split: option.splits)
  have c: "c = completed (c_bytes c)" using r(2) by (cases c) (simp add: completed_def)
  have "unat (rd_length r) \<le> length (inbox k)" "take (unat (rd_length r)) (inbox k) = c_bytes c"
    "drop (unat (rd_length r)) (inbox k) = concat (map c_bytes cs) @ rest"
    using assms(3) r(3) [symmetric] by simp_all
  then have "fst (recv k (unat (rd_length r))) = c"
    "inbox (snd (recv k (unat (rd_length r)))) = concat (map c_bytes cs) @ rest"
    using assms(1) c unfolding asio_delivers_def by metis+
  then show "fst (answer recv k s) = [c]" "inbox (snd (answer recv k s)) = concat (map c_bytes cs) @ rest"
    by (simp_all add: answer_def r(1) split_beta)
qed

section \<open>A program around a session and its socket\<close>

definition turns :: "('e \<Rightarrow> bool) \<Rightarrow> 'e list \<Rightarrow> nat" where
  "turns mine es = length (filter mine es)"

lemma turns_simps [simp]:
  "turns mine [] = 0" "turns mine (e # es) = (if mine e then 1 else 0) + turns mine es"
  by (simp_all add: turns_def)

text \<open>
  \<open>mine\<close>: the events that are turns on this session; \<open>sees\<close>: the completions an event brings it; \<open>up\<close>: the
  program runs, and once it does not it never will.
\<close>

locale session_on_socket =
  fixes step :: "'n \<Rightarrow> 'e \<Rightarrow> 'n \<times> 'o list"
    and up :: "'n \<Rightarrow> bool"
    and onm :: "'d \<Rightarrow> mem \<Rightarrow> exn + 'p"
    and recv :: "'k \<Rightarrow> nat \<Rightarrow> completion \<times> 'k"
    and sess :: "'n \<Rightarrow> 'd session"
    and sock :: "'n \<Rightarrow> 'k"
    and mine :: "'e \<Rightarrow> bool"
    and sees :: "'n \<Rightarrow> 'e \<Rightarrow> completion list"
  assumes down: "\<not> up n \<Longrightarrow> \<not> up (fst (step n e))"
    and turn: "up n \<Longrightarrow> mine e \<Longrightarrow> sees n e = fst (answer recv (sock n) (sess n))"
    and turn_sock: "up n \<Longrightarrow> mine e \<Longrightarrow> sock (fst (step n e)) = snd (answer recv (sock n) (sess n))"
    and others: "up n \<Longrightarrow> \<not> mine e \<Longrightarrow> sees n e = []"
    and others_sock: "up n \<Longrightarrow> \<not> mine e \<Longrightarrow> sock (fst (step n e)) = sock n"
    and serves: "up n \<Longrightarrow> sess (fst (step n e)) = fst (run (complete onm) (sess n) (sees n e))"
begin

lemma up_before: "up (fst (run step n es)) \<Longrightarrow> up n"
  using run_invariant [where I = "\<lambda>n. \<not> up n" and step = step and s = n and es = es] down by blast

text \<open>
  The completions that reach the session are the ones that deliver the messages, as far as the turns go.
  The program must be up before the last event.
\<close>

lemma delivered:
  assumes "asio_delivers recv inbox"
  shows "up (fst (run step n (butlast es))) \<Longrightarrow> answers onm (sess n) cs \<Longrightarrow>
    inbox (sock n) = concat (map c_bytes cs) @ rest \<Longrightarrow>
    turns mine es \<le> length cs \<Longrightarrow> events_along step sees n es = take (turns mine es) cs"
proof (induction es arbitrary: n cs)
  case (Cons e es)
  have up: "up n" using Cons.prems(1) by (rule up_before)
  have later: "up (fst (run step (fst (step n e)) (butlast es)))" if "es \<noteq> []"
    using Cons.prems(1) that by (simp add: fst_run_Cons del: run.simps)
  show ?case
  proof (cases "mine e")
    case True
    then obtain c cs' where cs: "cs = c # cs'" using Cons.prems(4) by (cases cs) auto
    note ans = answer_delivers [OF assms Cons.prems(2,3) [unfolded cs]]
    have saw: "sees n e = [c]" using turn [OF up True] ans(1) by simp
    have "answers onm (sess (fst (step n e))) cs'"
      using Cons.prems(2) serves [OF up, of e] by (auto simp: cs saw split_beta split: option.splits)
    then have "events_along step sees (fst (step n e)) es = take (turns mine es) cs'"
      using Cons.IH [OF later, of cs'] turn_sock [OF up True] ans(2) Cons.prems(4) True
      by (cases "es = []") (simp_all add: cs)
    then show ?thesis using True by (simp add: cs saw)
  next
    case False
    then have "events_along step sees (fst (step n e)) es = take (turns mine es) cs"
      using Cons.IH [OF later, of cs] others_sock [OF up False] serves [OF up, of e] others [OF up False] Cons.prems
      by (cases "es = []") simp_all
    then show ?thesis using False others [OF up False] by simp
  qed
qed simp

end

text \<open>The reads in a trace of events, event by event.\<close>

lemma trace_reads:
  "concat (map f (events_along step ev s es)) = events_along step (\<lambda>s e. concat (map f (ev s e))) s es"
  by (induction es arbitrary: s) simp_all

lemma reads_answered:
  assumes "ready d s" and "list_all well_framed ms" and "\<And>msg. route d msg = Inr (act msg)"
  shows "answers onMessage s (concat (map reads_of ms))"
  using dispatch.frame_all [OF assms(1), of ms "map act ms"] assms(2,3) by (simp add: list_all_iff o_def)

section \<open>A socket of segments\<close>

text \<open>
  A socket whose stream TCP has cut into segments, and the read of exactly \<open>n\<close> bytes over it, taking as
  many segments as it needs: what asio promises can be kept.
\<close>

fun take_segments :: "nat \<Rightarrow> bytes list \<Rightarrow> bytes \<times> bytes list" where
  "take_segments n [] = ([], [])"
| "take_segments n (seg # segs) =
     (if n \<le> length seg then (take n seg, drop n seg # segs)
      else let (bs, segs') = take_segments (n - length seg) segs in (seg @ bs, segs'))"

definition segment_recv :: "bytes list \<Rightarrow> nat \<Rightarrow> completion \<times> bytes list" where
  "segment_recv segs n =
     (let (bs, segs') = take_segments n segs in (\<lparr>c_error = length (concat segs) < n, c_bytes = bs\<rparr>, segs'))"

lemma take_segments_concat:
  "n \<le> length (concat segs) \<Longrightarrow>
   fst (take_segments n segs) = take n (concat segs) \<and> concat (snd (take_segments n segs)) = drop n (concat segs)"
  by (induction n segs rule: take_segments.induct) (auto simp: split_beta)

lemma segment_recv_delivers: "asio_delivers segment_recv concat"
  using take_segments_concat by (fastforce simp: asio_delivers_def segment_recv_def completed_def split_beta)

end
