(* ===== verification/Eproxy_Net.thy ===== *)
theory Eproxy_Net imports Eproxy_Stream Eproxy_Relay Session_Socket begin

text \<open>
  The proxy between two TCP connections. \<open>Eproxy\<close> takes the completions of the reads as they come;
  here they come from sockets: when the io thread serves a session, the socket answers the read the
  session has asked for. The asio library is the parameter \<open>recv\<close>, with \<open>asio_delivers\<close>
  what it promises. So the theorems speak of the bytes the peers send, not of completed reads.
\<close>

section \<open>State and steps\<close>

record 'k net =
  proxy :: eproxy
  s_sock :: 'k
  c_sock :: 'k

text \<open>A turn of the io thread on a session's read, or a step that needs no socket.\<close>

datatype net_event =
  Switch_turn | Controller_turn | Thread_turn mem | Start_turn endpoint | Move_turn endpoint nat nat

text \<open>The event of the proxy that a turn stands for; without an outstanding read there is none.\<close>

definition turn_event :: "('k \<Rightarrow> nat \<Rightarrow> completion \<times> 'k) \<Rightarrow> 'k net \<Rightarrow> net_event \<Rightarrow> eproxy_event list" where
  "turn_event recv n e =
     (case e of
        Switch_turn \<Rightarrow> map Switch_read (fst (answer recv (s_sock n) (s_session (proxy n))))
      | Controller_turn \<Rightarrow> map Controller_read (fst (answer recv (c_sock n) (c_session (proxy n))))
      | Thread_turn junk \<Rightarrow> [Worker_step junk]
      | Start_turn d \<Rightarrow> [Write_start d]
      | Move_turn d i m \<Rightarrow> [Write_move d i m])"

definition turn_sockets :: "('k \<Rightarrow> nat \<Rightarrow> completion \<times> 'k) \<Rightarrow> 'k net \<Rightarrow> net_event \<Rightarrow> 'k net" where
  "turn_sockets recv n e =
     (case e of
        Switch_turn \<Rightarrow> n\<lparr>s_sock := snd (answer recv (s_sock n) (s_session (proxy n)))\<rparr>
      | Controller_turn \<Rightarrow> n\<lparr>c_sock := snd (answer recv (c_sock n) (c_session (proxy n)))\<rparr>
      | _ \<Rightarrow> n)"

definition net_step :: "('k \<Rightarrow> nat \<Rightarrow> completion \<times> 'k) \<Rightarrow> 'k net \<Rightarrow> net_event \<Rightarrow> 'k net \<times> eproxy_out list" where
  "net_step recv n e =
     (let (p, os) = run eproxy_step (proxy n) (turn_event recv n e)
      in ((turn_sockets recv n e)\<lparr>proxy := p\<rparr>, os))"

text \<open>The proxy in the network is the proxy of \<open>Eproxy\<close> on the events of the turns.\<close>

abbreviation net_trace where
  "net_trace recv \<equiv> events_along (net_step recv) (turn_event recv)"

interpretation in_net: projection "net_step recv" eproxy_step proxy "turn_event recv" Some
  by unfold_locales (simp_all add: net_step_def split_beta List.map_filter_def)

lemma net_step_parts:
  "proxy (fst (net_step recv n e)) = fst (run eproxy_step (proxy n) (turn_event recv n e))"
  "s_sock (fst (net_step recv n e)) = s_sock (turn_sockets recv n e)"
  "c_sock (fst (net_step recv n e)) = c_sock (turn_sockets recv n e)"
  by (simp_all add: net_step_def split_beta)

section \<open>The two sessions\<close>

abbreviation switch_turns where "switch_turns \<equiv> turns (\<lambda>e. e = Switch_turn)"
abbreviation controller_turns where "controller_turns \<equiv> turns (\<lambda>e. e = Controller_turn)"

text \<open>A session of a running proxy is served the completion of its own read.\<close>

lemma session_served:
  assumes "\<not> stopped p" and "length es \<le> 1"
  shows "s_session (fst (run eproxy_step p es)) =
      fst (run (complete onMessage) (s_session p) (concat (map switch_reads es)))"
    and "c_session (fst (run eproxy_step p es)) =
      fst (run (complete onMessage) (c_session p) (concat (map controller_reads es)))"
proof -
  consider "es = []" | e where "es = [e]" using assms(2) by (cases es) auto
  then show "s_session (fst (run eproxy_step p es)) =
      fst (run (complete onMessage) (s_session p) (concat (map switch_reads es)))"
    and "c_session (fst (run eproxy_step p es)) =
      fst (run (complete onMessage) (c_session p) (concat (map controller_reads es)))"
    using switch_reader.own_step [of p] controller_reader.own_step [of p]
    by (cases; simp add: assms(1) split_beta)+
qed

lemma turn_event_one: "length (turn_event recv n e) \<le> 1"
  using answer_one by (cases e) (simp_all add: turn_event_def)

lemmas turn_served = session_served [OF _ turn_event_one]

lemma stopped_run: "stopped p \<Longrightarrow> stopped (fst (run eproxy_step p es))"
  by (rule run_invariant) (simp_all add: eproxy_step_def)

lemma turn_reads:
  "concat (map switch_reads (turn_event recv n e)) =
    (if e = Switch_turn then fst (answer recv (s_sock n) (s_session (proxy n))) else [])"
  "concat (map controller_reads (turn_event recv n e)) =
    (if e = Controller_turn then fst (answer recv (c_sock n) (c_session (proxy n))) else [])"
proof -
  have "concat (map switch_reads (map Switch_read cs)) = cs" "concat (map switch_reads (map Controller_read cs)) = []"
    "concat (map controller_reads (map Switch_read cs)) = []"
    "concat (map controller_reads (map Controller_read cs)) = cs" for cs
    by (induction cs) simp_all
  then show "concat (map switch_reads (turn_event recv n e)) =
      (if e = Switch_turn then fst (answer recv (s_sock n) (s_session (proxy n))) else [])"
    and "concat (map controller_reads (turn_event recv n e)) =
      (if e = Controller_turn then fst (answer recv (c_sock n) (c_session (proxy n))) else [])"
    by (cases e; simp add: turn_event_def del: map_map)+
qed

interpretation switch_socket: session_on_socket "net_step recv" "\<lambda>n. \<not> stopped (proxy n)" onMessage recv
  "\<lambda>n. s_session (proxy n)" s_sock "\<lambda>e. e = Switch_turn" "\<lambda>n e. concat (map switch_reads (turn_event recv n e))"
  by unfold_locales
    (simp_all add: net_step_parts stopped_run turn_served turn_reads turn_sockets_def split: net_event.split)

interpretation controller_socket: session_on_socket "net_step recv" "\<lambda>n. \<not> stopped (proxy n)" onMessage recv
  "\<lambda>n. c_session (proxy n)" c_sock "\<lambda>e. e = Controller_turn" "\<lambda>n e. concat (map controller_reads (turn_event recv n e))"
  by unfold_locales
    (simp_all add: net_step_parts stopped_run turn_served turn_reads turn_sockets_def split: net_event.split)

lemma net_proxy:
  "proxy (fst (run (net_step recv) n es)) = fst (run eproxy_step (proxy n) (net_trace recv n es))"
  by (rule in_net.run_proj)

text \<open>What the two sessions have dispatched when their peers send messages.\<close>

lemma net_outputs:
  assumes "asio_delivers recv inbox" and "n = \<lparr>proxy = eproxy_main s_junk c_junk, s_sock = k, c_sock = k'\<rparr>"
  shows "inbox k = concat ms @ rest \<Longrightarrow> list_all well_framed ms \<Longrightarrow>
      switch_turns es \<le> length (concat (map reads_of ms)) \<Longrightarrow>
      List.map_filter from_switch (snd (run eproxy_step (eproxy_main s_junk c_junk) (net_trace recv n es))) =
        map (\<lambda>msg. Dispatched (Call (switch_callback msg) msg)) (framed (switch_turns es) ms)"
    and "inbox k' = concat cs @ rest' \<Longrightarrow> list_all well_framed cs \<Longrightarrow>
      controller_turns es \<le> length (concat (map reads_of cs)) \<Longrightarrow>
      List.map_filter from_controller (snd (run eproxy_step (eproxy_main s_junk c_junk) (net_trace recv n es))) =
        map (\<lambda>msg. Dispatched (Call (Session_write S_session) msg)) (framed (controller_turns es) cs)"
proof -
  have n: "proxy n = eproxy_main s_junk c_junk" "s_sock n = k" "c_sock n = k'"
    by (simp_all add: assms(2))
  have up: "\<not> stopped (proxy (fst (run (net_step recv) n (butlast es))))"
    unfolding net_proxy n by (intro wired_alive wired_run wired_main)
  show "List.map_filter from_switch (snd (run eproxy_step (eproxy_main s_junk c_junk) (net_trace recv n es))) =
      map (\<lambda>msg. Dispatched (Call (switch_callback msg) msg)) (framed (switch_turns es) ms)"
    if h: "inbox k = concat ms @ rest" "list_all well_framed ms" "switch_turns es \<le> length (concat (map reads_of ms))"
  proof (rule switch_outputs_some [OF wired_main ready_main(1) _ h(2)])
    show "concat (map switch_reads (net_trace recv n es)) = take (switch_turns es) (concat (map reads_of ms))"
      unfolding trace_reads
      by (rule switch_socket.delivered [OF assms(1) up _ _ h(3), where rest = rest])
        (use reads_answered [OF ready_main(1) h(2) route_switch] h(1) in \<open>simp_all only: n concat_map_reads_of\<close>)
  qed
  show "List.map_filter from_controller (snd (run eproxy_step (eproxy_main s_junk c_junk) (net_trace recv n es))) =
      map (\<lambda>msg. Dispatched (Call (Session_write S_session) msg)) (framed (controller_turns es) cs)"
    if h: "inbox k' = concat cs @ rest'" "list_all well_framed cs"
      "controller_turns es \<le> length (concat (map reads_of cs))"
  proof (rule controller_outputs_some [OF wired_main ready_main(2) _ h(2)])
    show "concat (map controller_reads (net_trace recv n es)) = take (controller_turns es) (concat (map reads_of cs))"
      unfolding trace_reads
      by (rule controller_socket.delivered [OF assms(1) up _ _ h(3), where rest = rest'])
        (use reads_answered [OF ready_main(2) h(2) route_controller] h(1) in \<open>simp_all only: n concat_map_reads_of\<close>)
  qed
qed

section \<open>Properties\<close>

text \<open>
  C2. From socket to socket: when the switch sends well-framed messages, then at every moment, for every
  interleaving of the turns, what the proxy has written to the controller is exactly the messages
  whose header and body have been read, so a beginning of what the switch sent; and while transfers
  take turns the bytes on the controller's socket are a beginning of the bytes of the switch. The
  hypothesis on \<open>recv\<close> is asio's documentation; no turn is taken when the switch has sent nothing more.
\<close>

theorem proxy_between_sockets:
  assumes "asio_delivers recv inbox" and "inbox k = concat ms @ rest" and "list_all well_framed ms"
    and "switch_turns es \<le> length (concat (map reads_of ms))"
    and "n = \<lparr>proxy = eproxy_main s_junk c_junk, s_sock = k, c_sock = k'\<rparr>"
  shows "written (c_writer (proxy (fst (run (net_step recv) n es)))) = framed (switch_turns es) ms \<and>
    (in_turn (proxy n) (net_trace recv n es) \<longrightarrow>
      (\<exists>more. concat ms = stream (c_writer (proxy (fst (run (net_step recv) n es)))) @ more))"
proof -
  let ?p = "eproxy_main s_junk c_junk" and ?tr = "net_trace recv n es"
  have final: "proxy (fst (run (net_step recv) n es)) = fst (run eproxy_step ?p ?tr)" "proxy n = ?p"
    using net_proxy [of recv n es] by (simp_all add: assms(5))
  have log: "written (c_writer (fst (run eproxy_step ?p ?tr))) = framed (switch_turns es) ms"
    using controller_log [of s_junk c_junk ?tr] net_outputs(1) [OF assms(1,5,2-4)]
    by (simp add: dispatched_messages)
  have "\<exists>more. concat ms = stream (c_writer (fst (run eproxy_step ?p ?tr))) @ more" if turn: "in_turn ?p ?tr"
  proof -
    obtain more where "concat (framed (switch_turns es) ms) = stream (c_writer (fst (run eproxy_step ?p ?tr))) @ more"
      using begun_stream [OF in_turn_main [OF turn]] by (auto simp: log)
    moreover obtain later where "ms = framed (switch_turns es) ms @ later"
      using framed_prefix by blast
    ultimately show ?thesis by (metis append_assoc concat_append)
  qed
  with log show ?thesis by (simp add: final)
qed

theorem proxy_between_sockets_witness:
  "written (c_writer (proxy (fst (run (net_step segment_recv)
      \<lparr>proxy = eproxy_main (\<lambda>_. 0) (\<lambda>_. 1),
       s_sock = [[4, 0, 0], [8, 0, 0], [0, 1, 4, 10], [0, 12, 0, 0, 0, 2], [], [1, 2, 3], [4, 5]], c_sock = []\<rparr>
      [Switch_turn, Thread_turn (\<lambda>_. 0), Start_turn C_session, Switch_turn])))) = [header_bytes 4 0 8 1]"
proof -
  let ?n = "\<lparr>proxy = eproxy_main (\<lambda>_. 0) (\<lambda>_. 1),
    s_sock = [[4, 0, 0], [8, 0, 0], [0, 1, 4, 10], [0, 12, 0, 0, 0, 2], [], [1, 2, 3], [4, 5]], c_sock = []\<rparr>"
  let ?es = "[Switch_turn, Thread_turn (\<lambda>_. 0), Start_turn C_session, Switch_turn]"
  have bytes: "header_bytes 4 0 8 1 = [4, 0, 0, 8, 0, 0, 0, 1]" "header_bytes 4 10 12 2 = [4, 10, 0, 12, 0, 0, 0, 2]"
    by (simp_all add: header_bytes_def be_bytes_2 be_bytes_4)
  have sent: "concat (s_sock ?n) = concat sample_messages @ [5]"
    by (simp add: sample_messages_def bytes)
  have ms: "list_all well_framed sample_messages" "switch_turns ?es = 2"
    "switch_turns ?es \<le> length (concat (map reads_of sample_messages))" "framed 2 sample_messages = [header_bytes 4 0 8 1]"
    by (simp_all add: sample_messages_def well_framed_def reads_of_def)
  have "written (c_writer (proxy (fst (run (net_step segment_recv) ?n ?es)))) = framed (switch_turns ?es) sample_messages"
    using proxy_between_sockets [OF segment_recv_delivers sent ms(1,3), of ?n "\<lambda>_. 0" "\<lambda>_. 1" "[]"] by simp
  then show ?thesis by (simp only: ms)
qed

text \<open>
  C3. The other direction, from socket to socket: at every moment, what the proxy has written to the
  switch is a shuffle of the controller's messages that have been read with flow modifications of the
  migrator, at most one for every ten packet-ins that have been read from the switch.
\<close>

theorem sockets_to_switch:
  assumes "asio_delivers recv inbox"
    and "inbox k = concat ms @ rest" and "list_all well_framed ms"
    and "switch_turns es \<le> length (concat (map reads_of ms))"
    and "inbox k' = concat cs @ rest'" and "list_all well_framed cs"
    and "controller_turns es \<le> length (concat (map reads_of cs))"
    and "n = \<lparr>proxy = eproxy_main s_junk c_junk, s_sock = k, c_sock = k'\<rparr>"
  shows "\<exists>j. 10 * j \<le> length (filter is_packet_in (framed (switch_turns es) ms)) \<and>
    written (s_writer (proxy (fst (run (net_step recv) n es)))) \<in>
      shuffles (framed (controller_turns es) cs) (replicate j (switch_bytes 3))"
  using paid_outputs [OF net_outputs(1) [OF assms(1,8,2-4)] net_outputs(2) [OF assms(1,8,5-7)]]
    net_proxy [of recv n es] by (simp add: assms(8))

text \<open>One message of the controller has been read whole, of the next only the header; the switch is silent.\<close>

theorem sockets_to_switch_witness:
  "written (s_writer (proxy (fst (run (net_step segment_recv)
      \<lparr>proxy = eproxy_main (\<lambda>_. 0) (\<lambda>_. 1), s_sock = [],
       c_sock = [[4, 0, 0], [8, 0, 0], [0, 1, 4, 10], [0, 12, 0, 0, 0, 2], [], [1, 2, 3], [4, 5]]\<rparr>
      [Controller_turn, Thread_turn (\<lambda>_. 0), Start_turn S_session, Controller_turn])))) = [header_bytes 4 0 8 1]"
proof -
  let ?n = "\<lparr>proxy = eproxy_main (\<lambda>_. 0) (\<lambda>_. 1), s_sock = [],
    c_sock = [[4, 0, 0], [8, 0, 0], [0, 1, 4, 10], [0, 12, 0, 0, 0, 2], [], [1, 2, 3], [4, 5]]\<rparr>"
  let ?es = "[Controller_turn, Thread_turn (\<lambda>_. 0), Start_turn S_session, Controller_turn]"
  have bytes: "header_bytes 4 0 8 1 = [4, 0, 0, 8, 0, 0, 0, 1]" "header_bytes 4 10 12 2 = [4, 10, 0, 12, 0, 0, 0, 2]"
    by (simp_all add: header_bytes_def be_bytes_2 be_bytes_4)
  have sent: "concat (s_sock ?n) = concat [] @ []" "concat (c_sock ?n) = concat sample_messages @ [5]"
    by (simp_all add: sample_messages_def bytes)
  have ms: "list_all well_framed []" "switch_turns ?es \<le> length (concat (map reads_of []))"
    "list_all well_framed sample_messages" "controller_turns ?es = 2"
    "controller_turns ?es \<le> length (concat (map reads_of sample_messages))"
    "framed 2 sample_messages = [header_bytes 4 0 8 1]" "switch_turns ?es = 0"
    by (simp_all add: sample_messages_def well_framed_def reads_of_def)
  obtain j where "10 * j \<le> length (filter is_packet_in (framed (switch_turns ?es) []))"
    "written (s_writer (proxy (fst (run (net_step segment_recv) ?n ?es)))) \<in>
      shuffles (framed (controller_turns ?es) sample_messages) (replicate j (switch_bytes 3))"
    using sockets_to_switch [OF segment_recv_delivers sent(1) ms(1,2) sent(2) ms(3,5), of ?n "\<lambda>_. 0" "\<lambda>_. 1"] by auto
  then show ?thesis by (simp only: ms) simp
qed

end
