(* ===== verification/Packet_Headers.thy ===== *)
theory Packet_Headers imports C_Layout begin

text \<open>
  \<open>header_defu.h\<close>: the Ethernet, IP and TCP headers of the generated packets, their constructors
  and the macros that read their fields. A constructor writes the members its initialiser list
  names into an object that holds anything; the members it does not name keep what was there.
\<close>

section \<open>Layouts\<close>

definition ETHER_ADDR_LEN :: nat where "ETHER_ADDR_LEN = 6"
definition ETHER_TYPE_IP :: u16 where "ETHER_TYPE_IP = 0x0800"

definition sniff_ethernet :: ctype where
  "sniff_ethernet = C_struct
    [(''ether_dhost'', C_array C_uint8 ETHER_ADDR_LEN),
     (''ether_shost'', C_array C_uint8 ETHER_ADDR_LEN),
     (''ether_type'', C_uint16)]"

text \<open>\<open>struct in_addr\<close> of the C library: one 32-bit word in network byte order.\<close>

definition in_addr :: ctype where
  "in_addr = C_struct [(''s_addr'', C_uint32)]"

definition sniff_ip :: ctype where
  "sniff_ip = C_struct
    [(''ip_vhl'', C_uint8), (''ip_tos'', C_uint8), (''ip_len'', C_uint16), (''ip_id'', C_uint16),
     (''ip_off'', C_uint16), (''ip_ttl'', C_uint8), (''ip_p'', C_uint8), (''ip_sum'', C_uint16),
     (''ip_src'', in_addr), (''ip_dst'', in_addr)]"

definition sniff_tcp :: ctype where
  "sniff_tcp = C_struct
    [(''th_sport'', C_uint16), (''th_dport'', C_uint16), (''th_seq'', C_uint32),
     (''th_ack'', C_uint32), (''th_offx2'', C_uint8), (''th_flags'', C_uint8),
     (''th_win'', C_uint16), (''th_sum'', C_uint16), (''th_urp'', C_uint16)]"

lemmas sniff_defs = sniff_ethernet_def sniff_ip_def sniff_tcp_def in_addr_def ETHER_ADDR_LEN_def

definition SIZE_ETHERNET :: nat where "SIZE_ETHERNET = sizeof sniff_ethernet"
definition SIZE_IP :: nat where "SIZE_IP = sizeof sniff_ip"
definition SIZE_TCP :: nat where "SIZE_TCP = sizeof sniff_tcp"

lemma sniff_sizes [simp, layout_simps]:
  "sizeof sniff_ethernet = 14" "sizeof sniff_ip = 20" "sizeof sniff_tcp = 20"
  by code_simp+

section \<open>Flags and macros\<close>

definition IP_RF :: u16 where "IP_RF = 0x8000"
definition IP_DF :: u16 where "IP_DF = 0x4000"
definition IP_MF :: u16 where "IP_MF = 0x2000"
definition IP_OFFMASK :: u16 where "IP_OFFMASK = 0x1fff"

definition TH_FIN :: u8 where "TH_FIN = 0x01"
definition TH_SYN :: u8 where "TH_SYN = 0x02"
definition TH_RST :: u8 where "TH_RST = 0x04"
definition TH_PUSH :: u8 where "TH_PUSH = 0x08"
definition TH_ACK :: u8 where "TH_ACK = 0x10"
definition TH_URG :: u8 where "TH_URG = 0x20"
definition TH_ECE :: u8 where "TH_ECE = 0x40"
definition TH_CWR :: u8 where "TH_CWR = 0x80"

unbundle bit_operations_syntax

definition TH_FLAGS :: u8 where
  "TH_FLAGS = TH_FIN OR TH_SYN OR TH_RST OR TH_ACK OR TH_URG OR TH_ECE OR TH_CWR"

text \<open>The macros on the one byte each of them reads.\<close>

definition IP_HL :: "u8 \<Rightarrow> u8" where "IP_HL ip_vhl = ip_vhl AND 0x0f"
definition IP_V :: "u8 \<Rightarrow> u8" where "IP_V ip_vhl = drop_bit 4 ip_vhl"
definition TH_OFF :: "u8 \<Rightarrow> u8" where "TH_OFF th_offx2 = drop_bit 4 (th_offx2 AND 0xf0)"

section \<open>Constructors\<close>

text \<open>
  \<open>inet_aton\<close> of the C library on a dotted quad of decimal numbers, which is what the code passes:
  the four numbers in network order, or failure.
\<close>

fun decimal :: "nat \<Rightarrow> string \<Rightarrow> nat option" where
  "decimal n [] = Some n"
| "decimal n (c # cs) =
     (if 48 \<le> (of_char c :: nat) \<and> (of_char c :: nat) < 58 then decimal (10 * n + (of_char c - 48)) cs
      else None)"

fun split_dots :: "string \<Rightarrow> string \<Rightarrow> string list" where
  "split_dots acc [] = [rev acc]"
| "split_dots acc (c # cs) =
     (if c = CHR 0x2E then rev acc # split_dots [] cs else split_dots (c # acc) cs)"

definition octet :: "string \<Rightarrow> byte option" where
  "octet s = (if s = [] then None
     else case decimal 0 s of None \<Rightarrow> None | Some n \<Rightarrow> if n < 256 then Some (of_nat n) else None)"

definition inet_aton :: "string \<Rightarrow> bytes option" where
  "inet_aton cp = (let parts = split_dots [] cp
     in if length parts = 4 then those (map octet parts) else None)"

text \<open>A failing \<open>inet_aton\<close> leaves its target alone.\<close>

definition aton_assignment :: "ctype \<Rightarrow> path \<Rightarrow> string \<Rightarrow> assignment list" where
  "aton_assignment t p cp = (case inet_aton cp of None \<Rightarrow> [] | Some bs \<Rightarrow> [(t, 0, p, bs)])"

definition ethernet_init :: "assignment list" where
  "ethernet_init =
    [(sniff_ethernet, 0, [Field ''ether_dhost''], replicate 6 0),
     (sniff_ethernet, 0, [Field ''ether_shost''], replicate 6 0),
     (sniff_ethernet, 0, [Field ''ether_type''], bytes_of_word 2 (htons ETHER_TYPE_IP))]"

definition new_sniff_ethernet :: "mem \<Rightarrow> mem" where
  "new_sniff_ethernet junk = fold assign ethernet_init junk"

definition ip_init :: "assignment list" where
  "ip_init =
     [(sniff_ip, 0, [Field ''ip_vhl''], bytes_of_word 1 (0x45 :: u8)),
      (sniff_ip, 0, [Field ''ip_tos''], bytes_of_word 1 (0x00 :: u8)),
      (sniff_ip, 0, [Field ''ip_len''], bytes_of_word 2 (20 :: u16)),
      (sniff_ip, 0, [Field ''ip_id''], bytes_of_word 2 (0 :: u16)),
      (sniff_ip, 0, [Field ''ip_off''], bytes_of_word 2 (0x0000 :: u16)),
      (sniff_ip, 0, [Field ''ip_ttl''], bytes_of_word 1 (64 :: u8)),
      (sniff_ip, 0, [Field ''ip_p''], bytes_of_word 1 (0x06 :: u8))] @
     aton_assignment sniff_ip [Field ''ip_src''] ''10.0.0.1'' @
     aton_assignment sniff_ip [Field ''ip_dst''] ''10.0.0.2''"

definition new_sniff_ip :: "mem \<Rightarrow> mem" where
  "new_sniff_ip junk = fold assign ip_init junk"

definition tcp_init :: "assignment list" where
  "tcp_init =
    [(sniff_tcp, 0, [Field ''th_offx2''], bytes_of_word 1 (0x50 :: u8)),
     (sniff_tcp, 0, [Field ''th_flags''], bytes_of_word 1 TH_ACK),
     (sniff_tcp, 0, [Field ''th_sum''], bytes_of_word 2 (0x00 :: u16)),
     (sniff_tcp, 0, [Field ''th_urp''], bytes_of_word 2 (0x00 :: u16))]"

definition new_sniff_tcp :: "mem \<Rightarrow> mem" where
  "new_sniff_tcp junk = fold assign tcp_init junk"

lemma sniff_slots [layout_simps]:
  "slot sniff_ethernet [Field ''ether_dhost''] = Some (0, C_array C_uint8 6)"
  "slot sniff_ethernet [Field ''ether_shost''] = Some (6, C_array C_uint8 6)"
  "slot sniff_ethernet [Field ''ether_type''] = Some (12, C_uint16)"
  "slot sniff_ip [Field ''ip_vhl''] = Some (0, C_uint8)"
  "slot sniff_ip [Field ''ip_tos''] = Some (1, C_uint8)"
  "slot sniff_ip [Field ''ip_len''] = Some (2, C_uint16)"
  "slot sniff_ip [Field ''ip_id''] = Some (4, C_uint16)"
  "slot sniff_ip [Field ''ip_off''] = Some (6, C_uint16)"
  "slot sniff_ip [Field ''ip_ttl''] = Some (8, C_uint8)"
  "slot sniff_ip [Field ''ip_p''] = Some (9, C_uint8)"
  "slot sniff_ip [Field ''ip_sum''] = Some (10, C_uint16)"
  "slot sniff_ip [Field ''ip_src''] = Some (12, in_addr)"
  "slot sniff_ip [Field ''ip_dst''] = Some (16, in_addr)"
  "slot sniff_tcp [Field ''th_offx2''] = Some (12, C_uint8)"
  "slot sniff_tcp [Field ''th_flags''] = Some (13, C_uint8)"
  "slot sniff_tcp [Field ''th_win''] = Some (14, C_uint16)"
  "slot sniff_tcp [Field ''th_sum''] = Some (16, C_uint16)"
  "slot sniff_tcp [Field ''th_urp''] = Some (18, C_uint16)"
  "sizeof in_addr = 4" "sizeof (C_array C_uint8 6) = 6"
  by code_simp+

lemma aton_literals:
  "inet_aton ''10.0.0.1'' = Some [10, 0, 0, 1]" "inet_aton ''10.0.0.2'' = Some [10, 0, 0, 2]"
  by code_simp+

lemma ethernet_bytes: "load (new_sniff_ethernet junk) 0 14 = replicate 6 0 @ replicate 6 0 @ [8, 0]"
proof -
  have "load (new_sniff_ethernet junk) 0 14 = load_fields (new_sniff_ethernet junk) 0 [6, 6, 2]"
    by (rule load_by_fields) simp
  also have "\<dots> = replicate 6 0 @ replicate 6 0 @ [8, 0]"
    by (simp add: new_sniff_ethernet_def ethernet_init_def put_def layout_simps mem_simps wire_simps ETHER_TYPE_IP_def
        be_bytes_2)
  finally show ?thesis .
qed

lemma ip_bytes:
  "load (new_sniff_ip junk) 0 20 =
    [0x45, 0, 20, 0, 0, 0, 0, 0, 64, 6] @ load junk 10 2 @ [10, 0, 0, 1, 10, 0, 0, 2]"
proof -
  have "load (new_sniff_ip junk) 0 20 =
      load_fields (new_sniff_ip junk) 0 [1, 1, 2, 2, 2, 1, 1, 2, 4, 4]"
    by (rule load_by_fields) simp
  also have "\<dots> = [0x45, 0, 20, 0, 0, 0, 0, 0, 64, 6] @ load junk 10 2 @ [10, 0, 0, 1, 10, 0, 0, 2]"
    by (simp add: new_sniff_ip_def ip_init_def aton_assignment_def aton_literals put_def layout_simps mem_simps
        wire_simps bytes_of_word_1 bytes_of_word_2 del: One_nat_def)
  finally show ?thesis .
qed

lemma tcp_bytes:
  "load (new_sniff_tcp junk) 0 20 = load junk 0 12 @ [0x50, 0x10] @ load junk 14 2 @ [0, 0, 0, 0]"
proof -
  have "load (new_sniff_tcp junk) 0 20 = load_fields (new_sniff_tcp junk) 0 [12, 1, 1, 2, 2, 2]"
    by (rule load_by_fields) simp
  also have "\<dots> = load junk 0 12 @ [0x50, 0x10] @ load junk 14 2 @ [0, 0, 0, 0]"
    by (simp add: new_sniff_tcp_def tcp_init_def put_def layout_simps mem_simps wire_simps bytes_of_word_1
        bytes_of_word_2 TH_ACK_def del: One_nat_def)
  finally show ?thesis .
qed

section \<open>Properties\<close>

text \<open>
  The constructed headers describe themselves: the lengths in the IP and TCP headers, in words
  of four bytes, are the sizes of the structures, the version is 4, and the three structures have
  the sizes of the protocols' headers without options.
\<close>

theorem headers_self_describing:
  "(SIZE_ETHERNET, SIZE_IP, SIZE_TCP) = (14, 20, 20) \<and>
   IP_V (new_sniff_ip junk 0) = 4 \<and>
   4 * unat (IP_HL (new_sniff_ip junk 0)) = SIZE_IP \<and>
   4 * unat (TH_OFF (new_sniff_tcp junk 12)) = SIZE_TCP \<and>
   new_sniff_tcp junk 13 AND TH_FLAGS = TH_ACK"
proof -
  have "new_sniff_ip junk 0 = 0x45"
    using nth_load [of 0 20 "new_sniff_ip junk" 0] by (simp add: ip_bytes)
  moreover have "new_sniff_tcp junk 12 = 0x50" "new_sniff_tcp junk 13 = 0x10"
    using nth_load [of 12 20 "new_sniff_tcp junk" 0] nth_load [of 13 20 "new_sniff_tcp junk" 0]
    by (simp_all add: tcp_bytes nth_append)
  ultimately show ?thesis
    by (simp add: SIZE_ETHERNET_def SIZE_IP_def SIZE_TCP_def IP_V_def IP_HL_def TH_OFF_def TH_FLAGS_def
        TH_FIN_def TH_SYN_def TH_RST_def TH_ACK_def TH_URG_def TH_ECE_def TH_CWR_def)
qed

end
