(* ===== verification/Flow_Gen.thy ===== *)
theory Flow_Gen imports Packet_Headers begin

text \<open>
  \<open>FlowGen.h\<close> and \<open>FlowGen.cpp\<close>: the generator of packets with fresh Ethernet addresses, and the
  time arithmetic its sending loop is paced by.

  \<open>time_t\<close> and \<open>long\<close> are kept as \<open>int\<close>: their values (seconds since 1970, nanoseconds below
  \<open>2 ^ 33\<close>) stay far from \<open>2 ^ 63\<close>. The 32-bit integers are not: \<open>timespec_add\<close> keeps its sum in a
  \<open>uint32_t\<close> and \<open>timeval_subtract\<close> multiplies two \<open>int\<close>s, which can overflow; overflow of \<open>int\<close> is
  undefined in C++ and the model wraps, as the unoptimised build of \<open>CMakeLists.txt\<close> does.
\<close>

section \<open>Time\<close>

record timespec =
  tv_sec :: int
  tv_nsec :: int

definition nsec :: int where "nsec = 1000000000"

definition int32 :: "int \<Rightarrow> int" where "int32 v = sint (word_of_int v :: u32)"

text \<open>
  \<open>timeval_subtract(result, x, y)\<close>: the result, the new contents of \<open>y\<close>, which the carry changes,
  and the value returned. The dividends are positive, so C's division is \<open>div\<close>.
\<close>

definition carry_less :: "timespec \<Rightarrow> timespec \<Rightarrow> timespec" where
  "carry_less x y =
     (if tv_nsec x < tv_nsec y
      then let n = int32 ((tv_nsec y - tv_nsec x) div 1000000000 + 1)
           in \<lparr>tv_sec = tv_sec y + n, tv_nsec = tv_nsec y - int32 (1000000000 * n)\<rparr>
      else y)"

definition carry_more :: "timespec \<Rightarrow> timespec \<Rightarrow> timespec" where
  "carry_more x y =
     (if tv_nsec x - tv_nsec y > 1000000000
      then let n = int32 ((tv_nsec x - tv_nsec y) div 1000000000)
           in \<lparr>tv_sec = tv_sec y - n, tv_nsec = tv_nsec y + int32 (1000000000 * n)\<rparr>
      else y)"

definition timeval_subtract :: "timespec \<Rightarrow> timespec \<Rightarrow> timespec \<times> timespec \<times> int" where
  "timeval_subtract x y =
     (let y' = carry_more x (carry_less x y)
      in (\<lparr>tv_sec = tv_sec x - tv_sec y', tv_nsec = tv_nsec x - tv_nsec y'\<rparr>, y',
          if tv_sec x < tv_sec y' then 1 else 0))"

text \<open>\<open>timespec_add\<close>, with \<open>sub += nsec\<close> as written.\<close>

definition timespec_add :: "timespec \<Rightarrow> timespec \<Rightarrow> timespec" where
  "timespec_add x y =
     (let sub = word_of_int (tv_nsec x + tv_nsec y) :: u32
      in if nsec \<le> uint sub
         then \<lparr>tv_sec = tv_sec x + tv_sec y + 1, tv_nsec = uint (sub + word_of_int nsec)\<rparr>
         else \<lparr>tv_sec = tv_sec x + tv_sec y, tv_nsec = uint sub\<rparr>)"

text \<open>The time a \<open>timespec\<close> denotes, in nanoseconds; the range a clock reading has.\<close>

definition ns_of :: "timespec \<Rightarrow> int" where "ns_of t = tv_sec t * 1000000000 + tv_nsec t"

definition normal :: "timespec \<Rightarrow> bool" where "normal t \<longleftrightarrow> 0 \<le> tv_nsec t \<and> tv_nsec t < 1000000000"

lemma int32_id: "- (2 ^ 31) \<le> v \<Longrightarrow> v < 2 ^ 31 \<Longrightarrow> int32 v = v"
  unfolding int32_def by (simp add: signed_of_int signed_take_bit_int_eq_self)

lemma carry_less_correct:
  assumes "tv_nsec y - tv_nsec x < 2000000000"
  shows "ns_of (carry_less x y) = ns_of y"
    and "tv_nsec x < tv_nsec y \<Longrightarrow> 0 < tv_nsec x - tv_nsec (carry_less x y) \<and>
      tv_nsec x - tv_nsec (carry_less x y) \<le> 1000000000"
proof -
  let ?d = "tv_nsec y - tv_nsec x"
  have two: "?d div 1000000000 + 1 = 1 \<or> ?d div 1000000000 + 1 = 2" if "0 < ?d"
    using that assms by linarith
  then have n: "int32 (?d div 1000000000 + 1) = ?d div 1000000000 + 1"
    "int32 (1000000000 * (?d div 1000000000 + 1)) = 1000000000 * (?d div 1000000000 + 1)" if "0 < ?d"
    using that by (auto simp: int32_id)
  show "ns_of (carry_less x y) = ns_of y"
    using n by (auto simp: carry_less_def ns_of_def Let_def algebra_simps)
  show "0 < tv_nsec x - tv_nsec (carry_less x y) \<and> tv_nsec x - tv_nsec (carry_less x y) \<le> 1000000000"
    if "tv_nsec x < tv_nsec y"
    using that n two assms by (auto simp: carry_less_def Let_def)
qed

lemma carry_more_correct:
  assumes "tv_nsec x - tv_nsec y < 3000000000" and "tv_nsec y \<le> tv_nsec x"
  shows "ns_of (carry_more x y) = ns_of y"
    and "0 \<le> tv_nsec x - tv_nsec (carry_more x y) \<and> tv_nsec x - tv_nsec (carry_more x y) \<le> 1000000000"
proof -
  let ?d = "tv_nsec x - tv_nsec y"
  have two: "?d div 1000000000 = 1 \<or> ?d div 1000000000 = 2" if "1000000000 < ?d"
    using that assms by linarith
  then have n: "int32 (?d div 1000000000) = ?d div 1000000000"
    "int32 (1000000000 * (?d div 1000000000)) = 1000000000 * (?d div 1000000000)" if "1000000000 < ?d"
    using that by (auto simp: int32_id)
  show "ns_of (carry_more x y) = ns_of y"
    using n by (auto simp: carry_more_def ns_of_def Let_def algebra_simps)
  show "0 \<le> tv_nsec x - tv_nsec (carry_more x y) \<and> tv_nsec x - tv_nsec (carry_more x y) \<le> 1000000000"
    using n two assms by (auto simp: carry_more_def Let_def)
qed

lemma subtract_correct:
  assumes "tv_nsec y - tv_nsec x < 2000000000" and "tv_nsec x - tv_nsec y < 3000000000"
    and "timeval_subtract x y = (r, y', ret)"
  shows "ns_of r = ns_of x - ns_of y" and "ns_of y' = ns_of y" and "0 \<le> tv_nsec r"
    and "tv_nsec r \<le> 1000000000" and "tv_nsec r = tv_nsec x - tv_nsec y'"
    and "ret = (if tv_sec r < 0 then 1 else 0)"
proof -
  let ?y = "carry_less x y"
  have less: "ns_of ?y = ns_of y" using assms(1) by (rule carry_less_correct)
  have range: "tv_nsec x - tv_nsec ?y < 3000000000 \<and> tv_nsec ?y \<le> tv_nsec x"
  proof (cases "tv_nsec x < tv_nsec y")
    case True
    then show ?thesis using carry_less_correct(2) [OF assms(1)] by linarith
  next
    case False
    then show ?thesis using assms(2) by (simp add: carry_less_def)
  qed
  then have more: "ns_of (carry_more x ?y) = ns_of ?y"
    "0 \<le> tv_nsec x - tv_nsec (carry_more x ?y)" "tv_nsec x - tv_nsec (carry_more x ?y) \<le> 1000000000"
    using carry_more_correct [of x ?y] by auto
  have r: "y' = carry_more x ?y" "r = \<lparr>tv_sec = tv_sec x - tv_sec y', tv_nsec = tv_nsec x - tv_nsec y'\<rparr>"
    "ret = (if tv_sec x < tv_sec y' then 1 else 0)"
    using assms(3) by (auto simp: timeval_subtract_def Let_def)
  show "ns_of y' = ns_of y" using more less r(1) by simp
  then show "ns_of r = ns_of x - ns_of y" by (simp add: r(2) ns_of_def algebra_simps)
  show "0 \<le> tv_nsec r" "tv_nsec r \<le> 1000000000" "tv_nsec r = tv_nsec x - tv_nsec y'"
    "ret = (if tv_sec r < 0 then 1 else 0)"
    using more r by simp_all
qed

text \<open>When the returned value is 1.\<close>

lemma subtract_negative:
  assumes "tv_nsec y - tv_nsec x < 2000000000" and "tv_nsec x - tv_nsec y < 3000000000"
    and "timeval_subtract x y = (r, y', ret)"
  shows "ret = (if ns_of x < ns_of y \<or> ns_of x = ns_of y \<and> \<bar>tv_nsec x - tv_nsec y\<bar> = 1000000000 then 1 else 0)"
proof -
  note sub = subtract_correct [OF assms]
  let ?d = "tv_nsec x - tv_nsec y"
  have total: "tv_sec r * 1000000000 + tv_nsec r = ns_of x - ns_of y"
    using sub(1) by (simp add: ns_of_def)
  have sign: "tv_sec r < 0 \<longleftrightarrow> ns_of x < ns_of y \<or> ns_of x = ns_of y \<and> tv_nsec r = 1000000000"
    using total sub(3,4) by linarith
  have "tv_nsec r = 1000000000 \<longleftrightarrow> \<bar>?d\<bar> = 1000000000" if eq: "ns_of x = ns_of y"
  proof -
    have mult: "?d = 1000000000 * tv_sec y - 1000000000 * tv_sec x" using eq by (simp add: ns_of_def)
    moreover have "-2000000000 < ?d" using assms(1) by simp
    ultimately have "-2 < tv_sec y - tv_sec x" "tv_sec y - tv_sec x < 3"
      using assms(2) by simp_all
    then consider "tv_sec y = tv_sec x - 1" | "tv_sec y = tv_sec x" | "tv_sec y = tv_sec x + 1"
      | "tv_sec y = tv_sec x + 2"
      by linarith
    then consider "?d = -1000000000" | "?d = 0" | "?d = 1000000000" | "?d = 2000000000"
      unfolding mult by cases simp_all
    then show ?thesis
    proof cases
      case 1
      then have y: "tv_nsec y = tv_nsec x + 1000000000" by simp
      show ?thesis using assms(3) 1
        by (auto simp: timeval_subtract_def carry_less_def carry_more_def Let_def int32_id y)
    next
      case 2
      then show ?thesis using assms(3) by (auto simp: timeval_subtract_def carry_less_def carry_more_def)
    next
      case 3
      then show ?thesis using assms(3) by (auto simp: timeval_subtract_def carry_less_def carry_more_def)
    next
      case 4
      then have x: "tv_nsec x = tv_nsec y + 2000000000" by simp
      show ?thesis using assms(3) 4
        by (auto simp: timeval_subtract_def carry_less_def carry_more_def Let_def int32_id x)
    qed
  qed
  then show ?thesis using sign sub(6) by auto
qed

lemma uint32_of_int: "0 \<le> v \<Longrightarrow> v < 2 ^ 32 \<Longrightarrow> uint (word_of_int v :: u32) = v"
  by (simp add: uint_word_of_int)

lemma add_cases:
  assumes "0 \<le> tv_nsec x + tv_nsec y" and "tv_nsec x + tv_nsec y < 2 ^ 32 - 1000000000"
  shows "timespec_add x y =
    (if tv_nsec x + tv_nsec y < 1000000000
     then \<lparr>tv_sec = tv_sec x + tv_sec y, tv_nsec = tv_nsec x + tv_nsec y\<rparr>
     else \<lparr>tv_sec = tv_sec x + tv_sec y + 1, tv_nsec = tv_nsec x + tv_nsec y + 1000000000\<rparr>)"
proof -
  let ?s = "tv_nsec x + tv_nsec y"
  have "uint (word_of_int ?s :: u32) = ?s" using assms by (intro uint32_of_int) auto
  moreover have "uint (word_of_int ?s + word_of_int nsec :: u32) = ?s + 1000000000"
    unfolding wi_hom_add using assms by (subst uint32_of_int) (simp_all add: nsec_def)
  ultimately show ?thesis
    unfolding timespec_add_def Let_def by (simp only:) (simp add: nsec_def)
qed

section \<open>Packets\<close>

text \<open>
  The static counters of \<open>make_pkt\<close>; a static variable belongs to the function, so all generators
  of a program share it.
\<close>

record mac_counters =
  mac_src :: u32
  mac_dst :: u32

definition first_counters :: mac_counters where
  "first_counters = \<lparr>mac_src = 0xffffffff - 1, mac_dst = 0\<rparr>"

definition payload_size :: nat where "payload_size = 1400"

definition packet_size :: nat where
  "packet_size = sizeof sniff_ethernet + sizeof sniff_ip + sizeof sniff_tcp + payload_size"

text \<open>What the uninitialised objects of one call contain: the buffer and the three headers.\<close>

record packet_junk =
  junk_buffer :: mem
  junk_eth :: mem
  junk_ip :: mem
  junk_tcp :: mem

definition make_pkt :: "packet_junk \<Rightarrow> mac_counters \<Rightarrow> bytes \<times> mac_counters" where
  "make_pkt junk c =
     (let ip_len = sizeof sniff_ip + sizeof sniff_tcp + payload_size;
          ip = put sniff_ip 0 [Field ''ip_len''] (bytes_of_word 2 (of_nat ip_len :: u16)) (new_sniff_ip (junk_ip junk));
          tcp = new_sniff_tcp (junk_tcp junk);
          dhost = offsetof sniff_ethernet [Field ''ether_dhost''];
          shost = offsetof sniff_ethernet [Field ''ether_shost''];
          eth = new_sniff_ethernet (junk_eth junk);
          eth = store eth (shost + 2) (bytes_of_word 4 (htonl (mac_src c)));
          eth = store eth (dhost + 2) (bytes_of_word 4 (htonl (mac_dst c)));
          eth = store eth (dhost + 2) [0x0c];
          eth = store eth (shost + 0) [0x00];
          eth = store eth (shost + 1) [0x02];
          eth = store eth (shost + 2) [0xb3];
          buffer = store (junk_buffer junk) 0 (load eth 0 (sizeof sniff_ethernet));
          buffer = store buffer (sizeof sniff_ethernet) (load ip 0 (sizeof sniff_ip));
          buffer = store buffer (sizeof sniff_ethernet + sizeof sniff_ip) (load tcp 0 (sizeof sniff_tcp))
      in (load buffer 0 packet_size,
          \<lparr>mac_src = mac_src c - 1, mac_dst = mac_dst c + 1\<rparr>))"

lemma be_bytes_4_cons: "be_bytes 4 w = ucast (drop_bit 24 (w :: u32)) # drop 1 (be_bytes 4 w)"
  by (simp add: be_bytes_4)

text \<open>The frame, written out: addresses, type, IP header, TCP header, payload.\<close>

definition frame :: "packet_junk \<Rightarrow> mac_counters \<Rightarrow> bytes" where
  "frame junk c =
     [0, 0, 0x0c] @ drop 1 (be_bytes 4 (mac_dst c)) @
     [0, 2, 0xb3] @ drop 1 (be_bytes 4 (mac_src c)) @ [8, 0] @
     [0x45, 0, 0xa0, 0x05, 0, 0, 0, 0, 64, 6] @ load (junk_ip junk) 10 2 @ [10, 0, 0, 1, 10, 0, 0, 2] @
     load (junk_tcp junk) 0 12 @ [0x50, 0x10] @ load (junk_tcp junk) 14 2 @ [0, 0, 0, 0] @
     load (junk_buffer junk) 54 1400"

lemma load_within: "load m 0 k = bs \<Longrightarrow> off + n \<le> k \<Longrightarrow> load m off n = take n (drop off bs)"
  by auto

lemma load_store_inside:
  "off \<le> off' \<Longrightarrow> off' + n \<le> off + length bs \<Longrightarrow>
   load (store m off bs) off' n = take n (drop (off' - off) bs)"
  by (rule nth_equalityI) (auto simp: store_def)

definition addressed :: "mac_counters \<Rightarrow> mem \<Rightarrow> mem" where
  "addressed c eth =
     store (store (store (store (store (store eth 8 (be_bytes 4 (mac_src c))) 2 (be_bytes 4 (mac_dst c)))
       2 [0x0c]) 6 [0]) 7 [2]) 8 [0xb3]"

lemma addressed_bytes:
  "load (addressed c (new_sniff_ethernet junk)) 0 14 =
    [0, 0, 0x0c] @ drop 1 (be_bytes 4 (mac_dst c)) @ [0, 2, 0xb3] @ drop 1 (be_bytes 4 (mac_src c)) @ [8, 0]"
proof -
  have "load (addressed c (new_sniff_ethernet junk)) 0 14 =
      load_fields (addressed c (new_sniff_ethernet junk)) 0 [2, 1, 3, 1, 1, 1, 3, 2]"
    by (rule load_by_fields) simp
  moreover have "load (new_sniff_ethernet junk) 0 2 = [0, 0]" "load (new_sniff_ethernet junk) 12 2 = [8, 0]"
    using load_within [OF ethernet_bytes [of junk], of 0 2] load_within [OF ethernet_bytes [of junk], of 12 2]
    by (simp_all add: numeral_eq_Suc)
  ultimately show ?thesis
    by (simp add: addressed_def mem_simps load_store_inside del: One_nat_def) simp
qed

lemma ip_len_bytes:
  "load (put sniff_ip 0 [Field ''ip_len''] (bytes_of_word 2 (1440 :: u16)) (new_sniff_ip junk)) 0 20 =
    [0x45, 0, 0xa0, 0x05, 0, 0, 0, 0, 64, 6] @ load junk 10 2 @ [10, 0, 0, 1, 10, 0, 0, 2]"
proof -
  let ?ip = "put sniff_ip 0 [Field ''ip_len''] (bytes_of_word 2 (1440 :: u16)) (new_sniff_ip junk)"
  have "load ?ip 0 20 = load_fields ?ip 0 [2, 2, 16]"
    by (rule load_by_fields) simp
  moreover have "load (new_sniff_ip junk) 0 2 = [0x45, 0]"
    "load (new_sniff_ip junk) 4 16 = [0, 0, 0, 0, 64, 6] @ load junk 10 2 @ [10, 0, 0, 1, 10, 0, 0, 2]"
    using load_within [OF ip_bytes [of junk], of 0 2] load_within [OF ip_bytes [of junk], of 4 16]
    by simp_all
  ultimately show ?thesis
    by (simp add: put_def layout_simps mem_simps bytes_of_word_2)
qed

lemma shost_offset: "offsetof sniff_ethernet [Field ''ether_dhost''] = 0"
  "offsetof sniff_ethernet [Field ''ether_shost''] = 6"
  by (simp_all add: offsetof_def layout_simps)

lemma make_pkt_frame:
  "make_pkt junk c = (frame junk c, \<lparr>mac_src = mac_src c - 1, mac_dst = mac_dst c + 1\<rparr>)"
proof -
  let ?eth = "load (addressed c (new_sniff_ethernet (junk_eth junk))) 0 14"
  let ?ip = "load (put sniff_ip 0 [Field ''ip_len''] (bytes_of_word 2 (1440 :: u16)) (new_sniff_ip (junk_ip junk))) 0 20"
  let ?tcp = "load (new_sniff_tcp (junk_tcp junk)) 0 20"
  let ?buffer = "store (store (store (junk_buffer junk) 0 ?eth) 14 ?ip) 34 ?tcp"
  have "load ?buffer 0 1454 = load_fields ?buffer 0 [14, 20, 20, 1400]"
    by (rule load_by_fields) simp
  also have "\<dots> = ?eth @ ?ip @ ?tcp @ load (junk_buffer junk) 54 1400"
    by (simp add: mem_simps)
  also have "\<dots> = frame junk c"
    by (simp add: addressed_bytes ip_len_bytes tcp_bytes frame_def)
  finally show ?thesis
    by (simp add: make_pkt_def Let_def packet_size_def payload_size_def shost_offset wire_simps
        addressed_def)
qed

text \<open>Two calls put the same destination address into the frame when the counters agree in 24 bits.\<close>

lemma low_bytes_eq:
  "drop 1 (be_bytes 4 (v :: u32)) = drop 1 (be_bytes 4 w) \<longleftrightarrow> take_bit 24 v = take_bit 24 w"
proof
  assume "drop 1 (be_bytes 4 v) = drop 1 (be_bytes 4 w)"
  then have eq: "(ucast (drop_bit 16 v) :: u8) = ucast (drop_bit 16 w)"
    "(ucast (drop_bit 8 v) :: u8) = ucast (drop_bit 8 w)" "(ucast v :: u8) = ucast w"
    by (simp_all add: be_bytes_4)
  show "take_bit 24 v = take_bit 24 w"
  proof (rule bit_word_eqI)
    fix n :: nat assume "n < LENGTH(32)"
    have b: "n < 8 \<Longrightarrow> bit v n = bit w n" for n
      using arg_cong [OF eq(3), of "\<lambda>x. bit x n"] by (simp add: bit_simps)
    have c: "n < 8 \<Longrightarrow> bit v (8 + n) = bit w (8 + n)" for n
      using arg_cong [OF eq(2), of "\<lambda>x. bit x n"] by (simp add: bit_simps)
    have d: "n < 8 \<Longrightarrow> bit v (16 + n) = bit w (16 + n)" for n
      using arg_cong [OF eq(1), of "\<lambda>x. bit x n"] by (simp add: bit_simps)
    consider "n < 8" | "8 \<le> n" "n < 16" | "16 \<le> n" "n < 24" | "24 \<le> n" by linarith
    then show "bit (take_bit 24 v) n = bit (take_bit 24 w) n"
      using b [of n] c [of "n - 8"] d [of "n - 16"] by cases (auto simp: bit_simps)
  qed
next
  assume eq: "take_bit 24 v = take_bit 24 w"
  have bits: "n < 24 \<Longrightarrow> bit v n = bit w n" for n
    using arg_cong [OF eq, of "\<lambda>x. bit x n"] by (simp add: bit_simps)
  have "(ucast (drop_bit k v) :: u8) = ucast (drop_bit k w)" if "k \<le> 16" for k
    by (rule bit_word_eqI) (use bits that in \<open>simp add: bit_simps\<close>)
  from this [of 0] this [of 8] this [of 16] show "drop 1 (be_bytes 4 v) = drop 1 (be_bytes 4 w)"
    by (simp add: be_bytes_4)
qed

text \<open>The counters after \<open>n\<close> calls, and the frame of the next one.\<close>

primrec counters_after :: "(nat \<Rightarrow> packet_junk) \<Rightarrow> nat \<Rightarrow> mac_counters \<Rightarrow> mac_counters" where
  "counters_after junk 0 c = c"
| "counters_after junk (Suc n) c = snd (make_pkt (junk n) (counters_after junk n c))"

definition nth_packet :: "(nat \<Rightarrow> packet_junk) \<Rightarrow> mac_counters \<Rightarrow> nat \<Rightarrow> bytes" where
  "nth_packet junk c n = fst (make_pkt (junk n) (counters_after junk n c))"

lemma counters_after_eq:
  "counters_after junk n c = \<lparr>mac_src = mac_src c - of_nat n, mac_dst = mac_dst c + of_nat n\<rparr>"
  by (induction n) (simp_all add: make_pkt_frame algebra_simps)

lemma uint_low_24: "uint (take_bit 24 (v + of_nat i :: u32)) = (uint v + int i) mod 2 ^ 24"
proof -
  have "uint (take_bit 24 (v + of_nat i :: u32)) = (uint v + int i) mod 2 ^ 32 mod 2 ^ 24"
    unfolding unsigned_take_bit_eq by (simp add: uint_word_ariths unsigned_of_nat take_bit_eq_mod of_nat_mod mod_simps)
  also have "\<dots> = (uint v + int i) mod 2 ^ 24" by (rule mod_mod_cancel) simp
  finally show ?thesis .
qed

lemma low_24_eq:
  "take_bit 24 (v + of_nat i :: u32) = take_bit 24 (v + of_nat j) \<longleftrightarrow> i mod 2 ^ 24 = j mod 2 ^ 24"
proof -
  have "take_bit 24 (v + of_nat i :: u32) = take_bit 24 (v + of_nat j) \<longleftrightarrow>
      (uint v + int i) mod 2 ^ 24 = (uint v + int j) mod 2 ^ 24"
    by (subst word_uint_eq_iff) (simp only: uint_low_24)
  also have "\<dots> \<longleftrightarrow> int i mod 2 ^ 24 = int j mod 2 ^ 24"
    by (simp add: mod_eq_dvd_iff)
  also have "\<dots> \<longleftrightarrow> int (i mod 2 ^ 24) = int (j mod 2 ^ 24)" by (simp add: zmod_int)
  finally show ?thesis by simp
qed

definition dst_mac :: "bytes \<Rightarrow> bytes" where "dst_mac pkt = take 6 pkt"

lemma dst_mac_nth:
  "dst_mac (nth_packet junk c n) = [0, 0, 0x0c] @ drop 1 (be_bytes 4 (mac_dst c + of_nat n))"
  by (simp add: dst_mac_def nth_packet_def make_pkt_frame frame_def counters_after_eq)

section \<open>A burst\<close>

text \<open>
  \<open>sender\<close> stands for the two members the sending code tests: a callback, else an opened capture
  device, else neither. \<open>handed\<close> is the log of the frames handed to the callback or the device;
  \<open>made\<close> counts the packets made.
\<close>

datatype sender = On_message | Pcap | No_sender

record flow_gen =
  is_run :: bool
  failed_sends :: u32
  fector :: u32
  counters :: mac_counters
  sender :: sender
  made :: nat
  handed :: "bytes list"

definition new_flow_gen :: "sender \<Rightarrow> mac_counters \<Rightarrow> flow_gen" where
  "new_flow_gen via c =
     \<lparr>is_run = True, failed_sends = 0, fector = 1, counters = c, sender = via, made = 0, handed = []\<rparr>"

text \<open>
  What the run takes from outside: the contents of fresh memory at each packet, which calls of
  \<open>pcap_sendpacket\<close> succeed, and the readings of the clock in the order they are taken.
\<close>

record burst_env =
  fresh :: "nat \<Rightarrow> packet_junk"
  pcap_ok :: "nat \<Rightarrow> bool"
  clock :: "nat \<Rightarrow> timespec"

definition send_packet :: "bytes \<Rightarrow> flow_gen \<Rightarrow> flow_gen" where
  "send_packet pkt g = g\<lparr>handed := handed g @ [pkt]\<rparr>"

definition transmit :: "burst_env \<Rightarrow> flow_gen \<Rightarrow> flow_gen" where
  "transmit env g =
     (case make_pkt (fresh env (made g)) (counters g) of
        (pkt, c) \<Rightarrow>
          let g' = g\<lparr>counters := c, made := Suc (made g)\<rparr>
          in case sender g of
               On_message \<Rightarrow> send_packet pkt g'
             | Pcap \<Rightarrow> (if pcap_ok env (made g) then g' else g'\<lparr>failed_sends := failed_sends g + 1\<rparr>)
                 \<lparr>handed := handed g @ [pkt]\<rparr>
             | No_sender \<Rightarrow> g')"

text \<open>The local state of \<open>a_burst\<close>; \<open>ticks\<close> is the number of clock readings taken.\<close>

record burst =
  gen :: flow_gen
  pkt_sent :: u32
  sec_beg :: timespec
  deadline :: timespec
  ticks :: nat
  slept :: "timespec list"

definition send_one :: "burst_env \<Rightarrow> burst \<Rightarrow> burst" where
  "send_one env b = b\<lparr>gen := transmit env (gen b), pkt_sent := pkt_sent b + 1\<rparr>"

text \<open>One pass of \<open>while(is_run)\<close>: the stop test, or the packets and the sleep.\<close>

definition burst_pass :: "burst_env \<Rightarrow> u32 \<Rightarrow> timespec \<Rightarrow> burst \<Rightarrow> burst" where
  "burst_pass env last_sec nsleep b =
     (let (result, beg, _) = timeval_subtract (clock env (ticks b)) (sec_beg b);
          b = b\<lparr>sec_beg := beg, ticks := Suc (ticks b)\<rparr>
      in if uint last_sec \<le> tv_sec result then b\<lparr>gen := (gen b)\<lparr>is_run := False\<rparr>\<rparr>
         else let b = (send_one env ^^ unat (fector (gen b))) b;
                  dl = timespec_add (deadline b) nsleep;
                  (result, _, negative) = timeval_subtract dl (clock env (ticks b));
                  b = b\<lparr>deadline := dl, ticks := Suc (ticks b)\<rparr>
              in if negative \<noteq> 1 then b\<lparr>slept := slept b @ [result]\<rparr> else b)"

text \<open>The loop with a bound on its passes; \<open>None\<close> when the bound is reached and it still runs.\<close>

primrec burst_loop :: "burst_env \<Rightarrow> u32 \<Rightarrow> timespec \<Rightarrow> nat \<Rightarrow> burst \<Rightarrow> burst option" where
  "burst_loop env last_sec nsleep 0 b = (if is_run (gen b) then None else Some b)"
| "burst_loop env last_sec nsleep (Suc fuel) b =
     (if is_run (gen b) then burst_loop env last_sec nsleep fuel (burst_pass env last_sec nsleep b)
      else Some b)"

datatype burst_result = Division_by_zero | Still_running | Returned burst

definition a_burst :: "burst_env \<Rightarrow> nat \<Rightarrow> u32 \<Rightarrow> u32 \<Rightarrow> u32 \<Rightarrow> flow_gen \<Rightarrow> burst_result" where
  "a_burst env fuel sent packet_per_sec last_sec g =
     (if packet_per_sec = 0 then Division_by_zero
      else let nsleep = \<lparr>tv_sec = 0, tv_nsec = nsec div uint packet_per_sec\<rparr>;
               beg = clock env 0
           in case burst_loop env last_sec nsleep fuel
                     \<lparr>gen = g, pkt_sent = sent, sec_beg = beg, deadline = timespec_add beg nsleep,
                      ticks = 1, slept = []\<rparr> of
                None \<Rightarrow> Still_running
              | Some b \<Rightarrow> Returned b)"

subsection \<open>What is sent\<close>

lemma transmit_fields [simp]:
  "is_run (transmit env g) = is_run g" "fector (transmit env g) = fector g" "sender (transmit env g) = sender g"
  "made (transmit env g) = Suc (made g)"
  "counters (transmit env g) = snd (make_pkt (fresh env (made g)) (counters g))"
  "handed (transmit env g) = handed g @
     (if sender g = No_sender then [] else [fst (make_pkt (fresh env (made g)) (counters g))])"
  by (simp_all add: transmit_def send_packet_def Let_def split: prod.split sender.split)

lemma transmits_fields:
  "is_run ((transmit env ^^ n) g) = is_run g" "fector ((transmit env ^^ n) g) = fector g"
  "sender ((transmit env ^^ n) g) = sender g" "made ((transmit env ^^ n) g) = made g + n"
  "counters ((transmit env ^^ n) g) = counters_after (\<lambda>i. fresh env (made g + i)) n (counters g)"
  by (induction n) simp_all

lemma transmits_handed:
  "handed ((transmit env ^^ n) g) = handed g @
     (if sender g = No_sender then []
      else map (nth_packet (\<lambda>i. fresh env (made g + i)) (counters g)) [0..<n])"
  by (induction n) (simp_all add: transmits_fields nth_packet_def)

lemma send_ones:
  "(send_one env ^^ n) b = b\<lparr>gen := (transmit env ^^ n) (gen b), pkt_sent := pkt_sent b + of_nat n\<rparr>"
  by (induction n) (simp_all add: send_one_def algebra_simps)

subsection \<open>When it stops\<close>

text \<open>The loop's start time: the same time throughout, although each pass rewrites it.\<close>

definition started_at :: "int \<Rightarrow> burst \<Rightarrow> bool" where
  "started_at t b \<longleftrightarrow> ns_of (sec_beg b) = t \<and> - nsec \<le> tv_nsec (sec_beg b) \<and> tv_nsec (sec_beg b) < nsec"

lemma stop_test:
  assumes "started_at t b" and "normal x" and "timeval_subtract x (sec_beg b) = (r, y', ret)"
  shows "ns_of y' = t" and "- nsec \<le> tv_nsec y'" and "tv_nsec y' < nsec"
    and "ns_of x - t < l * nsec \<Longrightarrow> tv_sec r < l" and "l * nsec < ns_of x - t \<Longrightarrow> l \<le> tv_sec r"
proof -
  have range: "tv_nsec (sec_beg b) - tv_nsec x < 2000000000" "tv_nsec x - tv_nsec (sec_beg b) < 3000000000"
    using assms(1,2) by (simp_all add: started_at_def normal_def nsec_def)
  note sub = subtract_correct [OF range assms(3)]
  show "ns_of y' = t" using sub(2) assms(1) by (simp add: started_at_def)
  show "- nsec \<le> tv_nsec y'" "tv_nsec y' < nsec"
    using sub(3,4,5) assms(2) by (simp_all add: normal_def nsec_def)
  have r: "tv_sec r * 1000000000 + tv_nsec r = ns_of x - t"
    using sub(1) assms(1) by (simp add: started_at_def ns_of_def)
  show "tv_sec r < l" if "ns_of x - t < l * nsec" using that r sub(3) by (simp add: nsec_def)
  show "l \<le> tv_sec r" if "l * nsec < ns_of x - t" using that r sub(4) by (simp add: nsec_def)
qed

lemma pass_sends:
  assumes "started_at t b" and "normal (clock env (ticks b))"
    and "ns_of (clock env (ticks b)) - t < uint last_sec * nsec"
  shows "\<exists>b'. burst_pass env last_sec nsleep b = b' \<and> started_at t b' \<and> ticks b' = ticks b + 2 \<and>
    gen b' = (transmit env ^^ unat (fector (gen b))) (gen b) \<and>
    pkt_sent b' = pkt_sent b + of_nat (unat (fector (gen b))) \<and> length (slept b') \<le> Suc (length (slept b))"
proof -
  obtain r y' ret where sub: "timeval_subtract (clock env (ticks b)) (sec_beg b) = (r, y', ret)"
    by (metis prod_cases3)
  note test = stop_test [OF assms(1,2) sub]
  have "tv_sec r < uint last_sec" by (rule test(4)) (rule assms(3))
  then show ?thesis
    using test(1-3)
    by (simp add: burst_pass_def sub send_ones started_at_def Let_def split: prod.split)
qed

lemma pass_stops:
  assumes "started_at t b" and "normal (clock env (ticks b))"
    and "uint last_sec * nsec < ns_of (clock env (ticks b)) - t"
  shows "\<exists>y'. burst_pass env last_sec nsleep b =
    b\<lparr>sec_beg := y', ticks := Suc (ticks b), gen := (gen b)\<lparr>is_run := False\<rparr>\<rparr>"
proof -
  obtain r y' ret where sub: "timeval_subtract (clock env (ticks b)) (sec_beg b) = (r, y', ret)"
    by (metis prod_cases3)
  have "uint last_sec \<le> tv_sec r" by (rule stop_test(5) [OF assms(1,2) sub]) (rule assms(3))
  then show ?thesis by (auto simp: burst_pass_def sub Let_def)
qed

lemma loop_sends:
  assumes "started_at t b" and "is_run (gen b)" and "\<And>i. normal (clock env i)"
    and "\<And>j. j < k \<Longrightarrow> ns_of (clock env (ticks b + 2 * j)) - t < uint last_sec * nsec"
    and "uint last_sec * nsec < ns_of (clock env (ticks b + 2 * k)) - t" and "k < fuel"
  shows "\<exists>b'. burst_loop env last_sec nsleep fuel b = Some b' \<and>
    gen b' = ((transmit env ^^ (k * unat (fector (gen b)))) (gen b))\<lparr>is_run := False\<rparr> \<and>
    pkt_sent b' = pkt_sent b + of_nat (k * unat (fector (gen b))) \<and>
    length (slept b') \<le> length (slept b) + k"
  using assms(1,2,4-)
proof (induction k arbitrary: b fuel)
  case 0
  then obtain m where fuel: "fuel = Suc m" by (cases fuel) auto
  obtain y' where "burst_pass env last_sec nsleep b =
      b\<lparr>sec_beg := y', ticks := Suc (ticks b), gen := (gen b)\<lparr>is_run := False\<rparr>\<rparr>"
    using pass_stops [OF 0(1) assms(3)] 0(4) by auto
  then show ?case using 0(2) fuel by (cases m) auto
next
  case (Suc k)
  from Suc.prems(5) obtain m where fuel: "fuel = Suc m" and m: "k < m" by (cases fuel) auto
  let ?F = "unat (fector (gen b))"
  obtain b1 where pass: "burst_pass env last_sec nsleep b = b1" and b1: "started_at t b1"
    "ticks b1 = ticks b + 2" "gen b1 = (transmit env ^^ ?F) (gen b)" "pkt_sent b1 = pkt_sent b + of_nat ?F"
    "length (slept b1) \<le> Suc (length (slept b))"
    using pass_sends [OF Suc.prems(1) assms(3)] Suc.prems(3) [of 0] by auto
  have run: "is_run (gen b1)" and F: "fector (gen b1) = fector (gen b)"
    using Suc.prems(2) by (simp_all add: b1(3) transmits_fields)
  have later: "ticks b1 + 2 * j = ticks b + 2 * Suc j" for j by (simp add: b1(2))
  have sends: "ns_of (clock env (ticks b1 + 2 * j)) - t < uint last_sec * nsec" if "j < k" for j
    unfolding later using that by (intro Suc.prems(3)) simp
  have stops: "uint last_sec * nsec < ns_of (clock env (ticks b1 + 2 * k)) - t"
    unfolding later by (rule Suc.prems(4))
  obtain b' where b': "burst_loop env last_sec nsleep m b1 = Some b'"
    "gen b' = ((transmit env ^^ (k * ?F)) (gen b1))\<lparr>is_run := False\<rparr>"
    "pkt_sent b' = pkt_sent b1 + of_nat (k * ?F)" "length (slept b') \<le> length (slept b1) + k"
    using Suc.IH [OF b1(1) run sends stops m] unfolding F by blast
  have "(transmit env ^^ (k * ?F)) (gen b1) = (transmit env ^^ (Suc k * ?F)) (gen b)"
    by (simp add: b1(3) funpow_add add.commute [of ?F])
  moreover have "pkt_sent b1 + of_nat (k * ?F) = pkt_sent b + of_nat (Suc k * ?F)"
    by (simp add: b1(4) algebra_simps)
  ultimately show ?case
    using b' b1(5) pass fuel Suc.prems(2) by auto
qed

text \<open>A loop that returns has cleared \<open>is_run\<close>, and one that finds it cleared does nothing.\<close>

lemma loop_returns_stopped: "burst_loop env last_sec nsleep fuel b = Some b' \<Longrightarrow> \<not> is_run (gen b')"
  by (induction fuel arbitrary: b) (auto split: if_splits)

lemma loop_stopped: "\<not> is_run (gen b) \<Longrightarrow> burst_loop env last_sec nsleep fuel b = Some b"
  by (cases fuel) simp_all

lemma burst_returns_stopped: "a_burst env fuel sent pps ls g = Returned b \<Longrightarrow> \<not> is_run (gen b)"
  using loop_returns_stopped by (auto simp: a_burst_def Let_def split: if_splits option.splits)

lemma burst_stopped:
  assumes "a_burst env fuel sent pps ls g = Returned b" and "\<not> is_run g"
  shows "gen b = g" and "pkt_sent b = sent"
  using assms by (auto simp: a_burst_def Let_def loop_stopped split: if_splits)

lemma burst_sends:
  assumes "packet_per_sec \<noteq> 0" and "is_run g" and "\<And>i. normal (clock env i)"
    and "\<And>j. j < k \<Longrightarrow> ns_of (clock env (1 + 2 * j)) - ns_of (clock env 0) < uint last_sec * nsec"
    and "uint last_sec * nsec < ns_of (clock env (1 + 2 * k)) - ns_of (clock env 0)" and "k < fuel"
    and "n = k * unat (fector g)"
  shows "\<exists>b. a_burst env fuel sent packet_per_sec last_sec g = Returned b \<and>
    pkt_sent b = sent + of_nat n \<and> made (gen b) = made g + n \<and> length (slept b) \<le> k \<and>
    handed (gen b) = handed g @ (if sender g = No_sender then []
      else map (nth_packet (\<lambda>i. fresh env (made g + i)) (counters g)) [0..<n])"
proof -
  let ?nsleep = "\<lparr>tv_sec = 0, tv_nsec = nsec div uint packet_per_sec\<rparr>"
  let ?b = "\<lparr>gen = g, pkt_sent = sent, sec_beg = clock env 0,
    deadline = timespec_add (clock env 0) ?nsleep, ticks = 1, slept = []\<rparr>"
  have "started_at (ns_of (clock env 0)) ?b"
    using assms(3) [of 0] by (simp add: started_at_def normal_def nsec_def)
  then obtain b where "burst_loop env last_sec ?nsleep fuel ?b = Some b"
    "gen b = ((transmit env ^^ n) g)\<lparr>is_run := False\<rparr>" "pkt_sent b = sent + of_nat n" "length (slept b) \<le> k"
    using loop_sends [where t = "ns_of (clock env 0)" and b = ?b and env = env and k = k and
        last_sec = last_sec and fuel = fuel and nsleep = ?nsleep] assms(2-6)
    by (auto simp: assms(7))
  then show ?thesis
    using assms(1) by (simp add: a_burst_def Let_def transmits_fields transmits_handed)
qed

text \<open>
  The clock of a burst that returns within \<open>fuel\<close> passes: normalised readings, of which one at a stop
  test is more than \<open>ls\<close> seconds after the start and all earlier ones are less.
\<close>

definition burst_ends :: "u32 \<Rightarrow> burst_env \<Rightarrow> nat \<Rightarrow> bool" where
  "burst_ends ls env fuel \<longleftrightarrow> (\<forall>i. normal (clock env i)) \<and>
     (\<exists>k<fuel. uint ls * nsec < ns_of (clock env (1 + 2 * k)) - ns_of (clock env 0) \<and>
        (\<forall>j<k. ns_of (clock env (1 + 2 * j)) - ns_of (clock env 0) < uint ls * nsec))"

lemma burst_returns:
  assumes "burst_ends ls env fuel" and "pps \<noteq> 0"
  shows "\<exists>b. a_burst env fuel sent pps ls g = Returned b"
proof (cases "is_run g")
  case True
  then show ?thesis
    using assms(1) burst_sends [OF assms(2) True] unfolding burst_ends_def by blast
qed (simp add: a_burst_def assms(2) Let_def loop_stopped)

section \<open>Properties of the packets and of the time arithmetic\<close>

text \<open>
  C31. The generator's packets form distinct flows: the destination address of the packets of two
  calls is the same exactly when their numbers agree modulo \<open>2 ^ 24\<close>, because one byte of the
  32-bit counter is overwritten by the vendor prefix.
\<close>

theorem flows_distinct:
  "dst_mac (nth_packet junk c i) = dst_mac (nth_packet junk c j) \<longleftrightarrow> i mod 2 ^ 24 = j mod 2 ^ 24"
  by (simp only: dst_mac_nth same_append_eq low_bytes_eq low_24_eq)

text \<open>
  C32. Every packet is one frame of 1454 bytes made of the two addresses, the three headers and
  the payload. The IP length is stored in host order, so the bytes on the wire read 40965 instead
  of 1440, and the checksum, the TCP ports, the numbers and the window, and the payload are whatever
  memory held.
\<close>

theorem make_pkt_bytes:
  "make_pkt junk c = (frame junk c, \<lparr>mac_src = mac_src c - 1, mac_dst = mac_dst c + 1\<rparr>) \<and>
   length (frame junk c) = packet_size \<and>
   word_of_be (take 2 (drop 16 (frame junk c))) = (40965 :: u16) \<and>
   (word_of_bytes (take 2 (drop 16 (frame junk c))) :: u16) = 1440"
proof -
  have wire: "take 2 (drop 16 (frame junk c)) = [0xa0, 0x05]" by (simp add: frame_def)
  have "word_of_be [0xa0, 0x05] = (40965 :: u16)" "word_of_bytes [0xa0, 0x05] = (1440 :: u16)"
    by code_simp+
  moreover have "length (frame junk c) = packet_size"
    by (simp add: frame_def packet_size_def payload_size_def)
  ultimately show ?thesis by (simp only: wire make_pkt_frame simp_thms)
qed

text \<open>
  C28. \<open>timeval_subtract\<close> is a subtraction: on operands whose nanoseconds are less than two seconds
  apart one way and three the other it gives the exact difference with nanoseconds between 0 and
  \<open>10 ^ 9\<close>, and leaves the second operand denoting the same time although it rewrites it. The value
  returned is not quite the one its comment promises: it is 1 when the difference is negative, and
  also when the difference is zero and the nanoseconds of the operands are exactly one second apart,
  where the test on the seconds alone takes \<open>-1 s + 10 ^ 9 ns\<close> for a negative time. With both
  nanoseconds below \<open>10 ^ 9\<close>, as a clock delivers them, that case does not arise; the begin time
  and the deadline of \<open>a_burst\<close> are not of that form.
\<close>

theorem timeval_subtract_exact:
  assumes "tv_nsec y - tv_nsec x < 2000000000" and "tv_nsec x - tv_nsec y < 3000000000"
    and "timeval_subtract x y = (r, y', ret)"
  shows "ns_of r = ns_of x - ns_of y \<and> ns_of y' = ns_of y \<and> 0 \<le> tv_nsec r \<and> tv_nsec r \<le> nsec \<and>
    ret = (if tv_sec r < 0 then 1 else 0) \<and>
    ret = (if ns_of x < ns_of y \<or> ns_of x = ns_of y \<and> \<bar>tv_nsec x - tv_nsec y\<bar> = nsec then 1 else 0)"
  using subtract_correct [OF assms] subtract_negative [OF assms] by (simp add: nsec_def)

text \<open>At five seconds and \<open>10 ^ 9\<close> nanoseconds less six seconds it returns 1, although the difference is zero.\<close>

theorem timeval_subtract_exact_witness:
  "timeval_subtract \<lparr>tv_sec = 5, tv_nsec = 1000000000\<rparr> \<lparr>tv_sec = 6, tv_nsec = 0\<rparr> =
      (\<lparr>tv_sec = -1, tv_nsec = 1000000000\<rparr>, \<lparr>tv_sec = 6, tv_nsec = 0\<rparr>, 1) \<and>
    ns_of \<lparr>tv_sec = -1, tv_nsec = 1000000000\<rparr> = 0"
proof -
  have "timeval_subtract \<lparr>tv_sec = 5, tv_nsec = 1000000000\<rparr> \<lparr>tv_sec = 6, tv_nsec = 0\<rparr> =
      (\<lparr>tv_sec = -1, tv_nsec = 1000000000\<rparr>, \<lparr>tv_sec = 6, tv_nsec = 0\<rparr>,
       snd (snd (timeval_subtract \<lparr>tv_sec = 5, tv_nsec = 1000000000\<rparr> \<lparr>tv_sec = 6, tv_nsec = 0\<rparr>)))"
    by (simp add: timeval_subtract_def carry_less_def carry_more_def)
  from timeval_subtract_exact [OF _ _ this] this show ?thesis by (simp add: ns_of_def nsec_def)
qed

text \<open>
  C29. \<open>timespec_add\<close> is exact while the nanoseconds add up to less than a second. When they carry it
  adds the second to the seconds and, where it should take it from the nanoseconds, adds it there
  too: the sum is two seconds too late and not normalised.
\<close>

theorem timespec_add_carry:
  assumes "0 \<le> tv_nsec x + tv_nsec y" and "tv_nsec x + tv_nsec y < 2 ^ 32 - 1000000000"
  shows "ns_of (timespec_add x y) =
      ns_of x + ns_of y + (if tv_nsec x + tv_nsec y < nsec then 0 else 2 * nsec) \<and>
    (tv_nsec (timespec_add x y) < nsec \<longleftrightarrow> tv_nsec x + tv_nsec y < nsec)"
  using assms(1) by (simp add: add_cases [OF assms] ns_of_def nsec_def)

theorem timespec_add_carry_witness:
  "ns_of (timespec_add \<lparr>tv_sec = 1, tv_nsec = 600000000\<rparr> \<lparr>tv_sec = 0, tv_nsec = 500000000\<rparr>) =
    4100000000"
  using timespec_add_carry [of "\<lparr>tv_sec = 1, tv_nsec = 600000000\<rparr>" "\<lparr>tv_sec = 0, tv_nsec = 500000000\<rparr>"]
  by (simp add: ns_of_def nsec_def)

lemma int32_eval:
  "int32 3 = 3" "int32 4 = 4" "int32 3000000000 = 3000000000 - 2 ^ 32" "int32 4000000000 = 4000000000 - 2 ^ 32"
  by code_simp+

text \<open>
  C30. The carry feeds an overflow: a deadline whose nanoseconds the additions have driven to four
  seconds or more, as three carries do, makes \<open>timeval_subtract\<close> multiply past the range of an \<open>int\<close>. With
  the wrap-around of the hardware the difference comes out \<open>2 ^ 32\<close> nanoseconds too large, and its
  nanoseconds are out of the range \<open>nanosleep\<close> accepts, so the loop no longer sleeps.
\<close>

theorem pacing_overflow:
  assumes "4 * nsec \<le> tv_nsec x" and "tv_nsec x < 2 ^ 32" and "normal y"
    and "timeval_subtract x y = (r, y', ret)"
  shows "ns_of r = ns_of x - ns_of y + 2 ^ 32 \<and> nsec < tv_nsec r"
proof -
  let ?d = "tv_nsec x - tv_nsec y"
  have y: "0 \<le> tv_nsec y" "tv_nsec y < 1000000000" using assms(3) by (simp_all add: normal_def)
  then have d: "3000000000 < ?d" "?d < 4294967296" using assms(1,2) by (simp_all add: nsec_def)
  then have n: "?d div 1000000000 = 3 \<or> ?d div 1000000000 = 4" by linarith
  then have wrap: "int32 (?d div 1000000000) = ?d div 1000000000"
    "int32 (1000000000 * (?d div 1000000000)) = 1000000000 * (?d div 1000000000) - 2 ^ 32"
    using int32_eval by auto
  have less: "carry_less x y = y" using d by (simp add: carry_less_def)
  have more: "carry_more x y = \<lparr>tv_sec = tv_sec y - ?d div 1000000000,
      tv_nsec = tv_nsec y + (1000000000 * (?d div 1000000000) - 2 ^ 32)\<rparr>"
    using d wrap by (simp add: carry_more_def Let_def)
  have "r = \<lparr>tv_sec = tv_sec x - (tv_sec y - ?d div 1000000000),
      tv_nsec = tv_nsec x - (tv_nsec y + (1000000000 * (?d div 1000000000) - 2 ^ 32))\<rparr>"
    using assms(4) by (simp add: timeval_subtract_def less more Let_def)
  moreover have "1000000000 * (?d div 1000000000) \<le> ?d" by linarith
  ultimately show ?thesis by (simp add: ns_of_def nsec_def algebra_simps)
qed

theorem pacing_overflow_witness:
  "\<exists>r y' ret. timeval_subtract
      (((\<lambda>d. timespec_add d \<lparr>tv_sec = 0, tv_nsec = 10000000\<rparr>) ^^ 3) \<lparr>tv_sec = 5, tv_nsec = 990000000\<rparr>)
      \<lparr>tv_sec = 6, tv_nsec = 10000000\<rparr> = (r, y', ret) \<and> nsec < tv_nsec r"
proof -
  have add: "((\<lambda>d. timespec_add d \<lparr>tv_sec = 0, tv_nsec = 10000000\<rparr>) ^^ 3) \<lparr>tv_sec = 5, tv_nsec = 990000000\<rparr> =
      \<lparr>tv_sec = 8, tv_nsec = 4020000000\<rparr>"
    by (simp add: numeral_3_eq_3 add_cases)
  obtain r y' ret where sub: "timeval_subtract \<lparr>tv_sec = 8, tv_nsec = 4020000000\<rparr>
      \<lparr>tv_sec = 6, tv_nsec = 10000000\<rparr> = (r, y', ret)" by (metis prod_cases3)
  then have "nsec < tv_nsec r"
    using pacing_overflow [OF _ _ _ sub] by (simp add: nsec_def normal_def)
  with sub show ?thesis unfolding add by blast
qed

text \<open>
  C16. A burst ends and sends what the clock allows: if the stop test finds less than \<open>last_sec\<close>
  seconds gone \<open>k\<close> times and more at the next, the burst returns after \<open>k\<close> rounds of \<open>fector\<close>
  packets, adds exactly that many to the caller's counter and hands over that many consecutive
  packets, whatever the sleeps, the send errors and the overflows of the pacing arithmetic are.
\<close>

theorem a_burst_sends:
  assumes "packet_per_sec \<noteq> 0" and "is_run g" and "\<And>i. normal (clock env i)"
    and "\<And>j. j < k \<Longrightarrow> ns_of (clock env (1 + 2 * j)) - ns_of (clock env 0) < uint last_sec * nsec"
    and "uint last_sec * nsec < ns_of (clock env (1 + 2 * k)) - ns_of (clock env 0)" and "k < fuel"
    and "n = k * unat (fector g)"
  shows "\<exists>b. a_burst env fuel sent packet_per_sec last_sec g = Returned b \<and>
    pkt_sent b = sent + of_nat n \<and> made (gen b) = made g + n \<and> length (slept b) \<le> k \<and>
    handed (gen b) = handed g @ (if sender g = No_sender then []
      else map (nth_packet (\<lambda>i. fresh env (made g + i)) (counters g)) [0..<n])"
  using assms by (rule burst_sends)

definition steady_env :: burst_env where
  "steady_env = \<lparr>fresh = (\<lambda>n. \<lparr>junk_buffer = (\<lambda>i. 0), junk_eth = (\<lambda>i. 0), junk_ip = (\<lambda>i. 0), junk_tcp = (\<lambda>i. 0)\<rparr>),
     pcap_ok = (\<lambda>n. True), clock = (\<lambda>n. \<lparr>tv_sec = int n, tv_nsec = 0\<rparr>)\<rparr>"

theorem a_burst_sends_witness:
  "\<exists>b. a_burst steady_env 4 0 100 6 (new_flow_gen Pcap first_counters) = Returned b \<and> pkt_sent b = 3"
proof -
  have "\<And>j. j < 3 \<Longrightarrow> ns_of (clock steady_env (1 + 2 * j)) - ns_of (clock steady_env 0) < uint (6 :: u32) * nsec"
    by (simp add: steady_env_def ns_of_def nsec_def)
  then show ?thesis
    using a_burst_sends [where env = steady_env and k = 3 and fuel = 4 and last_sec = 6 and
        packet_per_sec = 100 and g = "new_flow_gen Pcap first_counters" and sent = 0 and n = 3]
    by (auto simp: new_flow_gen_def steady_env_def normal_def ns_of_def nsec_def)
qed

text \<open>
  A generator is good for one burst: \<open>a_burst\<close> returns only with \<open>is_run\<close> cleared, nothing sets
  it again, and so every later call returns at once, sends no packet and counts none.
\<close>

theorem later_bursts_send_nothing:
  assumes "a_burst env fuel sent packet_per_sec last_sec g = Returned b" and "packet_per_sec' \<noteq> 0"
  shows "\<not> is_run (gen b) \<and>
    (\<exists>b'. a_burst env' fuel' sent' packet_per_sec' last_sec' (gen b) = Returned b' \<and>
      gen b' = gen b \<and> pkt_sent b' = sent' \<and> slept b' = [])"
proof -
  have "\<not> is_run (gen b)"
    using assms(1) by (rule burst_returns_stopped)
  then show ?thesis
    using assms(2) by (simp add: a_burst_def Let_def loop_stopped)
qed

theorem later_bursts_send_nothing_witness:
  "\<exists>b b'. a_burst steady_env (Suc (Suc 0)) 0 100 0 (new_flow_gen Pcap first_counters) = Returned b \<and>
    a_burst steady_env 9 7 100 5 (gen b) = Returned b' \<and> pkt_sent b' = 7"
proof -
  have "\<exists>b. a_burst steady_env (Suc (Suc 0)) 0 100 0 (new_flow_gen Pcap first_counters) = Returned b"
    by (simp add: a_burst_def burst_pass_def timeval_subtract_def carry_less_def carry_more_def
        steady_env_def new_flow_gen_def Let_def)
  then obtain b where "a_burst steady_env (Suc (Suc 0)) 0 100 0 (new_flow_gen Pcap first_counters) = Returned b" by blast
  with later_bursts_send_nothing [OF this, of 100 steady_env 9 7 5] show ?thesis by auto
qed

end
