(* ===== verification/Packet_In_Tester.thy ===== *)
theory Packet_In_Tester imports OpenFlow_Message Flow_Gen begin

text \<open>
  \<open>PacketInTester.h\<close> and \<open>PacketInTester.cpp\<close>: the tester answers the switch's part of the OpenFlow
  handshake, then a thread of its own runs the generator at twenty rates while the io thread counts
  the packet-ins that come back. The two threads share \<open>group_index\<close> and \<open>data\<close> without a lock; the
  model interleaves their accesses: \<open>onMessage\<close> is taken apart into the fetch of the address of
  \<open>data[group_index]\<close> and the access through it, once for each use in its three statements, and the
  \<open>push_back\<close> that moves the vector to new storage into the copying and the release of the old one.
  The messages for the session are the output of a step.
\<close>

section \<open>State\<close>

record group =
  time_s :: u32
  sent_flow :: u32
  sent_flow_per_sec :: u32
  successed_flow :: u32
  successed_PKTIN :: u32
  avg_success_flow_per_sec :: u32
  first_packet_time_stamp :: u32
  last_packet_time_stamp :: u32
  buffered_pkt :: "u32 list"
  running :: bool

definition new_group :: group where
  "new_group = \<lparr>time_s = 0, sent_flow = 0, sent_flow_per_sec = 0, successed_flow = 0, successed_PKTIN = 0,
     avg_success_flow_per_sec = 0, first_packet_time_stamp = 0, last_packet_time_stamp = 0,
     buffered_pkt = [], running = True\<rparr>"

text \<open>
  Where \<open>do_test\<close> is, with its loop variable \<open>i\<close> and its local \<open>group\<close>: before the burst, before
  \<open>group_index++\<close> (asleep), before \<open>push_back\<close>, or at its end.
\<close>

datatype tester_thread =
  No_tester | In_burst u32 group | In_sleep u32 group | In_push u32 group | Test_done

text \<open>
  Where the io thread is in \<open>onMessage\<close>: the clock reading, the use of \<open>data[group_index]\<close> that comes
  next (the test of \<open>first_packet_time_stamp\<close>, its assignment, the assignment of
  \<open>last_packet_time_stamp\<close>, the increment), and, once it is fetched, the address: the storage the
  vector had and the index.
\<close>

datatype count_place = Test_first | Set_first | Set_last | Increment

type_synonym counting_at = "timespec \<times> count_place \<times> (nat \<times> nat) option"

text \<open>
  \<open>atomic_uint_fast32_t\<close> has 64 bits on the host; \<open>halted\<close>: \<open>std::terminate\<close> was called. The vector \<open>data\<close>
  has room for \<open>capacity\<close> groups in its \<open>storage\<close>, which are numbered; while \<open>push_back\<close> copies the
  groups to new storage, \<open>moved\<close> are the copies. \<open>counting\<close>: the io thread in \<open>onMessage\<close>.
  \<open>raced\<close> records that an access of \<open>onMessage\<close> and the move of the vector have met: a group was
  written after it may have been copied, so that the write is lost, or the old storage was
  accessed after its release, which is undefined behaviour.
\<close>

record tester =
  XID :: u64
  group_index :: u32
  data :: "group list"
  capacity :: nat
  storage :: nat
  moved :: "group list option"
  counting :: "counting_at option"
  raced :: bool
  flow_generator :: flow_gen
  tester_t :: tester_thread
  halted :: bool

definition new_tester :: "flow_gen \<Rightarrow> tester" where
  "new_tester fg = \<lparr>XID = 0, group_index = 0, data = replicate 2048 new_group, capacity = 2048, storage = 0,
     moved = None, counting = None, raced = False, flow_generator = fg, tester_t = No_tester, halted = False\<rparr>"

section \<open>Operations\<close>

definition get_XID :: "tester \<Rightarrow> u32 \<times> tester" where
  "get_XID t = (let x = XID t + 1 in (ucast x, t\<lparr>XID := x\<rparr>))"

text \<open>The local array \<open>char hello[sizeof(ofp_header)]\<close> is the parameter \<open>junk\<close>.\<close>

definition hello_assignments :: "u32 \<Rightarrow> assignment list" where
  "hello_assignments x =
     [(ofp_header, 0, [Field ''type''], bytes_of_word 1 (ucast (ofp_type_val OFPT_HELLO) :: u8)),
      (ofp_header, 0, [Field ''version''], bytes_of_word 1 OFP_VERSION),
      (ofp_header, 0, [Field ''length''], bytes_of_word 2 (htons (of_nat (sizeof ofp_header)))),
      (ofp_header, 0, [Field ''xid''], bytes_of_word 4 (htonl x))]"

definition send_hello :: "mem \<Rightarrow> tester \<Rightarrow> tester \<times> message" where
  "send_hello junk t =
     (let (x, t') = get_XID t
      in (t', load (fold assign (hello_assignments x) junk) 0 (sizeof ofp_header)))"

definition feature_request_assignments :: "u32 \<Rightarrow> assignment list" where
  "feature_request_assignments x =
     [(ofp_header, 0, [Field ''version''], bytes_of_word 1 OFP_VERSION),
      (ofp_header, 0, [Field ''type''], bytes_of_word 1 (ucast (ofp_type_val OFPT_FEATURES_REQUEST) :: u8)),
      (ofp_header, 0, [Field ''length''], bytes_of_word 2 (htons (of_nat (sizeof ofp_header)))),
      (ofp_header, 0, [Field ''xid''], bytes_of_word 4 (htonl x))]"

definition send_feature_request :: "mem \<Rightarrow> message \<Rightarrow> tester \<Rightarrow> tester \<times> message" where
  "send_feature_request junk msg t =
     (let (x, t') = get_XID t
      in (t', load (fold assign (feature_request_assignments x) junk) 0 (sizeof ofp_header)))"

text \<open>\<open>onMessage\<close>: what each access does to the group, and which one follows.\<close>

definition count_access :: "timespec \<Rightarrow> count_place \<Rightarrow> group \<Rightarrow> group" where
  "count_access now place g =
     (case place of
        Test_first \<Rightarrow> g
      | Set_first \<Rightarrow> g\<lparr>first_packet_time_stamp := word_of_int (tv_sec now)\<rparr>
      | Set_last \<Rightarrow> g\<lparr>last_packet_time_stamp := word_of_int (tv_sec now)\<rparr>
      | Increment \<Rightarrow> g\<lparr>successed_PKTIN := successed_PKTIN g + 1\<rparr>)"

definition next_place :: "count_place \<Rightarrow> group \<Rightarrow> count_place option" where
  "next_place place g =
     (case place of
        Test_first \<Rightarrow> Some (if first_packet_time_stamp g = 0 then Set_first else Set_last)
      | Set_first \<Rightarrow> Some Set_last
      | Set_last \<Rightarrow> Some Increment
      | Increment \<Rightarrow> None)"

text \<open>
  One step of the io thread in \<open>onMessage\<close>: it fetches the address of \<open>data[group_index]\<close>, or makes the
  access through it. The address is that of the storage the vector had when it was fetched. What an
  access to released storage reads or writes is undefined; the model leaves \<open>data\<close> as it is. The
  increment is one access: the other thread never writes the counters, so that nothing new
  can come between its load and its store.
\<close>

definition onMessage_step :: "tester \<Rightarrow> tester" where
  "onMessage_step t =
     (case counting t of
        None \<Rightarrow> t
      | Some (now, place, None) \<Rightarrow>
          t\<lparr>counting := Some (now, place, Some (storage t, unat (group_index t)))\<rparr>
      | Some (now, place, Some (s, i)) \<Rightarrow>
          let t' = (if s = storage t
                    then t\<lparr>data := (data t)[i := count_access now place (data t ! i)],
                           raced := raced t \<or> moved t \<noteq> None \<and> place \<noteq> Test_first\<rparr>
                    else t\<lparr>raced := True\<rparr>)
          in t'\<lparr>counting := map_option (\<lambda>place'. (now, place', None)) (next_place place (data t ! i))\<rparr>)"

text \<open>
  \<open>onMessage\<close> has at most eight such steps. The io thread runs one handler after the other: before
  the next one it has made the steps that are left.
\<close>

definition finish_onMessage :: "tester \<Rightarrow> tester" where
  "finish_onMessage t = (onMessage_step ^^ 8) t"

definition tester_onMessage :: "timespec \<Rightarrow> message \<Rightarrow> tester \<Rightarrow> tester" where
  "tester_onMessage now msg t = t\<lparr>counting := Some (now, Test_first, None)\<rparr>"

text \<open>
  The three parts of \<open>group_test\<close>: the burst with what it takes from outside (a burst that has not
  returned leaves the thread where it is), the statistics and the sleep, and \<open>group_index++\<close>.
\<close>

definition last_sec :: u32 where "last_sec = 5"

definition group_burst :: "burst_env \<Rightarrow> nat \<Rightarrow> u32 \<Rightarrow> group \<Rightarrow> tester \<Rightarrow> tester" where
  "group_burst env fuel packet_count g t =
     (case a_burst env fuel (sent_flow g) packet_count last_sec (flow_generator t) of
        Returned b \<Rightarrow>
          t\<lparr>flow_generator := gen b,
            tester_t := In_sleep packet_count
              (g\<lparr>time_s := last_sec, sent_flow := pkt_sent b, sent_flow_per_sec := pkt_sent b div last_sec\<rparr>)\<rparr>
      | Still_running \<Rightarrow> t
      | Division_by_zero \<Rightarrow> t\<lparr>halted := True\<rparr>)"

definition test_start :: u32 where "test_start = 100"
definition test_end :: u32 where "test_end = 2000"
definition test_step :: u32 where "test_step = 100"

text \<open>
  \<open>push_back\<close>. With room in the storage it constructs one more group behind the others. A full vector
  is moved: the groups are copied to storage of twice the capacity, as libstdc++ does it, and the
  old storage is released. \<open>copy_groups\<close> is the moment the copying starts, if anything happens between
  that and the release: what \<open>onMessage\<close> writes to the old groups from then on does not reach the
  copies, unless it was faster than the copying of that group.
\<close>

definition copy_groups :: "tester \<Rightarrow> tester" where
  "copy_groups t =
     (case tester_t t of
        In_push i g \<Rightarrow> if length (data t) = capacity t \<and> moved t = None then t\<lparr>moved := Some (data t)\<rparr> else t
      | _ \<Rightarrow> t)"

definition push_group :: "group \<Rightarrow> tester \<Rightarrow> tester" where
  "push_group g t =
     (if length (data t) < capacity t then t\<lparr>data := data t @ [g]\<rparr>
      else t\<lparr>data := (case moved t of None \<Rightarrow> data t | Some copies \<Rightarrow> copies) @ [g],
             capacity := 2 * capacity t, storage := Suc (storage t), moved := None\<rparr>)"

text \<open>One step of the thread that runs \<open>do_test\<close>.\<close>

definition do_test :: "burst_env \<Rightarrow> nat \<Rightarrow> tester \<Rightarrow> tester" where
  "do_test env fuel t =
     (case tester_t t of
        In_burst i g \<Rightarrow> group_burst env fuel i g t
      | In_sleep i g \<Rightarrow> t\<lparr>group_index := group_index t + 1, tester_t := In_push i g\<rparr>
      | In_push i g \<Rightarrow>
          (push_group g t)\<lparr>tester_t :=
            (if i + test_step \<le> test_end then In_burst (i + test_step) new_group else Test_done)\<rparr>
      | No_tester \<Rightarrow> t
      | Test_done \<Rightarrow> t)"

text \<open>
  \<open>test\<close> stores a new thread in \<open>tester_t\<close>. If it holds one already, the old \<open>std::thread\<close> is
  destroyed without having been joined, which terminates the program.
\<close>

definition test :: "message \<Rightarrow> tester \<Rightarrow> tester" where
  "test msg t =
     (if tester_t t = No_tester then t\<lparr>tester_t := In_burst test_start new_group\<rparr> else t\<lparr>halted := True\<rparr>)"

text \<open>
  \<open>calculate_buffered_packet\<close>, which no code calls: the group, and whether a timer was armed.
\<close>

definition calculate_buffered_packet :: "group \<Rightarrow> group \<times> bool" where
  "calculate_buffered_packet g =
     (g\<lparr>buffered_pkt := buffered_pkt g @ [sent_flow g - successed_PKTIN g]\<rparr>, running g)"

text \<open>
  The handlers of the io thread, which begin when the one before has ended; a step of the io thread in
  \<open>onMessage\<close>; a step of the test thread; the start of the copying in its \<open>push_back\<close>.
\<close>

datatype tester_event =
    Ev_hello mem | Ev_feature_request mem message | Ev_packet_in timespec message | Ev_test message
  | Ev_count | Ev_tester burst_env nat | Ev_copy

definition tester_step :: "tester \<Rightarrow> tester_event \<Rightarrow> tester \<times> message list" where
  "tester_step t e =
     (if halted t then (t, [])
      else case e of
             Ev_hello junk \<Rightarrow> (case send_hello junk (finish_onMessage t) of (t', m) \<Rightarrow> (t', [m]))
           | Ev_feature_request junk msg \<Rightarrow>
               (case send_feature_request junk msg (finish_onMessage t) of (t', m) \<Rightarrow> (t', [m]))
           | Ev_packet_in now msg \<Rightarrow> (tester_onMessage now msg (finish_onMessage t), [])
           | Ev_test msg \<Rightarrow> (test msg (finish_onMessage t), [])
           | Ev_count \<Rightarrow> (onMessage_step t, [])
           | Ev_tester env fuel \<Rightarrow> (do_test env fuel t, [])
           | Ev_copy \<Rightarrow> (copy_groups t, []))"

lemmas tester_defs [op_defs] =
  get_XID_def tester_onMessage_def test_def do_test_def tester_step_def group_burst_def

section \<open>Control messages\<close>

lemma control_bytes:
  "load m 0 8 = load_fields m 0 [1, 1, 2, 4]"
  by (rule load_by_fields) simp

lemma send_hello_message:
  "send_hello junk t = (t\<lparr>XID := XID t + 1\<rparr>, header_bytes 4 0 8 (ucast (XID t + 1)))"
  by (simp add: send_hello_def hello_assignments_def get_XID_def control_bytes put_def layout_simps mem_simps wire_simps
      del: One_nat_def)
    (simp add: header_bytes_def bytes_of_word_1 [simplified] OFP_VERSION_def Let_def)

lemma send_feature_request_message:
  "send_feature_request junk msg t = (t\<lparr>XID := XID t + 1\<rparr>, header_bytes 4 5 8 (ucast (XID t + 1)))"
  by (simp add: send_feature_request_def feature_request_assignments_def get_XID_def control_bytes put_def layout_simps mem_simps wire_simps
      del: One_nat_def)
    (simp add: header_bytes_def bytes_of_word_1 [simplified] OFP_VERSION_def Let_def)

section \<open>Invariants\<close>

text \<open>The thread's loop variable, the index the io thread counts in and the end of the vector move together.\<close>

definition thread_inv :: "tester \<Rightarrow> bool" where
  "thread_inv t =
     (let n = unat (group_index t); len = length (data t) in
      case tester_t t of
        No_tester \<Rightarrow> n = 0 \<and> len = 2048
      | In_burst i g \<Rightarrow> g = new_group \<and> unat i = 100 * n + 100 \<and> n < 20 \<and> len = 2048 + n \<and>
          (n \<noteq> 0 \<longrightarrow> \<not> is_run (flow_generator t))
      | In_sleep i g \<Rightarrow> successed_PKTIN g = 0 \<and> unat i = 100 * n + 100 \<and> n < 20 \<and> len = 2048 + n \<and>
          \<not> is_run (flow_generator t) \<and> (n \<noteq> 0 \<longrightarrow> sent_flow g = 0)
      | In_push i g \<Rightarrow> successed_PKTIN g = 0 \<and> unat i = 100 * n \<and> 0 < n \<and> n \<le> 20 \<and> len + 1 = 2048 + n \<and>
          \<not> is_run (flow_generator t) \<and> (n \<noteq> 1 \<longrightarrow> sent_flow g = 0)
      | Test_done \<Rightarrow> n = 20 \<and> len = 2068)"

definition groups_ok :: "group list \<Rightarrow> bool" where
  "groups_ok gs \<longleftrightarrow> (\<forall>j < length gs.
     (j < 2048 \<longrightarrow> sent_flow (gs ! j) = 0) \<and> (2048 \<le> j \<longrightarrow> successed_PKTIN (gs ! j) = 0) \<and>
     (2048 < j \<longrightarrow> sent_flow (gs ! j) = 0))"

text \<open>Only a full vector is moved, the copies are like the groups, and \<open>onMessage\<close> uses a group of the first 2048.\<close>

definition data_inv :: "tester \<Rightarrow> bool" where
  "data_inv t \<longleftrightarrow> groups_ok (data t) \<and>
     (\<forall>gs. moved t = Some gs \<longrightarrow> length (data t) = capacity t \<and> length gs = length (data t) \<and> groups_ok gs) \<and>
     (\<forall>now place s i. counting t = Some (now, place, Some (s, i)) \<longrightarrow> i < 2048)"

definition tester_inv :: "tester \<Rightarrow> bool" where
  "tester_inv t \<longleftrightarrow> thread_inv t \<and> data_inv t"

lemma thread_inv_bounds:
  assumes "thread_inv t"
  shows "unat (group_index t) \<le> 20" and "2048 \<le> length (data t)" and "length (data t) \<le> 2068"
  using assms by (auto simp: thread_inv_def Let_def split: tester_thread.splits)

lemma tester_inv_new: "tester_inv (new_tester fg)"
  by (simp add: tester_inv_def thread_inv_def data_inv_def groups_ok_def new_tester_def new_group_def)

subsection \<open>The steps of \<open>onMessage\<close>\<close>

lemma onMessage_step_frame [simp]:
  "XID (onMessage_step t) = XID t" "group_index (onMessage_step t) = group_index t"
  "length (data (onMessage_step t)) = length (data t)" "moved (onMessage_step t) = moved t"
  "flow_generator (onMessage_step t) = flow_generator t" "tester_t (onMessage_step t) = tester_t t"
  "halted (onMessage_step t) = halted t" "storage (onMessage_step t) = storage t"
  "capacity (onMessage_step t) = capacity t"
  by (simp_all add: onMessage_step_def Let_def split: option.split)

lemma finish_frame [simp]:
  "XID (finish_onMessage t) = XID t" "group_index (finish_onMessage t) = group_index t"
  "length (data (finish_onMessage t)) = length (data t)" "moved (finish_onMessage t) = moved t"
  "flow_generator (finish_onMessage t) = flow_generator t" "tester_t (finish_onMessage t) = tester_t t"
  "halted (finish_onMessage t) = halted t" "storage (finish_onMessage t) = storage t"
  "capacity (finish_onMessage t) = capacity t"
proof -
  have "XID ((onMessage_step ^^ n) t) = XID t \<and> group_index ((onMessage_step ^^ n) t) = group_index t \<and>
      length (data ((onMessage_step ^^ n) t)) = length (data t) \<and> moved ((onMessage_step ^^ n) t) = moved t \<and>
      flow_generator ((onMessage_step ^^ n) t) = flow_generator t \<and> tester_t ((onMessage_step ^^ n) t) = tester_t t \<and>
      halted ((onMessage_step ^^ n) t) = halted t \<and> storage ((onMessage_step ^^ n) t) = storage t \<and>
      capacity ((onMessage_step ^^ n) t) = capacity t" for n
    by (induction n) simp_all
  then show "XID (finish_onMessage t) = XID t" "group_index (finish_onMessage t) = group_index t"
    "length (data (finish_onMessage t)) = length (data t)" "moved (finish_onMessage t) = moved t"
    "flow_generator (finish_onMessage t) = flow_generator t" "tester_t (finish_onMessage t) = tester_t t"
    "halted (finish_onMessage t) = halted t" "storage (finish_onMessage t) = storage t"
  "capacity (finish_onMessage t) = capacity t"
    by (simp_all add: finish_onMessage_def)
qed

text \<open>After eight steps \<open>onMessage\<close> has returned.\<close>

definition accesses_left :: "tester \<Rightarrow> nat" where
  "accesses_left t =
     (case counting t of
        None \<Rightarrow> 0
      | Some (now, place, a) \<Rightarrow>
          2 * (case place of Test_first \<Rightarrow> 4 | Set_first \<Rightarrow> 3 | Set_last \<Rightarrow> 2 | Increment \<Rightarrow> 1) -
          (case a of None \<Rightarrow> 0 | Some x \<Rightarrow> 1))"

lemma accesses_left_step: "accesses_left (onMessage_step t) \<le> accesses_left t - 1"
  by (auto simp: onMessage_step_def accesses_left_def next_place_def Let_def split: option.split count_place.split)

lemma accesses_left_zero: "accesses_left t = 0 \<longleftrightarrow> counting t = None"
  by (auto simp: accesses_left_def split: option.split count_place.split)

lemma finish_returns: "counting (finish_onMessage t) = None"
proof -
  have left: "accesses_left ((onMessage_step ^^ n) t) \<le> accesses_left t - n" for n
  proof (induction n)
    case (Suc n)
    then show ?case using accesses_left_step [of "(onMessage_step ^^ n) t"] by simp
  qed simp
  have "accesses_left (finish_onMessage t) \<le> accesses_left t - 8" using left [of 8] by (simp only: finish_onMessage_def)
  moreover have "accesses_left t \<le> 8" by (auto simp: accesses_left_def split: option.split count_place.split)
  ultimately have "accesses_left (finish_onMessage t) = 0" by simp
  then show ?thesis by (simp only: accesses_left_zero)
qed

text \<open>What every step of \<open>onMessage\<close> keeps, \<open>finish_onMessage\<close> keeps.\<close>

lemma finish_invariant:
  assumes "P t" and "\<And>t. P t \<Longrightarrow> P (onMessage_step t)"
  shows "P (finish_onMessage t)"
proof -
  have "P ((onMessage_step ^^ n) t)" for n using assms by (induction n) simp_all
  then show ?thesis by (simp only: finish_onMessage_def)
qed

lemma count_access_sent [simp]: "sent_flow (count_access now place g) = sent_flow g"
  "successed_PKTIN (count_access now place g) = successed_PKTIN g + (if place = Increment then 1 else 0)"
  by (simp_all add: count_access_def split: count_place.split)

lemma groups_ok_access:
  "groups_ok gs \<Longrightarrow> i < 2048 \<Longrightarrow> groups_ok (gs[i := count_access now place (gs ! i)])"
  by (cases "i < length gs") (auto simp: groups_ok_def nth_list_update)

lemma thread_inv_frame [simp]:
  "thread_inv (t\<lparr>counting := c\<rparr>) = thread_inv t" "thread_inv (t\<lparr>moved := gs\<rparr>) = thread_inv t"
  "thread_inv (onMessage_step t) = thread_inv t"
  by (cases "tester_t t"; simp add: thread_inv_def)+

lemma tester_inv_onMessage_step:
  assumes "tester_inv t"
  shows "tester_inv (onMessage_step t)"
proof -
  have n: "unat (group_index t) < 2048" using thread_inv_bounds(1) [of t] assms by (simp add: tester_inv_def)
  have "thread_inv (onMessage_step t)"
    using assms by (simp add: tester_inv_def)
  moreover have "data_inv (onMessage_step t)"
  proof (cases "counting t")
    case None
    then show ?thesis using assms by (simp add: onMessage_step_def tester_inv_def)
  next
    case (Some c)
    obtain now place a where c: "c = (now, place, a)" by (cases c)
    have inv: "data_inv t" using assms by (simp add: tester_inv_def)
    show ?thesis
    proof (cases a)
      case None
      then show ?thesis using inv n Some c by (simp add: onMessage_step_def data_inv_def)
    next
      case (Some x)
      obtain s i where at: "counting t = Some (now, place, Some (s, i))"
        using \<open>counting t = Some c\<close> c Some by (cases x) simp
      then have "i < 2048" using inv by (simp add: data_inv_def)
      then show ?thesis
        using inv groups_ok_access [of "data t" i]
        by (cases "s = storage t") (auto simp: onMessage_step_def at data_inv_def Let_def)
    qed
  qed
  ultimately show ?thesis by (simp add: tester_inv_def)
qed

lemma tester_inv_finish: "tester_inv t \<Longrightarrow> tester_inv (finish_onMessage t)"
  by (erule finish_invariant) (rule tester_inv_onMessage_step)

lemma tester_inv_onMessage: "tester_inv t \<Longrightarrow> tester_inv (tester_onMessage now msg t)"
  by (simp add: tester_inv_def data_inv_def tester_onMessage_def)

lemma copy_groups_cases:
  "copy_groups t = t \<or> length (data t) = capacity t \<and> copy_groups t = t\<lparr>moved := Some (data t)\<rparr>"
  by (simp add: copy_groups_def split: tester_thread.split)

lemma copy_frame:
  "XID (copy_groups t) = XID t" "group_index (copy_groups t) = group_index t" "data (copy_groups t) = data t"
  "tester_t (copy_groups t) = tester_t t" "halted (copy_groups t) = halted t"
  using copy_groups_cases [of t] by auto

lemma tester_inv_copy:
  assumes "tester_inv t"
  shows "tester_inv (copy_groups t)"
  using assms copy_groups_cases [of t] by (elim disjE conjE) (simp_all add: tester_inv_def data_inv_def)

lemma push_frame [simp]:
  "group_index (push_group g t) = group_index t" "flow_generator (push_group g t) = flow_generator t"
  "XID (push_group g t) = XID t" "counting (push_group g t) = counting t" "raced (push_group g t) = raced t"
  "halted (push_group g t) = halted t" "tester_t (push_group g t) = tester_t t"
  by (simp_all add: push_group_def)

lemma push_length: "data_inv t \<Longrightarrow> length (data (push_group g t)) = Suc (length (data t))"
  by (auto simp: push_group_def data_inv_def split: option.split)

lemma groups_ok_push:
  assumes "groups_ok gs" and "2048 \<le> length gs" and "successed_PKTIN g = 0" and "2048 < length gs \<longrightarrow> sent_flow g = 0"
  shows "groups_ok (gs @ [g])"
  using assms by (auto simp: groups_ok_def nth_append less_Suc_eq)

lemma data_inv_push:
  assumes "data_inv t" and "2048 \<le> length (data t)" and "successed_PKTIN g = 0"
    and "2048 < length (data t) \<longrightarrow> sent_flow g = 0"
  shows "data_inv (push_group g t)"
  using assms groups_ok_push
  by (auto simp: data_inv_def push_group_def split: option.split)

lemma tester_inv_burst:
  assumes "tester_inv t" and "tester_t t = In_burst i g"
  shows "tester_inv (group_burst env fuel i g t)"
proof (cases "a_burst env fuel (sent_flow g) i last_sec (flow_generator t)")
  case (Returned b)
  have g: "g = new_group" using assms by (simp add: tester_inv_def thread_inv_def Let_def)
  have "\<not> is_run (gen b)" using Returned by (rule burst_returns_stopped)
  moreover have "pkt_sent b = 0" if "\<not> is_run (flow_generator t)"
    using burst_stopped(2) [OF Returned that] by (simp add: g new_group_def)
  ultimately show ?thesis
    using assms Returned
    by (auto simp: tester_inv_def thread_inv_def data_inv_def group_burst_def g new_group_def Let_def)
qed (use assms in \<open>simp_all add: group_burst_def tester_inv_def thread_inv_def data_inv_def\<close>)

lemma unat_inc:
  assumes "unat (w :: u32) < 20"
  shows "unat (w + 1) = unat w + 1"
  using assms unat_word_ariths(1) [of w 1] by simp

lemma next_rate:
  assumes "unat (i :: u32) = 100 * n" and "n \<le> 20"
  shows "unat (i + test_step) = 100 * n + 100" and "i + test_step \<le> test_end \<longleftrightarrow> n < 20"
proof -
  show step: "unat (i + test_step) = 100 * n + 100"
    using assms unat_word_ariths(1) [of i 100] by (simp add: test_step_def)
  then show "i + test_step \<le> test_end \<longleftrightarrow> n < 20"
    by (auto simp: word_le_nat_alt test_end_def)
qed

lemma tester_inv_do_test:
  assumes "tester_inv t"
  shows "tester_inv (do_test env fuel t)"
proof (cases "tester_t t")
  case (In_burst i g)
  with tester_inv_burst [OF assms In_burst] show ?thesis by (simp add: do_test_def)
next
  case (In_sleep i g)
  with assms show ?thesis
    by (auto simp: tester_inv_def thread_inv_def data_inv_def do_test_def Let_def unat_inc)
next
  case (In_push i g)
  let ?n = "unat (group_index t)"
  have n: "unat i = 100 * ?n" "?n \<le> 20" "0 < ?n" "length (data t) + 1 = 2048 + ?n"
    using assms In_push by (simp_all add: tester_inv_def thread_inv_def Let_def)
  have g: "successed_PKTIN g = 0" "2048 < length (data t) \<longrightarrow> sent_flow g = 0"
    using assms In_push n(4) by (auto simp: tester_inv_def thread_inv_def Let_def)
  have data: "data_inv t" "length (data (push_group g t)) = Suc (length (data t))"
    using assms push_length by (simp_all add: tester_inv_def)
  have "data_inv (do_test env fuel t)"
    using data_inv_push [OF data(1) _ g] n(3,4) by (simp add: do_test_def In_push) (simp add: data_inv_def)
  moreover have "thread_inv (do_test env fuel t)"
    using assms In_push n next_rate [OF n(1,2)] data(2)
    by (auto simp: tester_inv_def thread_inv_def do_test_def Let_def)
  ultimately show ?thesis by (simp add: tester_inv_def)
qed (use assms in \<open>simp_all add: do_test_def\<close>)

lemma tester_inv_XID [simp]: "tester_inv (t\<lparr>XID := x\<rparr>) = tester_inv t"
  and tester_inv_halted [simp]: "tester_inv (t\<lparr>halted := h\<rparr>) = tester_inv t"
  by (cases "tester_t t"; simp add: tester_inv_def thread_inv_def data_inv_def)+

lemma tester_inv_test: "tester_inv t \<Longrightarrow> tester_inv (test msg t)"
  by (cases "tester_t t = No_tester")
    (simp_all add: test_def, auto simp: tester_inv_def thread_inv_def data_inv_def test_start_def)

lemma tester_inv_step: "tester_inv t \<Longrightarrow> tester_inv (fst (tester_step t e))"
  by (cases e)
    (simp_all add: tester_step_def send_hello_message send_feature_request_message tester_inv_onMessage
      tester_inv_do_test tester_inv_test tester_inv_finish tester_inv_onMessage_step tester_inv_copy)

lemma tester_inv_run: "tester_inv (fst (run tester_step (new_tester fg) es))"
  by (rule run_invariant) (auto intro: tester_inv_new tester_inv_step)

subsection \<open>Counting\<close>

definition received :: "tester \<Rightarrow> u32" where
  "received t = sum_list (map successed_PKTIN (data t))"

definition packet_ins :: "tester_event list \<Rightarrow> nat" where
  "packet_ins es = length (filter (\<lambda>e. case e of Ev_packet_in now msg \<Rightarrow> True | _ \<Rightarrow> False) es)"

lemma sum_list_update_word:
  "i < length xs \<Longrightarrow> sum_list (xs[i := x]) = sum_list xs - xs ! i + (x :: 'a::ab_group_add)"
proof (induction xs arbitrary: i)
  case (Cons y ys)
  then show ?case by (cases i) (simp_all add: algebra_simps)
qed simp

text \<open>A packet-in that \<open>onMessage\<close> has not counted yet.\<close>

definition pending :: "tester \<Rightarrow> u32" where
  "pending t = (if counting t = None then 0 else 1)"

text \<open>
  The count is right: as long as the accesses of \<open>onMessage\<close> and the move of the vector have not met,
  the counters add up, and so do the copies that will replace the groups.
\<close>

definition count_ok :: "nat \<Rightarrow> tester \<Rightarrow> bool" where
  "count_ok n t \<longleftrightarrow> raced t \<or>
     received t + pending t = of_nat n \<and>
     (\<forall>gs. moved t = Some gs \<longrightarrow> sum_list (map successed_PKTIN gs) = received t)"

lemma received_access:
  "i < length (data t) \<Longrightarrow>
   sum_list (map successed_PKTIN ((data t)[i := count_access now place (data t ! i)])) =
     received t + (if place = Increment then 1 else 0)"
  by (simp add: received_def map_update sum_list_update_word)

lemma next_place_none: "next_place place g = None \<longleftrightarrow> place = Increment"
  by (simp add: next_place_def split: count_place.split)

lemma count_ok_step:
  assumes "tester_inv t" and "count_ok n t"
  shows "count_ok n (onMessage_step t)"
proof (cases "counting t")
  case None
  then show ?thesis using assms(2) by (simp add: onMessage_step_def)
next
  case (Some c)
  obtain now place a where c: "c = (now, place, a)" by (cases c)
  show ?thesis
  proof (cases a)
    case None
    then show ?thesis
      using assms(2) Some c by (simp add: onMessage_step_def count_ok_def received_def pending_def)
  next
    case (Some x)
    obtain s i where x: "x = (s, i)" by (cases x)
    have at: "counting t = Some (now, place, Some (s, i))" using \<open>counting t = Some c\<close> c Some x by simp
    then have i: "i < length (data t)"
      using assms(1) thread_inv_bounds(2) [of t] by (auto simp: tester_inv_def data_inv_def)
    have parts: "s = storage t \<Longrightarrow> received (onMessage_step t) = received t + (if place = Increment then 1 else 0)"
      "pending (onMessage_step t) = (if place = Increment then 0 else 1)" "pending t = 1"
      "raced (onMessage_step t) \<longleftrightarrow> raced t \<or> s \<noteq> storage t \<or> moved t \<noteq> None \<and> place \<noteq> Test_first"
      using received_access [OF i, of now place]
      by (auto simp: onMessage_step_def at Let_def pending_def next_place_none received_def)
    show ?thesis
      using assms(2) parts by (auto simp: count_ok_def)
  qed
qed

lemma count_ok_finish:
  assumes "tester_inv t" and "count_ok n t"
  shows "count_ok n (finish_onMessage t)"
proof -
  have "tester_inv (finish_onMessage t) \<and> count_ok n (finish_onMessage t)"
    by (rule finish_invariant [where P = "\<lambda>t. tester_inv t \<and> count_ok n t"])
      (use assms tester_inv_onMessage_step count_ok_step in blast)+
  then show ?thesis by simp
qed

lemma count_ok_do_test:
  assumes "tester_inv t" and "count_ok n t"
  shows "count_ok n (do_test env fuel t)"
  using assms
  by (auto simp: count_ok_def received_def pending_def do_test_def group_burst_def push_group_def tester_inv_def
      thread_inv_def Let_def split: tester_thread.split burst_result.split option.split)

lemma count_ok_copy: "count_ok n t \<Longrightarrow> count_ok n (copy_groups t)"
  by (auto simp: count_ok_def received_def pending_def copy_groups_def split: tester_thread.split)

lemma count_ok_tester_step:
  assumes "tester_inv t" and "count_ok n t" and "\<not> halted t"
  shows "count_ok (n + packet_ins [e]) (fst (tester_step t e))"
proof -
  note fin = count_ok_finish [OF assms(1,2)]
  have same: "count_ok n (t\<lparr>XID := x\<rparr>) = count_ok n t" "count_ok n (test msg t) = count_ok n t" for t x msg
    by (simp_all add: count_ok_def received_def pending_def test_def)
  have "count_ok (Suc n) (tester_onMessage now msg (finish_onMessage t))" for now msg
    using fin finish_returns [of t]
    by (auto simp: count_ok_def received_def pending_def tester_onMessage_def add.commute)
  then show ?thesis
    using assms fin count_ok_step count_ok_do_test count_ok_copy
    by (cases e) (simp_all add: tester_step_def send_hello_message send_feature_request_message packet_ins_def same)
qed

lemma halted_step: "halted t \<Longrightarrow> halted (fst (tester_step t e))"
  by (simp add: tester_step_def)

lemma halted_run: "halted t \<Longrightarrow> halted (fst (run tester_step t es))"
  by (rule run_invariant) (auto intro: halted_step)

lemma count_ok_run:
  assumes "tester_inv t" and "count_ok n t" and "\<not> halted (fst (run tester_step t es))"
  shows "count_ok (n + packet_ins es) (fst (run tester_step t es))"
  using assms
proof (induction es arbitrary: t n)
  case Nil
  then show ?case by (simp add: packet_ins_def)
next
  case (Cons e es)
  have alive: "\<not> halted t" using Cons.prems(3) halted_run [of t "e # es"] by blast
  have "packet_ins (e # es) = packet_ins [e] + packet_ins es" by (simp add: packet_ins_def)
  then show ?case
    using Cons.IH [OF tester_inv_step [OF Cons.prems(1)] count_ok_tester_step [OF Cons.prems(1,2) alive]] Cons.prems(3)
    by (simp add: fst_run_Cons add.assoc del: run.simps)
qed

lemma received_run:
  assumes "tester_inv t" and "count_ok 0 t" and "\<not> halted (fst (run tester_step t es))"
    and "\<not> raced (fst (run tester_step t es))"
  shows "received (fst (run tester_step t es)) + pending (fst (run tester_step t es)) = of_nat (packet_ins es)"
  using count_ok_run [OF assms(1-3)] assms(4) by (simp add: count_ok_def)

lemma count_ok_new: "count_ok 0 (new_tester fg)"
  by (simp add: count_ok_def received_def pending_def new_tester_def new_group_def sum_list_replicate)

text \<open>Before the test has begun nothing moves the vector.\<close>

definition at_rest :: "tester \<Rightarrow> bool" where
  "at_rest t \<longleftrightarrow> \<not> raced t \<and> moved t = None \<and>
     (\<forall>now place s i. counting t = Some (now, place, Some (s, i)) \<longrightarrow> s = storage t)"

lemma at_rest_step: "at_rest t \<Longrightarrow> at_rest (onMessage_step t)"
  by (auto simp: at_rest_def onMessage_step_def Let_def split: option.split)

lemma at_rest_finish: "at_rest t \<Longrightarrow> at_rest (finish_onMessage t)"
  by (erule finish_invariant) (rule at_rest_step)

lemma at_rest_tester_step:
  assumes "tester_t t = No_tester \<longrightarrow> at_rest t" and "tester_t (fst (tester_step t e)) = No_tester"
  shows "at_rest (fst (tester_step t e))"
proof -
  have none: "tester_t t = No_tester"
    using assms(2)
    by (cases e) (auto simp: tester_step_def send_hello_message send_feature_request_message tester_onMessage_def
        test_def do_test_def group_burst_def copy_groups_def
        split: if_splits tester_thread.splits burst_result.splits)
  then have rest: "at_rest t" using assms(1) by simp
  have same: "at_rest (t\<lparr>XID := x\<rparr>) = at_rest t" "at_rest (test msg t) = at_rest t" for t x msg
    by (simp_all add: at_rest_def test_def)
  have "at_rest (tester_onMessage now msg (finish_onMessage t))" for now msg
    using at_rest_finish [OF rest] by (simp add: at_rest_def tester_onMessage_def)
  then show ?thesis
    using rest at_rest_finish [OF rest] at_rest_step [OF rest]
    by (cases e) (simp_all add: tester_step_def send_hello_message send_feature_request_message none same
        do_test_def copy_groups_def)
qed

lemma at_rest_new [simp]: "at_rest (new_tester fg)" "at_rest (t\<lparr>XID := x\<rparr>) = at_rest t"
  by (simp_all add: at_rest_def new_tester_def)

lemma unraced_before_test:
  assumes "at_rest t" and "tester_t (fst (run tester_step t es)) = No_tester"
  shows "\<not> raced (fst (run tester_step t es))"
proof -
  have "tester_t (fst (run tester_step t es)) = No_tester \<longrightarrow> at_rest (fst (run tester_step t es))"
    by (rule run_invariant [where I = "\<lambda>t. tester_t t = No_tester \<longrightarrow> at_rest t"])
      (use assms(1) at_rest_tester_step in auto)
  with assms(2) show ?thesis by (simp add: at_rest_def)
qed

subsection \<open>The race\<close>

lemma idle_finish: "counting t = None \<Longrightarrow> finish_onMessage t = t"
proof -
  assume none: "counting t = None"
  then have "(onMessage_step ^^ n) t = t" for n by (induction n) (simp_all add: onMessage_step_def)
  then show ?thesis by (simp only: finish_onMessage_def)
qed

lemma count_steps:
  "\<not> halted t \<Longrightarrow> fst (run tester_step t (replicate n Ev_count)) = (onMessage_step ^^ n) t"
  by (induction n arbitrary: t) (simp_all add: fst_run_Cons tester_step_def funpow_swap1 del: run.simps(2))

lemma lost_in_push:
  assumes "tester_t t = In_push i g" and "successed_PKTIN g = 0" and "moved t = None"
    and "length (data t) = capacity t" and "counting t = None" and "\<not> halted t"
  shows "received (fst (run tester_step t
        ([Ev_packet_in now msg, Ev_copy] @ replicate 8 Ev_count @ [Ev_tester env fuel]))) = received t \<and>
    counting (fst (run tester_step t
        ([Ev_packet_in now msg, Ev_copy] @ replicate 8 Ev_count @ [Ev_tester env fuel]))) = None \<and>
    \<not> halted (fst (run tester_step t
        ([Ev_packet_in now msg, Ev_copy] @ replicate 8 Ev_count @ [Ev_tester env fuel])))"
proof -
  let ?c = "t\<lparr>counting := Some (now, Test_first, None), moved := Some (data t)\<rparr>"
  let ?f = "finish_onMessage ?c"
  have "fst (run tester_step t [Ev_packet_in now msg, Ev_copy]) = ?c"
    using assms by (simp add: tester_step_def tester_onMessage_def idle_finish copy_groups_def)
  moreover have "fst (run tester_step ?c (replicate 8 Ev_count)) = ?f"
    using assms(6) by (simp add: finish_onMessage_def count_steps del: replicate.simps)
  ultimately have end': "fst (run tester_step t ([Ev_packet_in now msg, Ev_copy] @ replicate 8 Ev_count @ [Ev_tester env fuel])) =
      do_test env fuel ?f"
    using assms(6) by (simp only: run_append split_beta Let_def fst_conv) (simp add: tester_step_def)
  have "received (do_test env fuel ?f) = received t"
    using assms(1,2,4) by (simp add: do_test_def push_group_def received_def)
  moreover have "counting (do_test env fuel ?f) = None" "\<not> halted (do_test env fuel ?f)"
    using assms(1,6) finish_returns [of ?c] by (simp_all add: do_test_def)
  ultimately show ?thesis unfolding end' by simp
qed

subsection \<open>The control messages of a run\<close>

lemma XID_frame:
  "XID (tester_onMessage now msg t) = XID t" "XID (test msg t) = XID t" "XID (do_test env fuel t) = XID t"
  "XID (copy_groups t) = XID t"
  by (simp_all add: tester_defs copy_groups_def Let_def split: tester_thread.split burst_result.split)

definition control_message :: "u32 \<Rightarrow> message \<Rightarrow> bool" where
  "control_message x msg \<longleftrightarrow>
     msg = header_bytes OFP_VERSION (ucast (ofp_type_val OFPT_HELLO)) 8 x \<or>
     msg = header_bytes OFP_VERSION (ucast (ofp_type_val OFPT_FEATURES_REQUEST)) 8 x"

lemma control_step:
  "(snd (tester_step t e) = [] \<and> XID (fst (tester_step t e)) = XID t) \<or>
   (\<exists>m. snd (tester_step t e) = [m] \<and> XID (fst (tester_step t e)) = XID t + 1 \<and>
      control_message (ucast (XID t + 1)) m)"
  by (cases e) (simp_all add: tester_step_def send_hello_message send_feature_request_message XID_frame
      control_message_def OFP_VERSION_def)

lemma control_run:
  "list_all2 control_message
     (map (\<lambda>k. ucast (XID t + of_nat (Suc k))) [0..<length (snd (run tester_step t es))])
     (snd (run tester_step t es))"
proof (induction es arbitrary: t)
  case Nil
  then show ?case by simp
next
  case (Cons e es)
  let ?t = "fst (tester_step t e)" and ?os = "snd (run tester_step (fst (tester_step t e)) es)"
  from control_step [of t e] show ?case
  proof (elim disjE exE conjE)
    assume "snd (tester_step t e) = []" "XID ?t = XID t"
    then show ?thesis using Cons.IH [of ?t] by (simp add: snd_run_Cons del: run.simps)
  next
    fix m assume m: "snd (tester_step t e) = [m]" "XID ?t = XID t + 1" "control_message (ucast (XID t + 1)) m"
    have "map (\<lambda>k. ucast (XID t + of_nat (Suc k)) :: u32) [0..<Suc (length ?os)] =
        ucast (XID t + 1) # map (\<lambda>k. ucast (XID ?t + of_nat (Suc k))) [0..<length ?os]"
      by (simp add: m(2) upt_conv_Cons map_Suc_upt [symmetric] o_def algebra_simps del: upt_Suc)
    then show ?thesis using m(1,3) Cons.IH [of ?t] by (simp add: snd_run_Cons del: run.simps upt_Suc)
  qed
qed

lemma ucast_of_nat_32: "(ucast (of_nat n :: u64) :: u32) = of_nat n"
  by (rule bit_word_eqI) (simp add: bit_simps)

section \<open>Properties\<close>

text \<open>
  The handshake: whatever the switch does, the messages the tester writes are whole headers
  of protocol version 4 that say \<open>HELLO\<close> or \<open>FEATURES_REQUEST\<close> and carry the transaction numbers 1,
  2, 3 and so on in the order they are sent.
\<close>

theorem tester_control_messages:
  "list_all2 control_message
     (map (\<lambda>k. of_nat (Suc k)) [0..<length (snd (run tester_step (new_tester fg) es))])
     (snd (run tester_step (new_tester fg) es))"
proof -
  have "ucast (XID (new_tester fg) + of_nat (Suc k)) = (of_nat (Suc k) :: u32)" for k
    using ucast_of_nat_32 [of "Suc k"] by (simp add: new_tester_def)
  then show ?thesis using control_run [of "new_tester fg" es] by simp
qed

text \<open>
  The io thread never indexes past the vector: in every interleaving with the test thread the
  group it counts in is one of the first 21 of at least 2048.
\<close>

theorem tester_index_in_bounds:
  "unat (group_index (fst (run tester_step (new_tester fg) es))) \<le> 20 \<and>
   unat (group_index (fst (run tester_step (new_tester fg) es)))
     < length (data (fst (run tester_step (new_tester fg) es)))"
  using thread_inv_bounds [of "fst (run tester_step (new_tester fg) es)"] tester_inv_run [of fg es]
  by (simp add: tester_inv_def)

text \<open>
  As long as the program runs and no access of \<open>onMessage\<close> has met the move of the vector, no packet-in
  is lost or counted twice: the counters of all groups, and the packet-in that \<open>onMessage\<close> may be
  counting, add up to the number of packet-ins dispatched, modulo \<open>2 ^ 32\<close>.
\<close>

theorem tester_counts_packet_ins:
  assumes "\<not> halted (fst (run tester_step (new_tester fg) es))" and "\<not> raced (fst (run tester_step (new_tester fg) es))"
  shows "received (fst (run tester_step (new_tester fg) es)) + pending (fst (run tester_step (new_tester fg) es)) =
    of_nat (packet_ins es)"
  using tester_inv_new count_ok_new assms by (rule received_run)

theorem tester_counts_packet_ins_witness:
  "received (fst (run tester_step (new_tester (new_flow_gen Pcap first_counters))
      [Ev_packet_in \<lparr>tv_sec = 5, tv_nsec = 0\<rparr> [], Ev_count, Ev_hello (\<lambda>_. 0)])) = 1"
proof -
  let ?t = "fst (run tester_step (new_tester (new_flow_gen Pcap first_counters))
      [Ev_packet_in \<lparr>tv_sec = 5, tv_nsec = 0\<rparr> [], Ev_count, Ev_hello (\<lambda>_. 0)])"
  have t: "tester_t ?t = No_tester" "\<not> halted ?t" "counting ?t = None"
    by (simp_all add: tester_step_def tester_onMessage_def new_tester_def send_hello_message finish_returns)
  from tester_counts_packet_ins [OF t(2) unraced_before_test [OF at_rest_new(1) t(1)]] t(3)
  show ?thesis by (simp add: packet_ins_def pending_def del: run.simps)
qed

text \<open>
  C27. The results cannot be compared: the vector starts with 2048 groups, the io thread counts in
  the first of them, and \<open>push_back\<close> puts the groups with the numbers of packets sent behind them,
  so no group ever holds both numbers; and of the groups pushed only the first can hold packets.
\<close>

theorem tester_groups_disjoint:
  "list_all (\<lambda>g. sent_flow g = 0) (take 2048 (data (fst (run tester_step (new_tester fg) es)))) \<and>
   list_all (\<lambda>g. successed_PKTIN g = 0) (drop 2048 (data (fst (run tester_step (new_tester fg) es)))) \<and>
   list_all (\<lambda>g. sent_flow g = 0) (drop 2049 (data (fst (run tester_step (new_tester fg) es))))"
  using tester_inv_run [of fg es] by (auto simp: tester_inv_def data_inv_def groups_ok_def list_all_length)

text \<open>A clock that jumps ten seconds with every reading.\<close>

definition hasty_env :: burst_env where
  "hasty_env = steady_env\<lparr>clock := \<lambda>n. \<lparr>tv_sec = 10 * int n, tv_nsec = 0\<rparr>\<rparr>"

text \<open>
  The race: a packet-in that \<open>onMessage\<close> counts while the first \<open>push_back\<close> moves the vector is lost. All
  eight accesses are made after the copying has begun and before the old storage is released, so no
  memory is misused, and yet the counters of the new storage know nothing of the packet-in.
\<close>

definition losing_events :: "timespec \<Rightarrow> tester_event list" where
  "losing_events now =
     [Ev_test [], Ev_tester hasty_env 2, Ev_tester hasty_env 2, Ev_packet_in now [], Ev_copy] @
     replicate 8 Ev_count @ [Ev_tester hasty_env 2]"

theorem packet_in_lost:
  "packet_ins (losing_events now) = 1 \<and>
   received (fst (run tester_step (new_tester (new_flow_gen Pcap first_counters)) (losing_events now))) = 0 \<and>
   counting (fst (run tester_step (new_tester (new_flow_gen Pcap first_counters)) (losing_events now))) = None \<and>
   \<not> halted (fst (run tester_step (new_tester (new_flow_gen Pcap first_counters)) (losing_events now)))"
proof -
  let ?t = "new_tester (new_flow_gen Pcap first_counters)"
  have "burst_ends last_sec hasty_env 2"
    unfolding burst_ends_def
    by (intro conjI exI [of _ 0]) (simp_all add: hasty_env_def steady_env_def normal_def ns_of_def nsec_def last_sec_def)
  from burst_returns [OF this, of test_start 0 "new_flow_gen Pcap first_counters"] obtain b where
    b: "a_burst hasty_env 2 0 test_start last_sec (new_flow_gen Pcap first_counters) = Returned b"
    by (auto simp: test_start_def)
  let ?g = "new_group\<lparr>time_s := last_sec, sent_flow := pkt_sent b, sent_flow_per_sec := pkt_sent b div last_sec\<rparr>"
  let ?p = "?t\<lparr>flow_generator := gen b, group_index := 1, tester_t := In_push test_start ?g\<rparr>"
  have "fst (run tester_step ?t [Ev_test [], Ev_tester hasty_env 2, Ev_tester hasty_env 2]) = ?p"
    using b by (simp add: tester_step_def test_def do_test_def group_burst_def idle_finish new_tester_def new_group_def)
  moreover have "losing_events now = [Ev_test [], Ev_tester hasty_env 2, Ev_tester hasty_env 2] @
      ([Ev_packet_in now [], Ev_copy] @ replicate 8 Ev_count @ [Ev_tester hasty_env 2])"
    by (simp add: losing_events_def)
  moreover have "fst (run tester_step ?t (xs @ ys)) = fst (run tester_step (fst (run tester_step ?t xs)) ys)" for xs ys
    by (simp add: run_append split_beta)
  ultimately have run: "fst (run tester_step ?t (losing_events now)) = fst (run tester_step ?p
      ([Ev_packet_in now [], Ev_copy] @ replicate 8 Ev_count @ [Ev_tester hasty_env 2]))"
    by presburger
  have "tester_t ?p = In_push test_start ?g" "successed_PKTIN ?g = 0" "moved ?p = None"
    "length (data ?p) = capacity ?p" "counting ?p = None" "\<not> halted ?p" "received ?p = 0"
    by (simp_all add: new_tester_def new_group_def received_def sum_list_replicate)
  with lost_in_push [of ?p test_start ?g now "[]" hasty_env 2] show ?thesis
    unfolding run by (simp add: losing_events_def packet_ins_def del: run.simps)
qed

text \<open>
  A second features reply ends the program: \<open>test\<close> replaces the handle of a thread that nothing
  has joined.
\<close>

theorem second_features_reply_terminates:
  "halted (test msg' (test msg t)) \<and> halted (test msg (new_tester fg)) = False"
  by (simp add: test_def new_tester_def)

end
