(* ===== verification/ETester.thy ===== *)
theory ETester imports Session_Write Packet_In_Tester begin

text \<open>
  \<open>UnitTest_PacketInTester.cpp\<close>: the tester program. A switch connects; the program greets it, asks
  for its features when it greets back, starts the test thread when the features arrive, and counts
  the packet-ins the generated packets cause. Parsing the arguments, setting the log level and
  opening the capture device come before; the model starts where \<open>FlowGen\<close> could be constructed.
\<close>

section \<open>State and wiring\<close>

text \<open>The three functions \<open>main\<close> binds.\<close>

datatype tester_callback = Send_feature_request | Test | On_packet_in

record etester =
  switch_session :: "tester_callback dispatcher session"
  switch_writer :: writer
  tester :: tester
  failed_out :: bool

definition tester_dispatcher :: "tester_callback dispatcher" where
  "tester_dispatcher =
     setCallBackOnMessage OFPT_PACKET_IN (Some On_packet_in)
       (setCallBackOnMessage OFPT_FEATURES_REPLY (Some Test)
         (setCallBackOnMessage OFPT_HELLO (Some Send_feature_request) new_dispatcher))"

definition etester_main :: "mem \<Rightarrow> mem \<Rightarrow> etester" where
  "etester_main data_junk hello_junk =
     (let s = listen 9000 ''127.0.0.1'' (set_dispatcher tester_dispatcher (new_session ''switch_session'' data_junk));
          (t, hello) = send_hello hello_junk (new_tester (new_flow_gen Pcap first_counters))
      in \<lparr>switch_session = session_start s, switch_writer = session_write hello new_writer, tester = t,
          failed_out = False\<rparr>)"

section \<open>Events\<close>

text \<open>
  A completed read, with what the callbacks take from outside (a fresh array, the clock); a step of
  the io thread inside \<open>PacketInTester::onMessage\<close>; a step of the test thread, and the start of the
  copying in its \<open>push_back\<close>; a step of the io thread on the writes. A read whose callback is
  \<open>onMessage\<close> enters it; the steps that are left when the next handler of the tester begins are made
  then. The io thread starts the next read and takes other handlers only after \<open>onMessage\<close> has
  returned; their effects and its steps concern different objects, so their order does not matter.
\<close>

datatype etester_event =
    T_read completion mem timespec | T_count | T_thread burst_env nat | T_copy
  | T_write_start | T_write_move nat nat

datatype etester_out = From_session "tester_callback action session_out" | From_tester message

definition callback_event :: "tester_callback \<Rightarrow> mem \<Rightarrow> timespec \<Rightarrow> message \<Rightarrow> tester_event" where
  "callback_event cb junk now msg =
     (case cb of
        Send_feature_request \<Rightarrow> Ev_feature_request junk msg
      | Test \<Rightarrow> Ev_test msg
      | On_packet_in \<Rightarrow> Ev_packet_in now msg)"

definition tester_does :: "tester_event \<Rightarrow> etester \<Rightarrow> etester \<times> etester_out list" where
  "tester_does e p =
     (case tester_step (tester p) e of
        (t, msgs) \<Rightarrow> (p\<lparr>switch_writer := fold session_write msgs (switch_writer p), tester := t\<rparr>, map From_tester msgs))"

definition read_effect :: "mem \<Rightarrow> timespec \<Rightarrow> etester \<Rightarrow> tester_callback action session_out \<Rightarrow> etester \<times> etester_out list" where
  "read_effect junk now p x =
     (case x of
        Dispatched (Call cb msg) \<Rightarrow> tester_does (callback_event cb junk now msg) p
      | Dispatched On_error \<Rightarrow> (p, [])
      | Raised e \<Rightarrow> (p\<lparr>failed_out := True\<rparr>, [])
      | Null_dispatcher \<Rightarrow> (p\<lparr>failed_out := True\<rparr>, [])
      | Read_failed \<Rightarrow> (p, [])
      | Overrun \<Rightarrow> (p, []))"

definition alive :: "etester \<Rightarrow> bool" where
  "alive p \<longleftrightarrow> \<not> failed_out p \<and> \<not> halted (tester p)"

definition etester_step :: "etester \<Rightarrow> etester_event \<Rightarrow> etester \<times> etester_out list" where
  "etester_step p e =
     (if \<not> alive p then (p, [])
      else case e of
             T_read c junk now \<Rightarrow>
               (case complete onMessage (switch_session p) c of
                  (s, xs) \<Rightarrow> let (p', os) = run (read_effect junk now) (p\<lparr>switch_session := s\<rparr>) xs
                             in (p', map From_session xs @ os))
           | T_count \<Rightarrow> tester_does Ev_count p
           | T_thread env fuel \<Rightarrow> tester_does (Ev_tester env fuel) p
           | T_copy \<Rightarrow> tester_does Ev_copy p
           | T_write_start \<Rightarrow> (p\<lparr>switch_writer := start_write (switch_writer p)\<rparr>, [])
           | T_write_move i n \<Rightarrow> (p\<lparr>switch_writer := move_write i n (switch_writer p)\<rparr>, []))"

section \<open>Frames and components\<close>

lemma tester_does_frame [simp]:
  "switch_session (fst (tester_does e p)) = switch_session p" "failed_out (fst (tester_does e p)) = failed_out p"
  "tester (fst (tester_does e p)) = fst (tester_step (tester p) e)"
  "snd (tester_does e p) = map From_tester (snd (tester_step (tester p) e))"
  "written (switch_writer (fst (tester_does e p))) = written (switch_writer p) @ snd (tester_step (tester p) e)"
  by (simp_all add: tester_does_def split_beta socket.log_fold)

definition called :: "mem \<Rightarrow> timespec \<Rightarrow> tester_callback action session_out \<Rightarrow> tester_event list" where
  "called junk now x = (case x of Dispatched (Call cb msg) \<Rightarrow> [callback_event cb junk now msg] | _ \<Rightarrow> [])"

lemma read_effect_frame:
  "switch_session (fst (read_effect junk now p x)) = switch_session p"
  "tester (fst (read_effect junk now p x)) = fst (run tester_step (tester p) (called junk now x))"
  "snd (read_effect junk now p x) = map From_tester (snd (run tester_step (tester p) (called junk now x)))"
  "written (switch_writer (fst (read_effect junk now p x))) =
    written (switch_writer p) @ snd (run tester_step (tester p) (called junk now x))"
  by (simp_all add: read_effect_def called_def split_beta split: session_out.split action.split)

lemma read_effects_frame:
  "switch_session (fst (run (read_effect junk now) p xs)) = switch_session p"
  "tester (fst (run (read_effect junk now) p xs)) =
    fst (run tester_step (tester p) (concat (map (called junk now) xs)))"
  "snd (run (read_effect junk now) p xs) =
    map From_tester (snd (run tester_step (tester p) (concat (map (called junk now) xs))))"
  "written (switch_writer (fst (run (read_effect junk now) p xs))) =
    written (switch_writer p) @ snd (run tester_step (tester p) (concat (map (called junk now) xs)))"
  by (induction xs arbitrary: p) (simp_all add: split_beta run_append read_effect_frame)

fun from_session :: "etester_out \<Rightarrow> tester_callback action session_out option" where
  "from_session (From_session x) = Some x" | "from_session x = None"

fun from_tester :: "etester_out \<Rightarrow> message option" where
  "from_tester (From_tester x) = Some x" | "from_tester x = None"

lemma map_filter_from [simp]:
  "List.map_filter from_session (map From_session xs) = xs"
  "List.map_filter from_session (map From_tester ys) = []"
  "List.map_filter from_tester (map From_session xs) = []"
  "List.map_filter from_tester (map From_tester ys) = ys"
  by (simp_all add: List.map_filter_def o_def filter_True filter_False)

fun session_reads :: "etester_event \<Rightarrow> completion list" where
  "session_reads (T_read c junk now) = [c]" | "session_reads e = []"

definition tester_events :: "etester \<Rightarrow> etester_event \<Rightarrow> tester_event list" where
  "tester_events p e =
     (if \<not> alive p then []
      else case e of
             T_read c junk now \<Rightarrow> concat (map (called junk now) (snd (complete onMessage (switch_session p) c)))
           | T_count \<Rightarrow> [Ev_count]
           | T_thread env fuel \<Rightarrow> [Ev_tester env fuel]
           | T_copy \<Rightarrow> [Ev_copy]
           | _ \<Rightarrow> [])"

interpretation tester_session:
  projection etester_step "complete onMessage" switch_session "\<lambda>p e. if \<not> alive p then [] else session_reads e" from_session
proof unfold_locales
  fix p e
  show "switch_session (fst (etester_step p e)) =
      fst (run (complete onMessage) (switch_session p) (if \<not> alive p then [] else session_reads e))"
    and "List.map_filter from_session (snd (etester_step p e)) =
      snd (run (complete onMessage) (switch_session p) (if \<not> alive p then [] else session_reads e))"
    by (cases e; simp add: etester_step_def split_beta map_filter_append read_effects_frame
        List.map_filter_simps split: list.split)+
qed

interpretation tester_thread:
  projection etester_step tester_step tester tester_events from_tester
proof unfold_locales
  fix p e
  show "tester (fst (etester_step p e)) = fst (run tester_step (tester p) (tester_events p e))"
    and "List.map_filter from_tester (snd (etester_step p e)) =
      snd (run tester_step (tester p) (tester_events p e))"
    by (cases e; simp add: etester_step_def tester_events_def split_beta map_filter_append
        read_effects_frame List.map_filter_simps split: list.split)+
qed

lemma written_step_log:
  "written (switch_writer (fst (etester_step p e))) =
    written (switch_writer p) @ List.map_filter from_tester (snd (etester_step p e))"
  by (cases e)
    (simp_all add: etester_step_def split_beta map_filter_append read_effects_frame List.map_filter_simps)

section \<open>Runs\<close>

subsection \<open>A program that is alive was alive before\<close>

lemma dead_step: "\<not> alive p \<Longrightarrow> etester_step p e = (p, [])"
  by (simp add: etester_step_def)

lemma dead_run: "\<not> alive p \<Longrightarrow> fst (run etester_step p es) = p"
  by (induction es arbitrary: p) (simp_all add: fst_run_Cons dead_step del: run.simps(2))

lemma alive_before: "alive (fst (run etester_step p es)) \<Longrightarrow> alive p"
  using dead_run by metis

lemma reads_along:
  "alive (fst (run etester_step p es)) \<Longrightarrow>
   events_along etester_step (\<lambda>p e. if \<not> alive p then [] else session_reads e) p es = concat (map session_reads es)"
proof (induction es arbitrary: p)
  case (Cons e es)
  have "alive p" using Cons.prems by (rule alive_before)
  moreover have "alive (fst (run etester_step (fst (etester_step p e)) es))"
    using Cons.prems by (simp only: fst_run_Cons)
  ultimately show ?case using Cons.IH by simp
qed simp

subsection \<open>What the session hands to the tester\<close>

definition has_type :: "ofp_type \<Rightarrow> message \<Rightarrow> bool" where
  "has_type t msg \<longleftrightarrow> ucast (msg_type msg) = ofp_type_val t"

definition tester_action :: "message \<Rightarrow> tester_callback action" where
  "tester_action msg =
     (if has_type OFPT_PACKET_IN msg then Call On_packet_in msg
      else if has_type OFPT_FEATURES_REPLY msg then Call Test msg
      else if has_type OFPT_HELLO msg then Call Send_feature_request msg
      else On_error)"

lemma route_tester: "route tester_dispatcher msg = Inr (tester_action msg)"
  by (simp add: route_def callback_for_def tester_dispatcher_def tester_action_def has_type_def
      setCallBackOnMessage_def new_dispatcher_def)

definition calls :: "tester_callback \<Rightarrow> tester_callback action session_out list \<Rightarrow> nat" where
  "calls cb xs = length (filter (\<lambda>x. case x of Dispatched (Call cb' msg) \<Rightarrow> cb' = cb | _ \<Rightarrow> False) xs)"

definition requests :: "tester_event list \<Rightarrow> nat" where
  "requests es = length (filter (\<lambda>e. case e of Ev_feature_request junk msg \<Rightarrow> True | _ \<Rightarrow> False) es)"

definition no_hello :: "tester_event list \<Rightarrow> bool" where
  "no_hello es \<longleftrightarrow> list_all (\<lambda>e. case e of Ev_hello junk \<Rightarrow> False | _ \<Rightarrow> True) es"

lemma called_counts:
  "packet_ins (concat (map (called junk now) xs)) = calls On_packet_in xs"
  "requests (concat (map (called junk now) xs)) = calls Send_feature_request xs"
  "no_hello (concat (map (called junk now) xs))"
  by (induction xs)
    (auto simp: packet_ins_def requests_def no_hello_def calls_def called_def callback_event_def
      split: session_out.split action.split tester_callback.split)

lemma step_counts:
  "packet_ins (tester_events p e) = calls On_packet_in (List.map_filter from_session (snd (etester_step p e)))"
  "requests (tester_events p e) = calls Send_feature_request (List.map_filter from_session (snd (etester_step p e)))"
  "no_hello (tester_events p e)"
  by (cases e; simp add: tester_events_def etester_step_def split_beta map_filter_append read_effects_frame
      called_counts List.map_filter_simps split: list.split;
      simp add: packet_ins_def requests_def no_hello_def calls_def)+

lemma counts_append:
  "packet_ins (as @ bs) = packet_ins as + packet_ins bs" "requests (as @ bs) = requests as + requests bs"
  "no_hello (as @ bs) \<longleftrightarrow> no_hello as \<and> no_hello bs" "calls cb (xs @ ys) = calls cb xs + calls cb ys"
  by (simp_all add: packet_ins_def requests_def no_hello_def calls_def)

lemma events_counts:
  "packet_ins (events_along etester_step tester_events p es) =
     calls On_packet_in (List.map_filter from_session (snd (run etester_step p es))) \<and>
   requests (events_along etester_step tester_events p es) =
     calls Send_feature_request (List.map_filter from_session (snd (run etester_step p es))) \<and>
   no_hello (events_along etester_step tester_events p es)"
proof (induction es arbitrary: p)
  case Nil
  show ?case by (simp add: packet_ins_def requests_def no_hello_def calls_def List.map_filter_simps)
next
  case (Cons e es)
  show ?case
    using step_counts [of p e] Cons.IH [of "fst (etester_step p e)"]
    by (simp add: snd_run_Cons map_filter_append counts_append del: run.simps)
qed

lemma action_calls:
  "calls On_packet_in (map (\<lambda>msg. Dispatched (tester_action msg)) ms) = length (filter (has_type OFPT_PACKET_IN) ms)"
  "calls Send_feature_request (map (\<lambda>msg. Dispatched (tester_action msg)) ms) = length (filter (has_type OFPT_HELLO) ms)"
  by (induction ms) (auto simp: calls_def tester_action_def has_type_def)

subsection \<open>What the tester answers\<close>

lemma request_step:
  assumes "\<not> halted t" and "no_hello [e]"
  shows "length (snd (tester_step t e)) = requests [e]" and "list_all (\<lambda>m. msg_type m = 5) (snd (tester_step t e))"
  using assms
  by (cases e; simp add: requests_def no_hello_def tester_step_def send_feature_request_message)+

lemma request_count:
  "\<not> halted (fst (run tester_step t es)) \<Longrightarrow> no_hello es \<Longrightarrow>
   length (snd (run tester_step t es)) = requests es \<and> list_all (\<lambda>m. msg_type m = 5) (snd (run tester_step t es))"
proof (induction es arbitrary: t)
  case (Cons e es)
  have alive: "\<not> halted t" using Cons.prems(1) halted_run [of t "e # es"] by blast
  have later: "\<not> halted (fst (run tester_step (fst (tester_step t e)) es))"
    using Cons.prems(1) by (simp add: fst_run_Cons del: run.simps)
  have parts: "no_hello [e]" "no_hello es" "requests (e # es) = requests [e] + requests es"
    using Cons.prems(2) counts_append(2,3) [of "[e]" es] by simp_all
  show ?case
    using Cons.IH [OF later parts(2)] request_step [OF alive parts(1)] parts(3)
    by (simp add: snd_run_Cons del: run.simps)
qed (simp add: requests_def)

lemma request_messages:
  assumes "\<not> halted (fst (run tester_step t es))" and "no_hello es"
  shows "snd (run tester_step t es) =
    map (\<lambda>k. header_bytes 4 5 8 (ucast (XID t + of_nat (Suc k)))) [0..<requests es]"
proof (rule nth_equalityI)
  note req = request_count [OF assms]
  show "length (snd (run tester_step t es)) =
      length (map (\<lambda>k. header_bytes 4 5 8 (ucast (XID t + of_nat (Suc k)))) [0..<requests es])"
    using req by simp
  fix i assume i: "i < length (snd (run tester_step t es))"
  have "control_message (ucast (XID t + of_nat (Suc i))) (snd (run tester_step t es) ! i)"
    using list_all2_nthD2 [OF control_run [of t es] i] i by (simp del: of_nat_Suc)
  moreover have "msg_type (snd (run tester_step t es) ! i) = 5"
    using req i by (auto simp: list_all_length)
  ultimately show "snd (run tester_step t es) ! i =
      map (\<lambda>k. header_bytes 4 5 8 (ucast (XID t + of_nat (Suc k)))) [0..<requests es] ! i"
    using req i by (auto simp: control_message_def OFP_VERSION_def simp del: of_nat_Suc)
qed

section \<open>The protocol\<close>

lemma etester_main_eq:
  "etester_main data_junk hello_junk =
    \<lparr>switch_session = session_start (listen 9000 ''127.0.0.1''
       (set_dispatcher tester_dispatcher (new_session ''switch_session'' data_junk))),
     switch_writer = session_write (header_bytes 4 0 8 1) new_writer,
     tester = (new_tester (new_flow_gen Pcap first_counters))\<lparr>XID := 1\<rparr>, failed_out = False\<rparr>"
  by (simp add: etester_main_def send_hello_message new_tester_def)

lemma ready_tester: "ready tester_dispatcher (switch_session (etester_main data_junk hello_junk))"
  by (simp add: etester_main_eq ready_def session_start_def session_read_def listen_def set_dispatcher_def)

text \<open>The requests and the count, from what the session has dispatched.\<close>

lemma protocol_outputs:
  assumes "List.map_filter from_session (snd (run etester_step (etester_main data_junk hello_junk) es)) =
      map (\<lambda>msg. Dispatched (tester_action msg)) ms"
    and "p = fst (run etester_step (etester_main data_junk hello_junk) es)" and "alive p" and "\<not> raced (tester p)"
  shows "written (switch_writer p) = header_bytes 4 0 8 1 #
      map (\<lambda>k. header_bytes 4 5 8 (of_nat (k + 2))) [0..<length (filter (has_type OFPT_HELLO) ms)] \<and>
    received (tester p) + pending (tester p) = of_nat (length (filter (has_type OFPT_PACKET_IN) ms))"
proof -
  let ?p = "etester_main data_junk hello_junk"
  let ?outs = "snd (run etester_step ?p es)" and ?evs = "events_along etester_step tester_events ?p es"
  note evs = events_counts [of ?p es, unfolded assms(1) action_calls]
  have start: "tester ?p = (new_tester (new_flow_gen Pcap first_counters))\<lparr>XID := 1\<rparr>"
    by (simp add: etester_main_eq)
  have t: "tester p = fst (run tester_step (tester ?p) ?evs)" "tester_inv (tester ?p)" "XID (tester ?p) = 1"
    "count_ok 0 (tester ?p)"
    using tester_thread.run_proj [of ?p es] assms(2) count_ok_new
    by (simp_all add: start tester_inv_new) (simp add: count_ok_def received_def pending_def)
  have alive: "\<not> halted (fst (run tester_step (tester ?p) ?evs))"
    using assms(3) t(1) by (simp add: alive_def)
  have "ucast (1 + of_nat (Suc k) :: u64) = (of_nat (k + 2) :: u32)" for k
    using ucast_of_nat_32 [of "k + 2"] by (simp add: add.commute)
  then have "List.map_filter from_tester ?outs =
      map (\<lambda>k. header_bytes 4 5 8 (of_nat (k + 2))) [0..<length (filter (has_type OFPT_HELLO) ms)]"
    using tester_thread.run_out [of ?p es] request_messages [OF alive] evs t(3) by simp
  moreover have "written (switch_writer p) = written (switch_writer ?p) @ List.map_filter from_tester ?outs"
    unfolding assms(2)
    by (rule run_log [where I = "\<lambda>_. True" and log = "\<lambda>p. written (switch_writer p)"]) (simp_all add: written_step_log)
  moreover have "received (tester p) + pending (tester p) = of_nat (length (filter (has_type OFPT_PACKET_IN) ms))"
    using received_run [OF t(2,4) alive] assms(4) evs t(1) by simp
  ultimately show ?thesis by (simp add: etester_main_eq written_def session_write_def new_writer_def)
qed

end
