(* ===== verification/ETester_Run.thy ===== *)
theory ETester_Run imports ETester begin

text \<open>
  Whole runs of the tester program: exactly which switches bring it down, and that a switch which
  does not gets a test that runs to its end. Both follow from the number of features replies the
  tester has seen and from the steps its thread has left.
\<close>

section \<open>Features replies and the end of the program\<close>

definition tests :: "tester_event list \<Rightarrow> nat" where
  "tests es = length (filter (\<lambda>e. case e of Ev_test msg \<Rightarrow> True | _ \<Rightarrow> False) es)"

text \<open>How many features replies end the program: the second one, counted from its start.\<close>

definition tests_left :: "tester \<Rightarrow> nat" where
  "tests_left t = (if tester_t t = No_tester then 2 else 1)"

lemma tests_simps [simp]: "tests [] = 0" "tests (es @ fs) = tests es + tests fs"
  by (simp_all add: tests_def)

lemma tests_Cons: "tests (e # es) = tests [e] + tests es"
  by (simp add: tests_def)

lemma do_test_stays:
  assumes "tester_inv t"
  shows "halted (do_test env fuel t) = halted t" and "tester_t (do_test env fuel t) = No_tester \<longleftrightarrow> tester_t t = No_tester"
proof -
  have "i \<noteq> 0" if "tester_t t = In_burst i g" for i g
    using assms that by (auto simp: tester_inv_def thread_inv_def Let_def)
  then show "halted (do_test env fuel t) = halted t" "tester_t (do_test env fuel t) = No_tester \<longleftrightarrow> tester_t t = No_tester"
    by (auto simp: do_test_def group_burst_def a_burst_def Let_def split: tester_thread.split option.split)
qed

lemma test_one:
  assumes "tester_inv t" and "\<not> halted t"
  shows "halted (fst (tester_step t e)) \<longleftrightarrow> tests_left t \<le> tests [e]"
    and "\<not> halted (fst (tester_step t e)) \<Longrightarrow> tests_left t = tests_left (fst (tester_step t e)) + tests [e]"
  by (cases e; simp add: assms(2) do_test_stays [OF assms(1)] tests_def tests_left_def tester_step_def
      send_hello_message send_feature_request_message tester_onMessage_def test_def copy_frame Let_def split: if_splits)+

lemma halted_iff:
  assumes "tester_inv t" and "\<not> halted t"
  shows "halted (fst (run tester_step t es)) \<longleftrightarrow> tests_left t \<le> tests es"
    and "\<not> halted (fst (run tester_step t es)) \<Longrightarrow>
      tests_left t = tests_left (fst (run tester_step t es)) + tests es"
proof -
  have "(halted (fst (run tester_step t es)) \<longleftrightarrow> tests_left t \<le> tests es) \<and>
      (\<not> halted (fst (run tester_step t es)) \<longrightarrow>
        tests_left t = tests_left (fst (run tester_step t es)) + tests es)"
    using assms
  proof (induction es arbitrary: t)
    case Nil
    then show ?case by (simp add: tests_left_def)
  next
    case (Cons e es)
    let ?t = "fst (tester_step t e)"
    note one = test_one [OF Cons.prems, of e]
    show ?case
    proof (cases "halted ?t")
      case True
      then show ?thesis
        using one(1) halted_run [OF True, of es] by (simp add: fst_run_Cons tests_Cons [of e es] del: run.simps)
    next
      case False
      then show ?thesis
        using one Cons.IH [OF tester_inv_step [OF Cons.prems(1)] False]
        by (auto simp: fst_run_Cons tests_Cons [of e es] simp del: run.simps)
    qed
  qed
  then show "halted (fst (run tester_step t es)) \<longleftrightarrow> tests_left t \<le> tests es"
    "\<not> halted (fst (run tester_step t es)) \<Longrightarrow> tests_left t = tests_left (fst (run tester_step t es)) + tests es"
    by blast+
qed

section \<open>What the session has dispatched\<close>

lemma called_tests: "tests (concat (map (called junk now) xs)) = calls Test xs"
  by (induction xs)
    (auto simp: tests_def calls_def called_def callback_event_def
      split: session_out.split action.split tester_callback.split)

lemma tests_step:
  "tests (tester_events p e) = calls Test (List.map_filter from_session (snd (etester_step p e)))"
  by (cases e; simp add: tester_events_def etester_step_def split_beta map_filter_append read_effects_frame
      called_tests List.map_filter_simps split: list.split; simp add: tests_def calls_def)

lemma tests_along:
  "tests (events_along etester_step tester_events p es) =
    calls Test (List.map_filter from_session (snd (run etester_step p es)))"
proof (induction es arbitrary: p)
  case (Cons e es)
  then show ?case
    by (simp add: snd_run_Cons map_filter_append counts_append tests_step del: run.simps)
qed (simp add: calls_def List.map_filter_simps)

lemma calls_tests:
  "calls Test (map (\<lambda>msg. Dispatched (tester_action msg)) ms) = length (filter (has_type OFPT_FEATURES_REPLY) ms)"
  by (induction ms) (auto simp: calls_def tester_action_def has_type_def)

lemma reads_along_prefix:
  "\<exists>k. events_along etester_step (\<lambda>p e. if \<not> alive p then [] else session_reads e) p es =
    take k (concat (map session_reads es))"
proof (induction es arbitrary: p)
  case (Cons e es)
  show ?case
  proof (cases "alive p")
    case True
    obtain k where "events_along etester_step (\<lambda>p e. if \<not> alive p then [] else session_reads e)
        (fst (etester_step p e)) es = take k (concat (map session_reads es))"
      using Cons.IH by blast
    then show ?thesis
      using True by (intro exI [of _ "length (session_reads e) + k"]) simp
  next
    case False
    have "events_along etester_step (\<lambda>p e. if \<not> alive p then [] else session_reads e) p fs = []" for fs
      using False by (induction fs) (simp_all add: dead_step)
    from this [of "e # es"] show ?thesis by (metis take0)
  qed
qed simp

text \<open>What is not an exception does not end the program.\<close>

lemma effects_fine:
  "list_all fine xs \<Longrightarrow> failed_out (fst (run (read_effect junk now) p xs)) = failed_out p"
proof (induction xs arbitrary: p)
  case (Cons x xs)
  have "failed_out (fst (read_effect junk now p x)) = failed_out p"
    using Cons.prems by (simp add: read_effect_def fine_def split: session_out.splits action.split)
  with Cons show ?case by (simp add: fst_run_Cons del: run.simps)
qed simp

lemma step_fine:
  "list_all fine (List.map_filter from_session (snd (etester_step p e))) \<Longrightarrow>
    failed_out (fst (etester_step p e)) = failed_out p"
  by (cases e) (simp_all add: etester_step_def split_beta map_filter_append read_effects_frame effects_fine split: if_splits)

lemma run_fine:
  "list_all fine (List.map_filter from_session (snd (run etester_step p es))) \<Longrightarrow>
    failed_out (fst (run etester_step p es)) = failed_out p"
  by (induction es arbitrary: p) (simp_all add: fst_run_Cons snd_run_Cons map_filter_append step_fine del: run.simps(2))

text \<open>What a run dispatches: the messages whose reads completed before the program ended.\<close>

lemma dispatched_prefix:
  assumes "concat (map session_reads es) = take m (concat (map reads_of ms))" and "list_all well_framed ms"
    and "p = fst (run etester_step (etester_main data_junk hello_junk) es)"
  obtains k where "List.map_filter from_session (snd (run etester_step (etester_main data_junk hello_junk) es)) =
      map (\<lambda>msg. Dispatched (tester_action msg)) (framed k ms)" and "k \<le> m" and "alive p \<Longrightarrow> framed k ms = framed m ms"
proof -
  let ?p = "etester_main data_junk hello_junk" and ?reads = "concat (map reads_of ms)"
  let ?seen = "events_along etester_step (\<lambda>p e. if \<not> alive p then [] else session_reads e) ?p es"
  obtain n where n: "?seen = take n (take m ?reads)"
    using reads_along_prefix [of ?p es] assms(1) by auto
  define k where "k = length ?seen"
  have seen: "?seen = take k ?reads" by (simp add: k_def n min_def)
  have "List.map_filter from_session (snd (run etester_step ?p es)) =
      map (\<lambda>msg. Dispatched (tester_action msg)) (framed k ms)"
    using tester_session.run_out [of ?p es] dispatch.frame_some [OF ready_tester [of data_junk hello_junk] assms(2) route_tester, of k] seen
    by simp
  moreover have "framed k ms = framed m ms" if "alive p"
    using reads_along [of ?p es] that assms(1,3) framed_take [of m ms] by (simp add: k_def)
  moreover have "k \<le> m" by (simp add: k_def n)
  ultimately show ?thesis using that by blast
qed

text \<open>
  The run ends exactly with the second features reply, and while it lasts the tester's thread exists
  from the first on.
\<close>

lemma main_tester:
  "tester_inv (tester (etester_main data_junk hello_junk))" "\<not> halted (tester (etester_main data_junk hello_junk))"
  "tests_left (tester (etester_main data_junk hello_junk)) = 2" "\<not> failed_out (etester_main data_junk hello_junk)"
  by (simp_all add: etester_main_eq tester_inv_new tests_left_def) (simp_all add: new_tester_def)

lemma alive_some:
  assumes "concat (map session_reads es) = take m (concat (map reads_of ms))" and "list_all well_framed ms"
    and "p = fst (run etester_step (etester_main data_junk hello_junk) es)"
  shows "alive p \<longleftrightarrow> length (filter (has_type OFPT_FEATURES_REPLY) (framed m ms)) \<le> 1"
    and "alive p \<Longrightarrow> tester_t (tester p) = No_tester \<longleftrightarrow> filter (has_type OFPT_FEATURES_REPLY) (framed m ms) = []"
    and "alive p \<Longrightarrow> List.map_filter from_session (snd (run etester_step (etester_main data_junk hello_junk) es)) =
      map (\<lambda>msg. Dispatched (tester_action msg)) (framed m ms)"
proof -
  let ?p = "etester_main data_junk hello_junk" and ?n = "\<lambda>ms. length (filter (has_type OFPT_FEATURES_REPLY) ms)"
  obtain k where k: "List.map_filter from_session (snd (run etester_step ?p es)) =
      map (\<lambda>msg. Dispatched (tester_action msg)) (framed k ms)" "k \<le> m" "alive p \<Longrightarrow> framed k ms = framed m ms"
    using dispatched_prefix [OF assms] by metis
  have up: "\<not> failed_out p"
    using run_fine [of ?p es] assms(3) by (simp add: k(1) fine_def list_all_iff main_tester(4))
  have t: "tester p = fst (run tester_step (tester ?p) (events_along etester_step tester_events ?p es))"
    unfolding assms(3) by (rule tester_thread.run_proj)
  have n: "tests (events_along etester_step tester_events ?p es) = ?n (framed k ms)"
    by (simp add: tests_along k(1) calls_tests)
  have "alive p \<longleftrightarrow> ?n (framed k ms) \<le> 1"
    using halted_iff(1) [OF main_tester(1,2) [of data_junk hello_junk]] up by (auto simp: alive_def t n main_tester(3))
  moreover have "?n (framed k ms) \<le> ?n (framed m ms)"
    using framed_mono [OF k(2), of ms] by auto
  ultimately show alive: "alive p \<longleftrightarrow> ?n (framed m ms) \<le> 1" using k(3) by fastforce
  show "List.map_filter from_session (snd (run etester_step ?p es)) =
      map (\<lambda>msg. Dispatched (tester_action msg)) (framed m ms)" if "alive p"
    using k(1) k(3) [OF that] by simp
  assume p: "alive p"
  then have "\<not> halted (fst (run tester_step (tester ?p) (events_along etester_step tester_events ?p es)))"
    by (simp add: alive_def t)
  from halted_iff(2) [OF main_tester(1,2) this] have "2 = tests_left (tester p) + ?n (framed m ms)"
    by (simp add: n k(3) [OF p] main_tester(3) t)
  then show "tester_t (tester p) = No_tester \<longleftrightarrow> filter (has_type OFPT_FEATURES_REPLY) (framed m ms) = []"
    by (auto simp: tests_left_def split: if_splits)
qed

lemma alive_iff:
  assumes "concat (map session_reads es) = concat (map reads_of ms)" and "list_all well_framed ms"
    and "p = fst (run etester_step (etester_main data_junk hello_junk) es)"
  shows "alive p \<longleftrightarrow> length (filter (has_type OFPT_FEATURES_REPLY) ms) \<le> 1"
    and "alive p \<Longrightarrow> tester_t (tester p) = No_tester \<longleftrightarrow> filter (has_type OFPT_FEATURES_REPLY) ms = []"
proof -
  have "concat (map session_reads es) = take (length (concat (map reads_of ms))) (concat (map reads_of ms))"
    using assms(1) by simp
  from alive_some(1,2) [OF this assms(2,3)]
  show "alive p \<longleftrightarrow> length (filter (has_type OFPT_FEATURES_REPLY) ms) \<le> 1"
    and "alive p \<Longrightarrow> tester_t (tester p) = No_tester \<longleftrightarrow> filter (has_type OFPT_FEATURES_REPLY) ms = []"
    by (simp_all add: framed_all del: length_concat)
qed

text \<open>Until the switch has asked for a test, no access of \<open>onMessage\<close> can meet a move of the vector.\<close>

lemma unraced_program:
  assumes "tester_t (tester (fst (run etester_step (etester_main data_junk hello_junk) es))) = No_tester"
  shows "\<not> raced (tester (fst (run etester_step (etester_main data_junk hello_junk) es)))"
  using assms unfolding tester_thread.run_proj
  by (rule unraced_before_test [rotated]) (simp add: etester_main_eq)

section \<open>The steps the test has left\<close>

text \<open>
  A round of \<open>do_test\<close> is three steps of its thread. \<open>group_index\<close> counts the rounds whose sleep is
  over, so it tells with the place in the round how many of the sixty steps are still to come.
\<close>

definition test_left :: "tester \<Rightarrow> nat" where
  "test_left t =
     (let n = unat (group_index t) in
      case tester_t t of
        No_tester \<Rightarrow> 61
      | In_burst i g \<Rightarrow> 60 - 3 * n
      | In_sleep i g \<Rightarrow> 59 - 3 * n
      | In_push i g \<Rightarrow> 61 - 3 * n
      | Test_done \<Rightarrow> 0)"

definition thread_steps :: "tester_event list \<Rightarrow> nat" where
  "thread_steps es = length (filter (\<lambda>e. case e of Ev_tester env fuel \<Rightarrow> True | _ \<Rightarrow> False) es)"

text \<open>Every burst the events contain returns.\<close>

definition bursts_end :: "tester_event list \<Rightarrow> bool" where
  "bursts_end es \<longleftrightarrow> list_all (\<lambda>e. case e of Ev_tester env fuel \<Rightarrow> burst_ends last_sec env fuel | _ \<Rightarrow> True) es"

lemma thread_counts [simp]:
  "thread_steps [] = 0" "thread_steps (es @ fs) = thread_steps es + thread_steps fs"
  "bursts_end []" "bursts_end (es @ fs) \<longleftrightarrow> bursts_end es \<and> bursts_end fs"
  by (simp_all add: thread_steps_def bursts_end_def)

lemma thread_Cons:
  "thread_steps (e # es) = thread_steps [e] + thread_steps es" "bursts_end (e # es) \<longleftrightarrow> bursts_end [e] \<and> bursts_end es"
  by (simp_all add: thread_steps_def bursts_end_def)

lemma left_do_test:
  assumes "tester_inv t" and "tester_t t \<noteq> No_tester" and "burst_ends last_sec env fuel"
  shows "test_left (do_test env fuel t) = test_left t - 1"
proof (cases "tester_t t")
  case (In_burst i g)
  then have "i \<noteq> 0" "unat (group_index t) < 20"
    using assms(1) by (auto simp: tester_inv_def thread_inv_def Let_def)
  then show ?thesis
    using burst_returns [OF assms(3), of i "sent_flow g" "flow_generator t"] In_burst
    by (auto simp: do_test_def group_burst_def test_left_def)
next
  case (In_sleep i g)
  then have "unat (group_index t) < 20"
    using assms(1) by (simp add: tester_inv_def thread_inv_def Let_def)
  then show ?thesis by (simp add: do_test_def test_left_def In_sleep unat_inc)
next
  case (In_push i g)
  then have n: "unat i = 100 * unat (group_index t)" "unat (group_index t) \<le> 20"
    using assms(1) by (simp_all add: tester_inv_def thread_inv_def Let_def)
  then show ?thesis
    using next_rate(2) [OF n] n(2) by (auto simp: do_test_def test_left_def In_push Let_def)
qed (use assms(2) in \<open>simp_all add: do_test_def test_left_def\<close>)

lemma left_step:
  assumes "tester_inv t" and "tester_t t \<noteq> No_tester" and "\<not> halted (fst (tester_step t e))" and "bursts_end [e]"
  shows "test_left (fst (tester_step t e)) = test_left t - thread_steps [e]"
    and "tester_t (fst (tester_step t e)) \<noteq> No_tester"
proof -
  have up: "\<not> halted t" using assms(3) halted_step by blast
  show "tester_t (fst (tester_step t e)) \<noteq> No_tester"
    using assms(2,3) test_one(2) [OF assms(1) up assms(3)] by (auto simp: tests_left_def split: if_splits)
  show "test_left (fst (tester_step t e)) = test_left t - thread_steps [e]"
    using assms(3,4) left_do_test [OF assms(1,2)]
    by (cases e) (auto simp: up assms(2) tester_step_def send_hello_message send_feature_request_message
        tester_onMessage_def test_def thread_steps_def bursts_end_def test_left_def copy_frame Let_def)
qed

lemma left_run:
  assumes "tester_inv t" and "tester_t t \<noteq> No_tester" and "\<not> halted (fst (run tester_step t es))" and "bursts_end es"
  shows "test_left (fst (run tester_step t es)) = test_left t - thread_steps es \<and>
    tester_t (fst (run tester_step t es)) \<noteq> No_tester"
  using assms
proof (induction es arbitrary: t)
  case (Cons e es)
  let ?t = "fst (tester_step t e)"
  have later: "\<not> halted (fst (run tester_step ?t es))"
    using Cons.prems(3) by (simp add: fst_run_Cons del: run.simps)
  have up: "\<not> halted ?t" using later halted_run by blast
  have ends: "bursts_end [e]" "bursts_end es" using Cons.prems(4) thread_Cons(2) by blast+
  note one = left_step [OF Cons.prems(1,2) up ends(1)]
  show ?case
    using Cons.IH [OF tester_inv_step [OF Cons.prems(1)] one(2) later ends(2)] one(1)
    by (simp add: fst_run_Cons thread_Cons(1) [of e es] del: run.simps)
qed simp

lemma left_bound:
  assumes "tester_inv t" and "tester_t t \<noteq> No_tester"
  shows "test_left t \<le> 60"
  using assms by (cases "tester_t t") (auto simp: tester_inv_def thread_inv_def test_left_def Let_def)

lemma none_left:
  assumes "tester_inv t" and "tester_t t \<noteq> No_tester" and "test_left t = 0"
  shows "tester_t t = Test_done \<and> group_index t = 20 \<and> length (data t) = 2068"
proof -
  have "tester_t t = Test_done \<and> unat (group_index t) = 20 \<and> length (data t) = 2068"
    using assms by (cases "tester_t t") (auto simp: tester_inv_def thread_inv_def test_left_def Let_def)
  then show ?thesis by (simp add: word_unat_eq_iff)
qed

subsection \<open>In the program\<close>

fun thread_event :: "etester_event \<Rightarrow> bool" where
  "thread_event (T_thread env fuel) = True" | "thread_event e = False"

fun returns_in_time :: "etester_event \<Rightarrow> bool" where
  "returns_in_time (T_thread env fuel) = burst_ends last_sec env fuel" | "returns_in_time e = True"

lemma called_thread:
  "thread_steps (concat (map (called junk now) xs)) = 0" "bursts_end (concat (map (called junk now) xs))"
  by (induction xs)
    (auto simp: thread_steps_def bursts_end_def called_def callback_event_def
      split: session_out.split action.split tester_callback.split)

lemma thread_along:
  assumes "alive (fst (run etester_step p es))" and "list_all returns_in_time es"
  shows "thread_steps (events_along etester_step tester_events p es) = length (filter thread_event es) \<and>
    bursts_end (events_along etester_step tester_events p es)"
  using assms
proof (induction es arbitrary: p)
  case (Cons e es)
  have "alive p" using Cons.prems(1) by (rule alive_before)
  then have "thread_steps (tester_events p e) = length (filter thread_event [e]) \<and> bursts_end (tester_events p e)"
    using Cons.prems(2)
    by (cases e) (simp_all add: tester_events_def called_thread, simp_all add: thread_steps_def bursts_end_def)
  then show ?case
    using Cons.IH [of "fst (etester_step p e)"] Cons.prems by (simp add: fst_run_Cons del: run.simps)
qed simp

section \<open>Properties\<close>

text \<open>
  C6. The tester program, end to end: as long as it runs and no access of \<open>onMessage\<close> has met the one
  move of the vector, in the first \<open>push_back\<close> of the test, what it has written to the switch is one
  \<open>HELLO\<close> and then one \<open>FEATURES_REQUEST\<close> for each \<open>HELLO\<close> of the switch, numbered from 1, and its
  counters, with the packet-in that \<open>onMessage\<close> may be counting, add up to the packet-ins among the
  switch's messages, however reads, the accesses of both threads and the writes interleave. If they
  have met, a packet-in can be lost (\<open>packet_in_lost\<close> in \<open>Packet_In_Tester\<close>) or memory be used after its
  release. Before the switch has asked for a test they cannot meet (\<open>unraced_program\<close>).
\<close>

theorem etester_protocol:
  assumes "concat (map session_reads es) = concat (map reads_of ms)" and "list_all well_framed ms"
    and "p = fst (run etester_step (etester_main data_junk hello_junk) es)" and "alive p" and "\<not> raced (tester p)"
  shows "written (switch_writer p) = header_bytes 4 0 8 1 #
      map (\<lambda>k. header_bytes 4 5 8 (of_nat (k + 2))) [0..<length (filter (has_type OFPT_HELLO) ms)] \<and>
    received (tester p) + pending (tester p) = of_nat (length (filter (has_type OFPT_PACKET_IN) ms))"
proof (rule protocol_outputs)
  let ?p = "etester_main data_junk hello_junk"
  have "snd (run (complete onMessage) (switch_session ?p) (concat (map reads_of ms))) =
      map Dispatched (map tester_action ms)"
    using dispatch.frame_all [OF ready_tester [of data_junk hello_junk], of ms "map tester_action ms"] assms(2)
    by (auto simp: route_tester list_all_iff o_def)
  moreover have "events_along etester_step (\<lambda>p e. if \<not> alive p then [] else session_reads e) ?p es =
      concat (map reads_of ms)"
    using reads_along [of ?p es] assms(1,3,4) by simp
  ultimately show "List.map_filter from_session (snd (run etester_step ?p es)) =
      map (\<lambda>msg. Dispatched (tester_action msg)) ms"
    using tester_session.run_out [of ?p es] by (simp add: o_def)
qed (use assms in simp_all)

text \<open>A switch that says hello and sends a packet-in, which \<open>onMessage\<close> is still counting.\<close>

theorem etester_protocol_witness:
  "written (switch_writer (fst (run etester_step (etester_main (\<lambda>_. 0) (\<lambda>_. 0))
      [T_read (completed (header_bytes 4 0 8 9)) (\<lambda>_. 0) \<lparr>tv_sec = 7, tv_nsec = 0\<rparr>, T_write_start,
       T_read (completed (header_bytes 4 10 8 3)) (\<lambda>_. 0) \<lparr>tv_sec = 8, tv_nsec = 0\<rparr>, T_count, T_count]))) =
    [header_bytes 4 0 8 1, header_bytes 4 5 8 2] \<and>
   received (tester (fst (run etester_step (etester_main (\<lambda>_. 0) (\<lambda>_. 0))
      [T_read (completed (header_bytes 4 0 8 9)) (\<lambda>_. 0) \<lparr>tv_sec = 7, tv_nsec = 0\<rparr>, T_write_start,
       T_read (completed (header_bytes 4 10 8 3)) (\<lambda>_. 0) \<lparr>tv_sec = 8, tv_nsec = 0\<rparr>, T_count, T_count]))) +
   pending (tester (fst (run etester_step (etester_main (\<lambda>_. 0) (\<lambda>_. 0))
      [T_read (completed (header_bytes 4 0 8 9)) (\<lambda>_. 0) \<lparr>tv_sec = 7, tv_nsec = 0\<rparr>, T_write_start,
       T_read (completed (header_bytes 4 10 8 3)) (\<lambda>_. 0) \<lparr>tv_sec = 8, tv_nsec = 0\<rparr>, T_count, T_count]))) = 1"
proof -
  let ?p = "etester_main (\<lambda>_. 0) (\<lambda>_. 0)" and ?hello = "header_bytes 4 0 8 9" and ?in = "header_bytes 4 10 8 3"
  let ?es = "[T_read (completed ?hello) (\<lambda>_. 0) \<lparr>tv_sec = 7, tv_nsec = 0\<rparr>, T_write_start,
      T_read (completed ?in) (\<lambda>_. 0) \<lparr>tv_sec = 8, tv_nsec = 0\<rparr>, T_count, T_count]"
  let ?q = "fst (run etester_step ?p ?es)"
  have ms: "concat (map session_reads ?es) = concat (map reads_of [?hello, ?in])" "list_all well_framed [?hello, ?in]"
    by (simp_all add: reads_of_def well_framed_def)
  have alive: "alive ?q" using alive_iff(1) [OF ms refl] by (simp add: has_type_def del: run.simps)
  moreover have "\<not> raced (tester ?q)"
    using unraced_program alive_iff(2) [OF ms refl alive] by (simp add: has_type_def del: run.simps)
  ultimately show ?thesis
    using etester_protocol [OF ms refl, of "\<lambda>_. 0" "\<lambda>_. 0"] by (simp add: has_type_def del: run.simps)
qed

text \<open>
  C8. What brings the tester program down: fed by well-framed messages, however their reads interleave
  with the test thread and the writes, it is up at the end exactly if at most one of them was a
  features reply. No message makes a callback throw or finds the dispatcher missing. (What the program
  does after an access of \<open>onMessage\<close> to released storage is undefined; C6 says what it takes.)
\<close>

theorem etester_survives:
  assumes "concat (map session_reads es) = concat (map reads_of ms)" and "list_all well_framed ms"
  shows "alive (fst (run etester_step (etester_main data_junk hello_junk) es)) \<longleftrightarrow>
    length (filter (has_type OFPT_FEATURES_REPLY) ms) \<le> 1"
  using assms refl by (rule alive_iff(1))

text \<open>The switch answers the request twice.\<close>

theorem etester_survives_witness:
  "\<not> alive (fst (run etester_step (etester_main (\<lambda>_. 0) (\<lambda>_. 0))
      [T_read (completed (header_bytes 4 6 8 2)) (\<lambda>_. 0) \<lparr>tv_sec = 7, tv_nsec = 0\<rparr>, T_write_start,
       T_read (completed (header_bytes 4 6 8 2)) (\<lambda>_. 0) \<lparr>tv_sec = 8, tv_nsec = 0\<rparr>]))"
  using etester_survives [of "[T_read (completed (header_bytes 4 6 8 2)) (\<lambda>_. 0) \<lparr>tv_sec = 7, tv_nsec = 0\<rparr>,
      T_write_start, T_read (completed (header_bytes 4 6 8 2)) (\<lambda>_. 0) \<lparr>tv_sec = 8, tv_nsec = 0\<rparr>]"
      "[header_bytes 4 6 8 2, header_bytes 4 6 8 2]"]
  by (simp add: reads_of_def well_framed_def has_type_def del: run.simps)

text \<open>
  C9. The test completes: once the one features reply has been read, sixty steps of the test thread,
  each with a clock that lets its burst return, finish it, wherever they fall among reads and
  writes. All twenty groups have been pushed behind the 2048 the vector starts with.
\<close>

theorem etester_test_completes:
  assumes "concat (map session_reads es) = concat (map reads_of ms)"
    and "concat (map session_reads fs) = concat (map reads_of ms')"
    and "list_all well_framed (ms @ ms')"
    and "length (filter (has_type OFPT_FEATURES_REPLY) ms) = 1" and "filter (has_type OFPT_FEATURES_REPLY) ms' = []"
    and "list_all returns_in_time fs" and "60 \<le> length (filter thread_event fs)"
    and "p = fst (run etester_step (etester_main data_junk hello_junk) (es @ fs))"
  shows "alive p \<and> tester_t (tester p) = Test_done \<and> group_index (tester p) = 20 \<and> length (data (tester p)) = 2068"
proof -
  define q where "q = fst (run etester_step (etester_main data_junk hello_junk) es)"
  have p: "p = fst (run etester_step q fs)" by (simp add: assms(8) q_def run_append split_beta)
  have alive: "alive p"
    using alive_iff(1) [OF _ assms(3,8)] assms(1,2,4,5) by simp
  have started: "tester_t (tester q) \<noteq> No_tester"
    using alive_iff(2) [OF assms(1) _ q_def alive_before] alive assms(3,4) by (auto simp: p)
  let ?evs = "events_along etester_step tester_events q fs"
  have t: "tester p = fst (run tester_step (tester q) ?evs)" unfolding p by (rule tester_thread.run_proj)
  have inv: "tester_inv (tester q)"
    unfolding q_def tester_thread.run_proj by (rule run_invariant) (auto intro: main_tester tester_inv_step)
  then have inv': "tester_inv (tester p)" unfolding t by (rule run_invariant) (rule tester_inv_step)
  have evs: "thread_steps ?evs = length (filter thread_event fs)" "bursts_end ?evs"
    using thread_along [of q fs] alive assms(6) by (simp_all add: p)
  note left_bound [OF inv started]
  moreover have "test_left (tester p) = test_left (tester q) - thread_steps ?evs"
    and "tester_t (tester p) \<noteq> No_tester"
    using left_run [OF inv started _ evs(2)] alive by (simp_all add: t alive_def)
  ultimately show ?thesis
    using none_left [OF inv'] alive assms(7) evs(1) by simp
qed

theorem etester_test_completes_witness:
  "tester_t (tester (fst (run etester_step (etester_main (\<lambda>_. 0) (\<lambda>_. 0))
      ([T_read (completed (header_bytes 4 6 8 2)) (\<lambda>_. 0) \<lparr>tv_sec = 7, tv_nsec = 0\<rparr>] @
       T_write_start # replicate 60 (T_thread hasty_env 2))))) = Test_done"
proof -
  have "burst_ends last_sec hasty_env 2"
    unfolding burst_ends_def
    by (intro conjI exI [of _ 0]) (simp_all add: hasty_env_def steady_env_def normal_def ns_of_def nsec_def last_sec_def)
  then show ?thesis
    using etester_test_completes [of "[T_read (completed (header_bytes 4 6 8 2)) (\<lambda>_. 0) \<lparr>tv_sec = 7, tv_nsec = 0\<rparr>]"
        "[header_bytes 4 6 8 2]" "T_write_start # replicate 60 (T_thread hasty_env 2)" "[]", OF _ _ _ _ _ _ _ refl]
    by (simp add: reads_of_def well_framed_def has_type_def list.pred_set del: run.simps replicate.simps)
qed

end
