(* ===== verification/ETester_Net.thy ===== *)
theory ETester_Net imports ETester_Run Session_Socket begin

text \<open>
  The tester program on its TCP connection: the completions of \<open>ETester\<close> come from the socket the switch
  writes to, one for each turn of the io thread on the session. So the theorem speaks of the messages the
  switch sends and of any moment of the run, not of completed reads.
\<close>

section \<open>State and steps\<close>

record 'k tester_net =
  program :: etester
  t_sock :: 'k

text \<open>A turn of the io thread on the session's read, with what the callbacks take from outside, or another step.\<close>

datatype tester_net_event =
  Read_turn mem timespec | Count_turn | Test_turn burst_env nat | Copy_turn | Begin_write | Move_bytes nat nat

text \<open>A turn of the session; a program that has ended takes none.\<close>

fun read_turn :: "tester_net_event \<Rightarrow> bool" where
  "read_turn (Read_turn junk now) = True" | "read_turn e = False"

definition socket_answer ::
    "('k \<Rightarrow> nat \<Rightarrow> completion \<times> 'k) \<Rightarrow> 'k tester_net \<Rightarrow> completion list \<times> 'k" where
  "socket_answer recv n = answer recv (t_sock n) (switch_session (program n))"

definition tester_turn ::
    "('k \<Rightarrow> nat \<Rightarrow> completion \<times> 'k) \<Rightarrow> 'k tester_net \<Rightarrow> tester_net_event \<Rightarrow> etester_event list" where
  "tester_turn recv n e =
     (case e of
        Read_turn junk now \<Rightarrow> map (\<lambda>c. T_read c junk now) (fst (socket_answer recv n))
      | Count_turn \<Rightarrow> [T_count]
      | Test_turn env fuel \<Rightarrow> [T_thread env fuel]
      | Copy_turn \<Rightarrow> [T_copy]
      | Begin_write \<Rightarrow> [T_write_start]
      | Move_bytes i m \<Rightarrow> [T_write_move i m])"

definition tester_net_step ::
    "('k \<Rightarrow> nat \<Rightarrow> completion \<times> 'k) \<Rightarrow> 'k tester_net \<Rightarrow> tester_net_event \<Rightarrow> 'k tester_net \<times> etester_out list" where
  "tester_net_step recv n e =
     (let (p, os) = run etester_step (program n) (tester_turn recv n e)
      in (\<lparr>program = p, t_sock = if read_turn e then snd (socket_answer recv n) else t_sock n\<rparr>, os))"

abbreviation tester_trace where
  "tester_trace recv \<equiv> events_along (tester_net_step recv) (tester_turn recv)"

interpretation in_tester_net: projection "tester_net_step recv" etester_step program "tester_turn recv" Some
  by unfold_locales (simp_all add: tester_net_step_def split_beta List.map_filter_def)

lemma tester_net_parts:
  "program (fst (tester_net_step recv n e)) = fst (run etester_step (program n) (tester_turn recv n e))"
  "t_sock (fst (tester_net_step recv n e)) = (if read_turn e then snd (socket_answer recv n) else t_sock n)"
  by (simp_all add: tester_net_step_def split_beta)

section \<open>The session\<close>

lemma tester_turn_one: "length (tester_turn recv n e) \<le> 1"
  using answer_one by (cases e) (simp_all add: tester_turn_def socket_answer_def)

lemma tester_served:
  assumes "alive p" and "length es \<le> 1"
  shows "switch_session (fst (run etester_step p es)) =
    fst (run (complete onMessage) (switch_session p) (concat (map session_reads es)))"
proof -
  consider "es = []" | e where "es = [e]" using assms(2) by (cases es) auto
  then show ?thesis using tester_session.own_step [of p] by cases (simp_all add: assms(1) split_beta)
qed

lemma tester_turn_reads:
  "concat (map session_reads (tester_turn recv n e)) = (if read_turn e then fst (socket_answer recv n) else [])"
proof -
  have "concat (map session_reads (map (\<lambda>c. T_read c junk now) cs)) = cs" for junk now cs
    by (induction cs) simp_all
  then show ?thesis by (cases e) (simp_all add: tester_turn_def del: map_map)
qed

lemmas tester_turn_served = tester_served [OF _ tester_turn_one]

interpretation tester_socket: session_on_socket "tester_net_step recv" "\<lambda>n. alive (program n)" onMessage recv
  "\<lambda>n. switch_session (program n)" t_sock read_turn "\<lambda>n e. concat (map session_reads (tester_turn recv n e))"
  by unfold_locales
    (simp_all add: tester_net_parts dead_run tester_turn_served tester_turn_reads socket_answer_def)

abbreviation read_turns where "read_turns \<equiv> turns read_turn"

lemma tester_net_program:
  "program (fst (run (tester_net_step recv) n es)) = fst (run etester_step (program n) (tester_trace recv n es))"
  by (rule in_tester_net.run_proj)

text \<open>As long as the program was up before the last step, its session has read what the turns delivered.\<close>

lemma tester_net_reads:
  assumes "asio_delivers recv inbox" and "inbox k = concat ms @ rest" and "list_all well_framed ms"
    and "read_turns es \<le> length (concat (map reads_of ms))"
    and "n = \<lparr>program = etester_main data_junk hello_junk, t_sock = k\<rparr>"
    and "alive (program (fst (run (tester_net_step recv) n (butlast es))))"
  shows "concat (map session_reads (tester_trace recv n es)) = take (read_turns es) (concat (map reads_of ms))"
  unfolding trace_reads
  by (rule tester_socket.delivered [OF assms(1,6) _ _ assms(4), where rest = rest])
    (use reads_answered [OF ready_tester assms(3) route_tester] assms(2) in
      \<open>simp_all only: assms(5) tester_net.select_convs concat_map_reads_of\<close>)

text \<open>With one features reply at most, the program is up all the time.\<close>

lemma tester_net_alive:
  assumes "asio_delivers recv inbox" and "inbox k = concat ms @ rest" and "list_all well_framed ms"
    and "n = \<lparr>program = etester_main data_junk hello_junk, t_sock = k\<rparr>"
    and "length (filter (has_type OFPT_FEATURES_REPLY) ms) \<le> 1"
  shows "read_turns es \<le> length (concat (map reads_of ms)) \<Longrightarrow> alive (program (fst (run (tester_net_step recv) n es)))"
proof (induction es rule: rev_induct)
  case Nil
  show ?case using main_tester(2,4) by (simp add: assms(4) alive_def)
next
  case (snoc e es)
  have "alive (program (fst (run (tester_net_step recv) n (butlast (es @ [e])))))"
    using snoc by (simp add: turns_def)
  from tester_net_reads [OF assms(1-3) snoc.prems assms(4) this]
  have "alive (program (fst (run (tester_net_step recv) n (es @ [e])))) \<longleftrightarrow>
      length (filter (has_type OFPT_FEATURES_REPLY) (framed (read_turns (es @ [e])) ms)) \<le> 1"
    using tester_net_program [of recv n "es @ [e]"] by (intro alive_some(1) [OF _ assms(3)]) (simp_all add: assms(4))
  moreover obtain later where "ms = framed (read_turns (es @ [e])) ms @ later"
    using framed_prefix by blast
  then have "length (filter (has_type OFPT_FEATURES_REPLY) (framed (read_turns (es @ [e])) ms)) \<le> 1"
    using assms(5) by (metis add_leD1 filter_append length_append)
  ultimately show ?case by blast
qed

text \<open>At any moment it is the program of \<open>ETester\<close> on reads that deliver the messages so far.\<close>

lemma tester_net_moment:
  assumes "asio_delivers recv inbox" and "inbox k = concat ms @ rest" and "list_all well_framed ms"
    and "length (filter (has_type OFPT_FEATURES_REPLY) ms) \<le> 1"
    and "read_turns es \<le> length (concat (map reads_of ms))"
    and "n = \<lparr>program = etester_main data_junk hello_junk, t_sock = k\<rparr>"
    and "p = program (fst (run (tester_net_step recv) n es))"
  shows "alive p" and "p = fst (run etester_step (etester_main data_junk hello_junk) (tester_trace recv n es))"
    and "concat (map session_reads (tester_trace recv n es)) = take (read_turns es) (concat (map reads_of ms))"
proof -
  note always = tester_net_alive [OF assms(1-3,6,4)]
  show "p = fst (run etester_step (etester_main data_junk hello_junk) (tester_trace recv n es))"
    using tester_net_program [of recv n es] assms(6,7) by simp
  show "alive p" using always [OF assms(5)] assms(7) by simp
  have "read_turns (butlast es) \<le> read_turns es"
    by (cases es rule: rev_cases) (simp_all add: turns_def)
  then have "alive (program (fst (run (tester_net_step recv) n (butlast es))))"
    using assms(5) by (intro always) simp
  from tester_net_reads [OF assms(1-3,5,6) this]
  show "concat (map session_reads (tester_trace recv n es)) = take (read_turns es) (concat (map reads_of ms))" .
qed

lemma tester_net_unraced:
  assumes "asio_delivers recv inbox" and "inbox k = concat ms @ rest" and "list_all well_framed ms"
    and "length (filter (has_type OFPT_FEATURES_REPLY) ms) \<le> 1"
    and "read_turns es \<le> length (concat (map reads_of ms))"
    and "n = \<lparr>program = etester_main data_junk hello_junk, t_sock = k\<rparr>"
    and "p = program (fst (run (tester_net_step recv) n es))"
    and "filter (has_type OFPT_FEATURES_REPLY) (framed (read_turns es) ms) = []"
  shows "\<not> raced (tester p)"
proof -
  note now = tester_net_moment [OF assms(1-7)]
  show ?thesis
    using alive_some(2) [OF now(3) assms(3) now(2,1)] assms(8) unraced_program by (simp add: now(2))
qed

section \<open>Properties\<close>

text \<open>
  C7. The tester program on its connection: when the switch sends well-framed messages, one features reply
  among them at most, then at every moment up to which no access of \<open>onMessage\<close> has met the one move of
  the vector, the program is up, has written one \<open>HELLO\<close> and one \<open>FEATURES_REQUEST\<close> for each \<open>HELLO\<close> it
  has read so far, numbered from 1, and its counters, with the packet-in that \<open>onMessage\<close> may be
  counting, add up to the packet-ins it has read so far, however the bytes arrive and the accesses of
  the threads interleave.
\<close>

theorem tester_on_socket:
  assumes "asio_delivers recv inbox" and "inbox k = concat ms @ rest" and "list_all well_framed ms"
    and "length (filter (has_type OFPT_FEATURES_REPLY) ms) \<le> 1"
    and "read_turns es \<le> length (concat (map reads_of ms))"
    and "p = program (fst (run (tester_net_step recv) \<lparr>program = etester_main data_junk hello_junk, t_sock = k\<rparr> es))"
    and "\<not> raced (tester p)"
  shows "alive p \<and>
    written (switch_writer p) = header_bytes 4 0 8 1 # map (\<lambda>k. header_bytes 4 5 8 (of_nat (k + 2)))
      [0..<length (filter (has_type OFPT_HELLO) (framed (read_turns es) ms))] \<and>
    received (tester p) + pending (tester p) =
      of_nat (length (filter (has_type OFPT_PACKET_IN) (framed (read_turns es) ms)))"
proof -
  note now = tester_net_moment [OF assms(1-5) refl assms(6)]
  from protocol_outputs [OF alive_some(3) [OF now(3) assms(3) now(2,1)] now(2,1) assms(7)] now(1)
  show ?thesis by simp
qed

text \<open>The switch's \<open>HELLO\<close> arrives in three segments, its features reply has not been read yet.\<close>

theorem tester_on_socket_witness:
  "written (switch_writer (program (fst (run (tester_net_step segment_recv)
      \<lparr>program = etester_main (\<lambda>_. 0) (\<lambda>_. 0), t_sock = [[4], [0, 0, 8, 0], [0, 0, 9, 4, 6, 0, 8], [0, 0, 0, 2]]\<rparr>
      [Begin_write, Read_turn (\<lambda>_. 0) \<lparr>tv_sec = 7, tv_nsec = 0\<rparr>, Move_bytes 0 5])))) =
    [header_bytes 4 0 8 1, header_bytes 4 5 8 2]"
proof -
  let ?k = "[[4], [0, 0, 8, 0], [0, 0, 9, 4, 6, 0, 8], [0, 0, 0, 2 :: u8]]"
  let ?ms = "[header_bytes 4 0 8 9, header_bytes 4 6 8 2]"
  let ?es = "[Begin_write, Read_turn (\<lambda>_. 0) \<lparr>tv_sec = 7, tv_nsec = 0\<rparr>, Move_bytes 0 5]"
  let ?n = "\<lparr>program = etester_main (\<lambda>_. 0) (\<lambda>_. 0), t_sock = ?k\<rparr>"
  have k: "concat ?k = concat ?ms @ []" by (simp add: header_bytes_def be_bytes_2 be_bytes_4)
  have ms: "list_all well_framed ?ms" "length (filter (has_type OFPT_FEATURES_REPLY) ?ms) \<le> 1"
    "read_turns ?es \<le> length (concat (map reads_of ?ms))" "filter (has_type OFPT_FEATURES_REPLY) (framed (read_turns ?es) ?ms) = []"
    by (simp_all add: well_framed_def has_type_def reads_of_def)
  have "\<not> raced (tester (program (fst (run (tester_net_step segment_recv) ?n ?es))))"
    by (rule tester_net_unraced [OF segment_recv_delivers k ms(1-3) refl refl ms(4)])
  with k ms have "written (switch_writer (program (fst (run (tester_net_step segment_recv) ?n ?es)))) =
    header_bytes 4 0 8 1 # map (\<lambda>k. header_bytes 4 5 8 (of_nat (k + 2)))
      [0..<length (filter (has_type OFPT_HELLO) (framed (read_turns ?es) ?ms))]"
    by (intro tester_on_socket [OF segment_recv_delivers _ _ _ _ refl, THEN conjunct2, THEN conjunct1])
  moreover have "filter (has_type OFPT_HELLO) (framed (read_turns ?es) ?ms) = [header_bytes 4 0 8 9]"
    by (simp add: reads_of_def has_type_def)
  ultimately show ?thesis by (simp del: run.simps)
qed

end
