(* ===== verification/Startup.thy ===== *)
theory Startup imports Eproxy_Ovs ETester Log_Level begin

text \<open>
  What the programs do before their event loops run: the log level in the arguments, the records
  \<open>main\<close> logs, and the calls that can fail. \<open>std::stoi\<close> and \<open>atoi\<close> are the standard's; whether the
  connections and the capture device could be opened is a parameter.
\<close>

section \<open>Reading numbers\<close>

definition is_space :: "char \<Rightarrow> bool" where
  "is_space c \<longleftrightarrow> c \<in> set [CHR '' '', CHR 0x09, CHR 0x0A, CHR 0x0B, CHR 0x0C, CHR 0x0D]"

definition is_digit :: "char \<Rightarrow> bool" where
  "is_digit c \<longleftrightarrow> c \<in> set ''0123456789''"

definition digit_val :: "char \<Rightarrow> int" where
  "digit_val c = of_char c - 48"

fun decimal_value :: "int \<Rightarrow> string \<Rightarrow> int" where
  "decimal_value acc [] = acc"
| "decimal_value acc (c # cs) = decimal_value (10 * acc + digit_val c) cs"

text \<open>
  The number at the beginning of a string: white space, a sign, digits; what follows is left
  unread. No digit, no number.
\<close>

definition read_number :: "string \<Rightarrow> int option" where
  "read_number s =
     (let t = dropWhile is_space s;
          u = (if t \<noteq> [] \<and> hd t \<in> set ''+-'' then tl t else t);
          ds = takeWhile is_digit u
      in if ds = [] then None
         else Some (if t \<noteq> [] \<and> hd t = CHR ''-'' then - decimal_value 0 ds else decimal_value 0 ds))"

datatype stoi_error = Invalid_argument | Out_of_range

definition stoi :: "string \<Rightarrow> stoi_error + int" where
  "stoi s =
     (case read_number s of
        None \<Rightarrow> Inl Invalid_argument
      | Some v \<Rightarrow> if - (2 ^ 31) \<le> v \<and> v < 2 ^ 31 then Inr v else Inl Out_of_range)"

text \<open>\<open>atoi\<close> is \<open>strtol\<close>, which stops at the ends of \<open>long\<close>, converted to \<open>int\<close>.\<close>

definition atoi :: "string \<Rightarrow> int" where
  "atoi s =
     (case read_number s of
        None \<Rightarrow> 0
      | Some v \<Rightarrow> sint (word_of_int (max (- (2 ^ 63)) (min (2 ^ 63 - 1) v)) :: u32))"

section \<open>The programs\<close>

text \<open>A program runs its event loop, has left \<open>main\<close> or called \<open>exit\<close>, or was terminated.\<close>

datatype 'p outcome = Running 'p | Exited int | Terminated | Undefined_behaviour

text \<open>The severity in the arguments of \<open>eproxy\<close>, and the warning when it could not be read.\<close>

definition eproxy_severity :: "string list \<Rightarrow> int \<times> stoi_error option" where
  "eproxy_severity argv =
     (if 1 < length argv then
        (case stoi (argv ! 1) of Inl e \<Rightarrow> (2, Some e) | Inr severity \<Rightarrow> (severity, None))
      else (2, None))"

text \<open>
  The calls of \<open>main\<close> that can fail, in order, each with the text of its exception when it failed and
  with the record that follows when it did not. The first failure is logged and ends the program.
\<close>

fun start_up :: "log_filter \<Rightarrow> (string option \<times> string) list \<Rightarrow> log_record list \<times> bool" where
  "start_up passes [] = ([], True)"
| "start_up passes ((None, txt) # todo) =
     (let (rs, ok) = start_up passes todo in (boost_log passes Log_info txt @ rs, ok))"
| "start_up passes ((Some err, txt) # todo) = (boost_log passes Log_fatal (''Exception: '' @ err), False)"

text \<open>
  The warning about a bad argument is logged before the filter is set. An exception of \<open>connect\<close> or
  \<open>listen\<close> is caught before the monitor's thread or a session was started, and \<open>main\<close> returns 0.
  \<open>what\<close> is the text of the library's exceptions.
\<close>

definition argument_warning :: "(stoi_error \<Rightarrow> string) \<Rightarrow> string list \<Rightarrow> log_record list" where
  "argument_warning what argv =
     (case snd (eproxy_severity argv) of
        None \<Rightarrow> []
      | Some e \<Rightarrow> boost_log no_filter Log_warning (''log serverity : '' @ what e))"

definition eproxy_program ::
    "(stoi_error \<Rightarrow> string) \<Rightarrow> string option \<Rightarrow> string option \<Rightarrow> mem \<Rightarrow> mem \<Rightarrow> string list \<Rightarrow>
     log_record list \<times> eproxy outcome" where
  "eproxy_program what connecting listening s_junk c_junk argv =
     (let (rs, ok) = start_up (boost_log_init (fst (eproxy_severity argv)))
            [(connecting, ''controller session started''), (listening, ''switch session started''),
             (None, ''start io service'')]
      in (argument_warning what argv @ rs, if ok then Running (eproxy_main s_junk c_junk) else Exited 0))"

text \<open>The same with \<open>OVS_ASSIST\<close>: one more connection.\<close>

definition eproxy_ovs_program ::
    "(stoi_error \<Rightarrow> string) \<Rightarrow> string option \<Rightarrow> string option \<Rightarrow> string option \<Rightarrow> mem \<Rightarrow> mem \<Rightarrow> mem \<Rightarrow>
     string list \<Rightarrow> log_record list \<times> eproxy_ovs outcome" where
  "eproxy_ovs_program what connecting listening listening_ovs s_junk c_junk ovs_junk argv =
     (let (rs, ok) = start_up (boost_log_init (fst (eproxy_severity argv)))
            [(connecting, ''controller session started''), (listening, ''switch session started''),
             (listening_ovs, ''ovs session started''), (None, ''start io service'')]
      in (argument_warning what argv @ rs,
          if ok then Running (eproxy_ovs_main s_junk c_junk ovs_junk) else Exited 0))"

text \<open>
  The tester needs a device, or it prints its usage and returns 1; when the device cannot be opened
  the constructor of \<open>FlowGen\<close> exits with 1. The severity is \<open>argv[2]\<close>, and it is read when \<open>argc\<close>, which
  counts the program's own name, is more than three. \<open>main\<close> catches nothing: when \<open>listen\<close> throws, the
  program is terminated.
\<close>

definition tester_filter :: "string list \<Rightarrow> log_filter" where
  "tester_filter argv = (if 3 < length argv then boost_log_init (atoi (argv ! 2)) else no_filter)"

definition open_device :: "log_filter \<Rightarrow> bool \<Rightarrow> log_record list \<times> 'p outcome \<Rightarrow> log_record list \<times> 'p outcome" where
  "open_device passes opened rest =
     (if \<not> opened then (boost_log passes Log_fatal ''open device failed'', Exited 1) else rest)"

definition tester_program ::
    "bool \<Rightarrow> string option \<Rightarrow> mem \<Rightarrow> mem \<Rightarrow> string list \<Rightarrow> log_record list \<times> etester outcome" where
  "tester_program opened listening data_junk hello_junk argv =
     (if length argv < 2 then ([], Exited 1)
      else let passes = tester_filter argv; logs = boost_log passes Log_info in
        open_device passes opened
          (case listening of
             Some err \<Rightarrow> (logs ''waiting Openflow switch connection...'', Terminated)
           | None \<Rightarrow>
               (logs ''waiting Openflow switch connection...'' @ logs ''switch connected'' @
                  logs ''start io service'',
                Running (etester_main data_junk hello_junk))))"

lemma start_up_ok: "snd (start_up passes todo) \<longleftrightarrow> list_all (\<lambda>(failure, txt). failure = None) todo"
  by (induction passes todo rule: start_up.induct) (auto simp: split_beta)

lemma start_up_fails:
  "\<not> snd (start_up passes todo) \<Longrightarrow> passes Log_fatal \<Longrightarrow>
   \<exists>rs err. fst (start_up passes todo) = rs @ [Record Log_fatal (''Exception: '' @ err)]"
  by (induction passes todo rule: start_up.induct) (auto simp: split_beta boost_log_def)

lemma start_up_silent: "5 < s \<Longrightarrow> fst (start_up (boost_log_init s) todo) = []"
  by (induction "boost_log_init s" todo rule: start_up.induct) (simp_all add: split_beta boost_log_def filter_extremes)

lemma started_main: "worker (monitor (eproxy_main s_junk c_junk)) = At_while"
  by (simp add: eproxy_main_def start_def set_follow_action_def set_trigger_action_def new_monitor_def)

section \<open>Printing numbers\<close>

definition digit :: "nat \<Rightarrow> char" where
  "digit d = ''0123456789'' ! d"

fun print_nat :: "nat \<Rightarrow> string" where
  "print_nat n = (if n < 10 then [digit n] else print_nat (n div 10) @ [digit (n mod 10)])"

declare print_nat.simps [simp del]

definition print_int :: "int \<Rightarrow> string" where
  "print_int n = (if n < 0 then CHR ''-'' # print_nat (nat (- n)) else print_nat (nat n))"

lemma digit_table:
  "list_all (\<lambda>d. is_digit (digit d) \<and> digit_val (digit d) = int d \<and> digit d \<notin> set ''+-'' \<and> \<not> is_space (digit d))
     [0, 1, 2, 3, 4, 5, 6, 7, 8, 9]"
  by code_simp

lemma digit_facts:
  assumes "d < 10"
  shows "is_digit (digit d)" and "digit_val (digit d) = int d" and "digit d \<notin> set ''+-''" and "\<not> is_space (digit d)"
proof -
  have "d \<in> set [0, 1, 2, 3, 4, 5, 6, 7, 8, 9]" using assms by auto
  then show "is_digit (digit d)" "digit_val (digit d) = int d" "digit d \<notin> set ''+-''" "\<not> is_space (digit d)"
    using digit_table [unfolded list_all_iff] by blast+
qed

lemma decimal_value_append: "decimal_value acc (cs @ [c]) = 10 * decimal_value acc cs + digit_val c"
  by (induction acc cs rule: decimal_value.induct) simp_all

lemma print_nat_facts:
  "decimal_value 0 (print_nat n) = int n \<and> list_all is_digit (print_nat n) \<and> print_nat n \<noteq> [] \<and>
   hd (print_nat n) \<notin> set ''+-'' \<and> \<not> is_space (hd (print_nat n))"
proof (induction n rule: print_nat.induct)
  case (1 n)
  show ?case
  proof (cases "n < 10")
    case True
    then show ?thesis using digit_facts [OF True] by (simp add: print_nat.simps [of n])
  next
    case False
    then have "n = 10 * (n div 10) + n mod 10" by simp
    then have "int n = 10 * int (n div 10) + int (n mod 10)" by (metis of_nat_add of_nat_mult of_nat_numeral)
    with False show ?thesis
      using 1 digit_facts [of "n mod 10"] by (simp add: print_nat.simps [of n] decimal_value_append)
  qed
qed

lemma read_print_nat: "read_number (print_nat n) = Some (int n)"
  using print_nat_facts [of n]
  by (cases "print_nat n") (auto simp: read_number_def list_all_iff takeWhile_eq_all_conv [THEN iffD2])

lemma read_print_int: "read_number (print_int n) = Some n"
proof (cases "n < 0")
  case True
  then show ?thesis
    using print_nat_facts [of "nat (- n)"]
    by (simp add: print_int_def read_number_def is_space_def list_all_iff takeWhile_eq_all_conv [THEN iffD2])
next
  case False
  then show ?thesis by (simp add: print_int_def read_print_nat)
qed

section \<open>Properties\<close>

text \<open>
  C38. The log level of the command line. \<open>eproxy\<close> reads back every number an \<open>int\<close> can hold and keeps
  its default 2 for all others. The tester reads the same argument with \<open>atoi\<close>, which wraps, but only
  when one more argument follows it: with the device and the level alone the level is ignored.
\<close>

theorem severity_roundtrip:
  "eproxy_severity (prog # print_int n # args) =
     (if - (2 ^ 31) \<le> n \<and> n < 2 ^ 31 then (n, None) else (2, Some Out_of_range)) \<and>
   tester_filter (prog # device # print_int n # arg # args) =
     boost_log_init (sint (word_of_int (max (- (2 ^ 63)) (min (2 ^ 63 - 1) n)) :: u32)) \<and>
   tester_filter [prog, device, print_int n] = no_filter"
  by (simp add: eproxy_severity_def tester_filter_def stoi_def atoi_def read_print_int)

text \<open>
  C39. A proxy that was started either runs, wired as it should be, waiting for a header on both sides
  and with the monitor's thread started, or it ends with status 0, also when a connection failed: the
  only trace of the failure is a fatal record, the last one printed at a level of at most 5; above
  it, a proxy that fails prints nothing and reports success.
\<close>

theorem startup_failure_reported:
  "case eproxy_program what connecting listening s_junk c_junk (prog # args) of
     (rs, Running p) \<Rightarrow>
       connecting = None \<and> listening = None \<and> wired p \<and> worker (monitor p) = At_while \<and>
       ready dispatcher_from_switch (s_session p) \<and> ready dispatcher_from_controller (c_session p)
   | (rs, Exited status) \<Rightarrow>
       status = 0 \<and> (connecting \<noteq> None \<or> listening \<noteq> None) \<and>
       (if fst (eproxy_severity (prog # args)) \<le> 5
        then \<exists>rs' err. rs = rs' @ [Record Log_fatal (''Exception: '' @ err)]
        else rs = [])
   | (rs, Terminated) \<Rightarrow> False"
proof -
  let ?argv = "prog # args"
  let ?passes = "boost_log_init (fst (eproxy_severity ?argv))"
  let ?calls = "[(connecting, ''controller session started''), (listening, ''switch session started''),
    (None, ''start io service'')]"
  show ?thesis
  proof (cases "snd (start_up ?passes ?calls)")
    case True
    then show ?thesis
      by (simp add: eproxy_program_def split_beta start_up_ok wired_main ready_main started_main)
  next
    case False
    then have ended: "eproxy_program what connecting listening s_junk c_junk ?argv =
        (argument_warning what ?argv @ fst (start_up ?passes ?calls), Exited 0)"
      by (simp add: eproxy_program_def split_beta del: start_up.simps)
    have failed: "connecting \<noteq> None \<or> listening \<noteq> None" using False by (simp add: start_up_ok)
    show ?thesis
    proof (cases "fst (eproxy_severity ?argv) \<le> 5")
      case True
      then obtain rs err where "fst (start_up ?passes ?calls) = rs @ [Record Log_fatal (''Exception: '' @ err)]"
        using start_up_fails [OF False] by (auto simp: boost_log_init_def)
      then show ?thesis using ended failed True by (simp add: append_assoc [symmetric] del: append_assoc)
    next
      case above: False
      then have "argument_warning what ?argv = []"
        by (auto simp: argument_warning_def eproxy_severity_def split: sum.splits if_splits)
      then show ?thesis using ended failed above start_up_silent [of "fst (eproxy_severity ?argv)"] by simp
    qed
  qed
qed

text \<open>The port of the switch is in use; the log level is the default.\<close>

theorem startup_failure_reported_witness:
  "\<exists>rs err. fst (eproxy_program (\<lambda>_. ''stoi'') None (Some ''bind: Address already in use'') (\<lambda>_. 0) (\<lambda>_. 1)
      [''eproxy'']) = rs @ [Record Log_fatal (''Exception: '' @ err)]"
proof -
  let ?r = "eproxy_program (\<lambda>_. ''stoi'') None (Some ''bind: Address already in use'') (\<lambda>_. 0) (\<lambda>_. 1) [''eproxy'']"
  have "snd ?r = Exited 0" by (simp add: eproxy_program_def split_beta start_up_ok del: start_up.simps)
  moreover have "fst (eproxy_severity [''eproxy'']) \<le> 5" by (simp add: eproxy_severity_def)
  ultimately show ?thesis
    using startup_failure_reported [where what = "\<lambda>_. ''stoi''" and connecting = None and
        listening = "Some ''bind: Address already in use''" and s_junk = "\<lambda>_. 0" and c_junk = "\<lambda>_. 1" and
        prog = "''eproxy''" and args = "[]"]
    by (cases ?r) simp
qed

end
