(* ===== verification/Shutdown.thy ===== *)
theory Shutdown imports ETester_Run Startup Eproxy_Stream begin

text \<open>
  The end of both \<open>main\<close> functions, for the proxy in both its builds. \<open>io_service.run()\<close> returns when no operation is outstanding: the
  sessions have stopped reading and every write has ended. \<open>main\<close> then returns, and the objects on its
  stack are destroyed, whatever the second thread is doing.
\<close>

section \<open>The ends\<close>

text \<open>
  No operation of the io service is outstanding. A write ends when all its bytes are transferred or with
  an error, which \<open>handle_write\<close> only logs; \<open>failed\<close> are the numbers of the writes that ended so.
\<close>

definition settled :: "nat list \<Rightarrow> writer \<Rightarrow> bool" where
  "settled failed w \<longleftrightarrow> w_posted w = [] \<and>
     list_all (\<lambda>i. i \<in> set failed \<or> snd (w_ops w ! i) = length (fst (w_ops w ! i))) [0..<length (w_ops w)]"

text \<open>Without failures these are the writers with no work left.\<close>

lemma settled_work: "settled [] w \<longleftrightarrow> work_left w = 0"
  by (auto simp: settled_def work_left_def unfinished_def list_all_iff filter_empty_conv all_set_conv_all_nth split_beta)

text \<open>
  The proxy with writes that fail: besides its own events, the started write \<open>i\<close> of a session may end
  with an error. Nothing else happens then.
\<close>

type_synonym failures = "endpoint \<Rightarrow> nat list"

datatype 'e life_event = Does 'e | Write_error endpoint nat

definition failing_step ::
    "('p \<Rightarrow> 'e \<Rightarrow> 'p \<times> 'o list) \<Rightarrow> (endpoint \<Rightarrow> 'p \<Rightarrow> writer) \<Rightarrow> 'p \<times> failures \<Rightarrow> 'e life_event \<Rightarrow>
     ('p \<times> failures) \<times> 'o list" where
  "failing_step step wr q e =
     (case q of (p, failed) \<Rightarrow>
        case e of
          Does e' \<Rightarrow> (case step p e' of (p', xs) \<Rightarrow> ((p', failed), xs))
        | Write_error d i \<Rightarrow>
            ((p, if i < length (w_ops (wr d p)) then failed(d := i # failed d) else failed), []))"

definition eproxy_idle :: "failures \<Rightarrow> eproxy \<Rightarrow> bool" where
  "eproxy_idle failed p \<longleftrightarrow> sess_read (s_session p) = None \<and> sess_read (c_session p) = None \<and>
     settled (failed S_session) (s_writer p) \<and> settled (failed C_session) (c_writer p)"

text \<open>
  What the end of a handler finds. An exception out of \<open>run()\<close> is caught, and \<open>main\<close> returns 0 as
  well; one in the worker terminates; \<open>run()\<close> returns when nothing is outstanding.
\<close>

definition eproxy_status :: "eproxy \<times> failures \<Rightarrow> (eproxy \<times> failures) outcome" where
  "eproxy_status q =
     (case q of (p, failed) \<Rightarrow>
        if worker (monitor p) = Aborted then Terminated
        else if stopped p \<or> eproxy_idle failed p then Exited 0 else Running q)"

definition eproxy_overrun :: "eproxy_out \<Rightarrow> bool" where
  "eproxy_overrun x \<longleftrightarrow> x \<in> {From_switch Overrun, From_controller Overrun}"

text \<open>With \<open>OVS_ASSIST\<close> a third session reads; nothing is ever written to it.\<close>

definition eproxy_ovs_idle :: "failures \<Rightarrow> eproxy_ovs \<Rightarrow> bool" where
  "eproxy_ovs_idle failed p \<longleftrightarrow> eproxy_idle failed (base p) \<and> sess_read (ovs_session p) = None"

definition eproxy_ovs_status :: "eproxy_ovs \<times> failures \<Rightarrow> (eproxy_ovs \<times> failures) outcome" where
  "eproxy_ovs_status q =
     (case q of (p, failed) \<Rightarrow>
        if worker (monitor (base p)) = Aborted then Terminated
        else if stopped (base p) \<or> eproxy_ovs_idle failed p then Exited 0 else Running q)"

definition eproxy_ovs_overrun :: "ovs_out \<Rightarrow> bool" where
  "eproxy_ovs_overrun x \<longleftrightarrow>
     x \<in> {Base_out (From_switch Overrun), Base_out (From_controller Overrun), From_ovs Overrun}"

text \<open>
  The life of a program from its start. An event after its end happens to nobody: whatever the
  other thread was about to do, \<open>main\<close> has returned, and the outcome stays what it is. A read past
  the end of \<open>data_\<close> leaves the behaviour undefined.
\<close>

definition life_step ::
    "('q \<Rightarrow> 'e \<Rightarrow> 'q \<times> 'o list) \<Rightarrow> ('o \<Rightarrow> bool) \<Rightarrow> ('q \<Rightarrow> 'q outcome) \<Rightarrow> 'q outcome \<Rightarrow> 'e \<Rightarrow> 'q outcome" where
  "life_step step over status out e =
     (case out of
        Running q \<Rightarrow>
          (case step q e of (q', xs) \<Rightarrow> if list_ex over xs then Undefined_behaviour else status q')
      | _ \<Rightarrow> out)"

definition eproxy_life ::
    "mem \<Rightarrow> mem \<Rightarrow> eproxy_event life_event list \<Rightarrow> (eproxy \<times> failures) \<times> eproxy_out list" where
  "eproxy_life s_junk c_junk es =
     run (failing_step eproxy_step writer_of) (eproxy_main s_junk c_junk, \<lambda>_. []) es"

definition eproxy_end :: "mem \<Rightarrow> mem \<Rightarrow> eproxy_event life_event list \<Rightarrow> (eproxy \<times> failures) outcome" where
  "eproxy_end s_junk c_junk es =
     foldl (life_step (failing_step eproxy_step writer_of) eproxy_overrun eproxy_status)
       (Running (eproxy_main s_junk c_junk, \<lambda>_. [])) es"

definition eproxy_ovs_life ::
    "mem \<Rightarrow> mem \<Rightarrow> mem \<Rightarrow> ovs_event life_event list \<Rightarrow> (eproxy_ovs \<times> failures) \<times> ovs_out list" where
  "eproxy_ovs_life s_junk c_junk ovs_junk es =
     run (failing_step ovs_step (\<lambda>d p. writer_of d (base p))) (eproxy_ovs_main s_junk c_junk ovs_junk, \<lambda>_. []) es"

definition eproxy_ovs_end ::
    "mem \<Rightarrow> mem \<Rightarrow> mem \<Rightarrow> ovs_event life_event list \<Rightarrow> (eproxy_ovs \<times> failures) outcome" where
  "eproxy_ovs_end s_junk c_junk ovs_junk es =
     foldl (life_step (failing_step ovs_step (\<lambda>d p. writer_of d (base p))) eproxy_ovs_overrun eproxy_ovs_status)
       (Running (eproxy_ovs_main s_junk c_junk ovs_junk, \<lambda>_. [])) es"

definition etester_idle :: "nat list \<Rightarrow> etester \<Rightarrow> bool" where
  "etester_idle failed p \<longleftrightarrow> sess_read (switch_session p) = None \<and> settled failed (switch_writer p)"

text \<open>
  In \<open>eTester\<close> nothing catches an exception, and the end of \<open>main\<close> destroys \<open>tester\<close> with its \<open>tester_t\<close>: a
  \<open>std::thread\<close> that nothing has joined, ended or not, terminates the program.
\<close>

definition etester_end :: "nat list \<Rightarrow> etester \<Rightarrow> etester outcome" where
  "etester_end failed p =
     (if \<not> alive p then Terminated
      else if etester_idle failed p then (if tester_t (tester p) = No_tester then Exited 0 else Terminated)
      else Running p)"

subsection \<open>The life of a program\<close>

lemma life_step_simps [simp]:
  "life_step step over status (Running q) e =
    (if list_ex over (snd (step q e)) then Undefined_behaviour else status (fst (step q e)))"
  "life_step step over status (Exited n) e = Exited n"
  "life_step step over status Undefined_behaviour e = Undefined_behaviour"
  by (simp_all add: life_step_def split_beta)

text \<open>
  What the two builds share: a run whose end is decided by lost connections, and which reads no more
  once they are lost.
\<close>

locale lifecycle =
  fixes step :: "'q \<Rightarrow> 'e \<Rightarrow> 'q \<times> 'o list" and over :: "'o \<Rightarrow> bool" and status :: "'q \<Rightarrow> 'q outcome"
    and start :: 'q and lost :: "'o list \<Rightarrow> bool" and ended :: "'q \<Rightarrow> bool"
  assumes not_lost: "\<not> lost []"
    and lost_mono: "lost xs \<Longrightarrow> lost (xs @ ys)"
    and lost_quiet: "lost (snd (run step start es)) \<Longrightarrow> \<not> list_ex over (snd (step (fst (run step start es)) e))"
    and status_run: "status (fst (run step start es)) =
      (if lost (snd (run step start es)) \<and> ended (fst (run step start es)) then Exited 0
       else Running (fst (run step start es)))"
begin

lemma outcome_cases:
  "foldl (life_step step over status) (Running start) es =
    (if list_ex over (snd (run step start es)) then Undefined_behaviour
     else if \<exists>n. lost (snd (run step start (take n es))) \<and> ended (fst (run step start (take n es))) then Exited 0
     else Running (fst (run step start es)))"
proof -
  define at where "at es \<longleftrightarrow> lost (snd (run step start es)) \<and> ended (fst (run step start es))" for es
  have "foldl (life_step step over status) (Running start) es =
      (if list_ex over (snd (run step start es)) then Undefined_behaviour
       else if \<exists>n. at (take n es) then Exited 0 else Running (fst (run step start es)))"
  proof (induction es rule: rev_induct)
    case Nil
    then show ?case by (simp add: at_def not_lost)
  next
    case (snoc e es)
    have split: "fst (run step start (es @ [e])) = fst (step (fst (run step start es)) e)"
      "snd (run step start (es @ [e])) = snd (run step start es) @ snd (step (fst (run step start es)) e)"
      by (simp_all add: run_append split_beta)
    have quiet: "\<not> list_ex over (snd (step (fst (run step start es)) e))" if "at (take n es)" for n
    proof (rule lost_quiet)
      have "run step start es = run step start (take n es @ drop n es)" by simp
      then have "snd (run step start es) = snd (run step start (take n es)) @
          snd (run step (fst (run step start (take n es))) (drop n es))"
        by (simp only: run_append split_beta snd_conv Let_def)
      then show "lost (snd (run step start es))" using that lost_mono by (simp add: at_def)
    qed
    show ?case
    proof (cases "\<exists>n. at (take n es)")
      case True
      with quiet have "\<not> list_ex over (snd (step (fst (run step start es)) e))" by blast
      with True show ?thesis unfolding take_snoc_ex split(2) by (simp add: snoc.IH)
    next
      case False
      have "status (fst (step (fst (run step start es)) e)) =
          (if at (es @ [e]) then Exited 0 else Running (fst (run step start (es @ [e]))))"
        unfolding split(1) [symmetric] at_def by (rule status_run)
      with False show ?thesis unfolding take_snoc_ex split(2) by (simp add: snoc.IH)
    qed
  qed
  then show ?thesis by (simp only: at_def)
qed

end

text \<open>Writes that fail change nothing else in the program.\<close>

primrec does :: "'e life_event \<Rightarrow> 'e list" where
  "does (Does e) = [e]"
| "does (Write_error d i) = []"

interpretation failing: projection "failing_step step wr" step fst "\<lambda>q e. does e" Some
proof unfold_locales
  fix q :: "'a \<times> failures" and e :: "'b life_event"
  show "fst (fst (failing_step step wr q e)) = fst (run step (fst q) (does e))"
    and "List.map_filter Some (snd (failing_step step wr q e)) = snd (run step (fst q) (does e))"
    by (cases e; simp add: failing_step_def split_beta List.map_filter_simps map_filter_Some)+
qed

lemma failing_run:
  "fst (fst (run (failing_step step wr) (p, failed) es)) = fst (run step p (concat (map does es)))"
  "snd (run (failing_step step wr) (p, failed) es) = snd (run step p (concat (map does es)))"
proof -
  have along: "events_along (failing_step step wr) (\<lambda>q. does) q es = concat (map does es)" for q
    by (rule events_along_const [where I = "\<lambda>_. True"]) simp_all
  show "fst (fst (run (failing_step step wr) (p, failed) es)) = fst (run step p (concat (map does es)))"
    using failing.run_proj [of step wr "(p, failed)" es] by (simp add: along)
  show "snd (run (failing_step step wr) (p, failed) es) = snd (run step p (concat (map does es)))"
    using failing.run_out [of step wr "(p, failed)" es] by (simp add: along map_filter_Some)
qed

section \<open>The proxy\<close>

text \<open>The worker runs as long as nobody calls \<open>stop\<close>, and nothing in the proxy does.\<close>

definition worker_runs :: "eproxy \<Rightarrow> bool" where
  "worker_runs p \<longleftrightarrow> is_running (monitor p) \<and> worker (monitor p) \<notin> {Not_started, Finished, Aborted}"

lemma worker_runs_step:
  assumes "wired p" and "worker_runs p"
  shows "worker_runs (fst (eproxy_step p e))"
proof -
  have "is_running (fst (monitor_step (monitor p) e)) \<and>
      worker (fst (monitor_step (monitor p) e)) \<notin> {Not_started, Finished, Aborted}"
    if "e = Ev_worker \<or> (\<exists>msg. e = Ev_message msg)" for e
    using that assms by (cases "worker (monitor p)") (auto simp: worker_runs_def wired_def monitor_defs split: if_splits)
  then show ?thesis
    using assms
    by (cases rule: eproxy_step_cases [OF assms(1), of e]) (auto simp: worker_runs_def)
qed

lemma worker_runs_run:
  "wired p \<Longrightarrow> worker_runs p \<Longrightarrow> worker_runs (fst (run eproxy_step p es))"
  using run_invariant [where I = "\<lambda>p. wired p \<and> worker_runs p" and step = eproxy_step and s = p and es = es]
    wired_step worker_runs_step by blast

lemma proxy_dispatch:
  assumes "wired p"
  shows "total_dispatch onMessage (s_session p)" and "total_dispatch onMessage (c_session p)"
  using assms onMessage_switch onMessage_controller by (fastforce simp: total_dispatch_def wired_def)+

lemma proxy_reading:
  assumes "wired p" and "sess_read (s_session p) \<noteq> None" and "sess_read (c_session p) \<noteq> None"
  shows "sess_read (s_session (fst (run eproxy_step p es))) = None \<longleftrightarrow>
      Read_failed \<in> set (List.map_filter from_switch (snd (run eproxy_step p es)))"
    and "sess_read (c_session (fst (run eproxy_step p es))) = None \<longleftrightarrow>
      Read_failed \<in> set (List.map_filter from_controller (snd (run eproxy_step p es)))"
  using run_total(2) [OF proxy_dispatch(1)] run_total(2) [OF proxy_dispatch(2)] assms
  by (simp_all add: switch_reader.run_proj switch_reader.run_out controller_reader.run_proj controller_reader.run_out)

subsection \<open>The build with \<open>OVS_ASSIST\<close>\<close>

lemma main_reading:
  "sess_read (s_session (eproxy_main s_junk c_junk)) \<noteq> None" "sess_read (c_session (eproxy_main s_junk c_junk)) \<noteq> None"
  using ready_main [of s_junk c_junk] by (auto simp: ready_def)

lemma worker_runs_main: "worker_runs (fst (run eproxy_step (eproxy_main s_junk c_junk) es))"
  by (rule worker_runs_run [OF wired_main])
    (simp add: worker_runs_def eproxy_main_def monitor_defs set_follow_action_def set_trigger_action_def)

lemma ovs_reading:
  "sess_read (ovs_session (fst (run ovs_step (eproxy_ovs_main s_junk c_junk ovs_junk) es))) = None \<longleftrightarrow>
    Read_failed \<in> set (List.map_filter from_ovs (snd (run ovs_step (eproxy_ovs_main s_junk c_junk ovs_junk) es)))"
proof -
  let ?s = "ovs_session (eproxy_ovs_main s_junk c_junk ovs_junk)"
  have "total_dispatch onMessage ?s" "sess_read ?s \<noteq> None"
    using wired_ovs_main [of s_junk c_junk ovs_junk] onMessage_ovs
    by (fastforce simp: total_dispatch_def wired_ovs_def, simp add: eproxy_ovs_main_def session_start_def session_read_def)
  from run_total(2) [OF this] show ?thesis unfolding ovs_reader.run_proj ovs_reader.run_out .
qed

text \<open>The base of the assisted proxy is, but for the controller's writer, the plain proxy on its own events.\<close>

lemma ovs_base:
  fixes s_junk c_junk ovs_junk es
  defines "p \<equiv> base (fst (run ovs_step (eproxy_ovs_main s_junk c_junk ovs_junk) es))"
    and "q \<equiv> fst (run eproxy_step (eproxy_main s_junk c_junk) (concat (map base_events es)))"
  shows "s_session p = s_session q" "c_session p = c_session q" "monitor p = monitor q" "stopped p = stopped q"
    and "List.map_filter base_out (snd (run ovs_step (eproxy_ovs_main s_junk c_junk ovs_junk) es)) =
      snd (run eproxy_step (eproxy_main s_junk c_junk) (concat (map base_events es)))"
  using agree_run [OF wired_ovs_main, of s_junk c_junk ovs_junk "eproxy_main s_junk c_junk" es]
  by (simp_all add: eproxy_ovs_main_def agree_def p_def q_def)

subsection \<open>Both lives\<close>

text \<open>The body read of both sessions has failed; all writes have ended.\<close>

definition both_lost :: "eproxy_out list \<Rightarrow> bool" where
  "both_lost xs \<longleftrightarrow> Read_failed \<in> set (List.map_filter from_switch xs) \<and>
     Read_failed \<in> set (List.map_filter from_controller xs)"

definition writes_ended :: "eproxy \<times> failures \<Rightarrow> bool" where
  "writes_ended q \<longleftrightarrow> settled (snd q S_session) (s_writer (fst q)) \<and> settled (snd q C_session) (c_writer (fst q))"

definition all_lost :: "ovs_out list \<Rightarrow> bool" where
  "all_lost xs \<longleftrightarrow> both_lost (List.map_filter base_out xs) \<and> Read_failed \<in> set (List.map_filter from_ovs xs)"

definition ovs_writes_ended :: "eproxy_ovs \<times> failures \<Rightarrow> bool" where
  "ovs_writes_ended q \<longleftrightarrow> writes_ended (base (fst q), snd q)"

text \<open>A proxy whose sessions read no more overruns nothing.\<close>

lemma not_reading_quiet:
  assumes "wired p" and "sess_read (s_session p) = None" and "sess_read (c_session p) = None"
  shows "\<not> list_ex eproxy_overrun (snd (eproxy_step p e))"
proof -
  have "List.map_filter from_switch (snd (eproxy_step p e)) = []" "List.map_filter from_controller (snd (eproxy_step p e)) = []"
    using assms by (cases e; simp add: switch_reader.own_out controller_reader.own_out complete_lost)+
  then show ?thesis by (auto simp: eproxy_overrun_def list_ex_iff map_filter_empty)
qed

lemma not_reading_quiet_ovs:
  assumes "wired_ovs p" and "sess_read (s_session (base p)) = None" and "sess_read (c_session (base p)) = None"
    and "sess_read (ovs_session p) = None"
  shows "\<not> list_ex eproxy_ovs_overrun (snd (ovs_step p e))"
proof (cases e)
  case (Base e')
  then show ?thesis
    using not_reading_quiet [of "base p" e'] assms
    by (auto simp: ovs_step_def wired_ovs_def split_beta eproxy_ovs_overrun_def eproxy_overrun_def list_ex_iff)
next
  case (Ovs_read c)
  then show ?thesis using assms by (simp add: ovs_step_def complete_lost split_beta)
qed

lemma life_worker: "worker_runs (fst (fst (eproxy_life s_junk c_junk es)))"
  by (simp add: eproxy_life_def failing_run worker_runs_main)

lemma ovs_life_worker: "worker_runs (base (fst (fst (eproxy_ovs_life s_junk c_junk ovs_junk es))))"
  using worker_runs_main by (simp add: eproxy_ovs_life_def failing_run worker_runs_def ovs_base)

interpretation plain_life: lifecycle "failing_step eproxy_step writer_of" eproxy_overrun eproxy_status
  "(eproxy_main s_junk c_junk, \<lambda>_. [])" both_lost writes_ended
proof unfold_locales
  fix xs ys :: "eproxy_out list" and es :: "eproxy_event life_event list" and e :: "eproxy_event life_event"
  let ?q = "run (failing_step eproxy_step writer_of) (eproxy_main s_junk c_junk, \<lambda>_. []) es"
  show "\<not> both_lost []" by (simp add: both_lost_def List.map_filter_simps)
  show "both_lost xs \<Longrightarrow> both_lost (xs @ ys)" by (auto simp: both_lost_def map_filter_append)
  have p: "wired (fst (fst ?q))" "worker_runs (fst (fst ?q))"
    using wired_run [OF wired_main] by (simp_all add: failing_run worker_runs_main)
  have reads: "both_lost (snd ?q) \<longleftrightarrow> sess_read (s_session (fst (fst ?q))) = None \<and> sess_read (c_session (fst (fst ?q))) = None"
    by (simp add: both_lost_def failing_run proxy_reading [OF wired_main main_reading])
  show "\<not> list_ex eproxy_overrun (snd (failing_step eproxy_step writer_of (fst ?q) e))" if "both_lost (snd ?q)"
    using that not_reading_quiet [OF p(1)] by (cases e) (simp_all add: reads failing_step_def split_beta)
  show "eproxy_status (fst ?q) = (if both_lost (snd ?q) \<and> writes_ended (fst ?q) then Exited 0 else Running (fst ?q))"
    using p(2) wired_alive [OF p(1)]
    by (simp add: eproxy_status_def eproxy_idle_def writes_ended_def worker_runs_def reads split_beta)
qed

lemma wired_ovs_run: "wired_ovs p \<Longrightarrow> wired_ovs (fst (run ovs_step p es))"
  by (rule run_invariant) (auto intro: wired_ovs_step)

interpretation assisted_life: lifecycle "failing_step ovs_step (\<lambda>d p. writer_of d (base p))" eproxy_ovs_overrun
  eproxy_ovs_status "(eproxy_ovs_main s_junk c_junk ovs_junk, \<lambda>_. [])" all_lost ovs_writes_ended
proof unfold_locales
  fix xs ys :: "ovs_out list" and es :: "ovs_event life_event list" and e :: "ovs_event life_event"
  let ?q = "run (failing_step ovs_step (\<lambda>d p. writer_of d (base p))) (eproxy_ovs_main s_junk c_junk ovs_junk, \<lambda>_. []) es"
  show "\<not> all_lost []" by (simp add: all_lost_def List.map_filter_simps)
  show "all_lost xs \<Longrightarrow> all_lost (xs @ ys)" by (auto simp: all_lost_def both_lost_def map_filter_append)
  have p: "wired_ovs (fst (fst ?q))" "worker_runs (base (fst (fst ?q)))"
    using wired_ovs_run [OF wired_ovs_main] worker_runs_main by (simp_all add: failing_run worker_runs_def ovs_base)
  have reads: "all_lost (snd ?q) \<longleftrightarrow> sess_read (s_session (base (fst (fst ?q)))) = None \<and>
      sess_read (c_session (base (fst (fst ?q)))) = None \<and> sess_read (ovs_session (fst (fst ?q))) = None"
    by (simp add: all_lost_def both_lost_def failing_run ovs_base ovs_reading proxy_reading [OF wired_main main_reading])
  show "\<not> list_ex eproxy_ovs_overrun (snd (failing_step ovs_step (\<lambda>d p. writer_of d (base p)) (fst ?q) e))"
    if "all_lost (snd ?q)"
    using that not_reading_quiet_ovs [OF p(1)] by (cases e) (simp_all add: reads failing_step_def split_beta)
  show "eproxy_ovs_status (fst ?q) =
      (if all_lost (snd ?q) \<and> ovs_writes_ended (fst ?q) then Exited 0 else Running (fst ?q))"
    using p wired_alive [of "base (fst (fst ?q))"]
    by (auto simp: eproxy_ovs_status_def eproxy_ovs_idle_def eproxy_idle_def ovs_writes_ended_def writes_ended_def
        worker_runs_def wired_ovs_def reads split_beta)
qed

lemmas eproxy_outcome =
  plain_life.outcome_cases [folded eproxy_end_def eproxy_life_def]

lemmas eproxy_ovs_outcome =
  assisted_life.outcome_cases [folded eproxy_ovs_end_def eproxy_ovs_life_def]

section \<open>The tester\<close>

lemma tester_dispatch: "total_dispatch onMessage (switch_session (etester_main data_junk hello_junk))"
proof -
  have "\<exists>a. onMessage tester_dispatcher m = Inr a" for m
    by (simp add: onMessage_def tester_dispatcher_def setCallBackOnMessage_def new_dispatcher_def invoke_def Let_def)
  then show ?thesis
    by (simp add: total_dispatch_def etester_main_eq session_start_def session_read_def listen_def set_dispatcher_def)
qed

lemma tester_end_facts:
  fixes data_junk hello_junk es
  defines "p \<equiv> etester_main data_junk hello_junk"
  defines "q \<equiv> fst (run etester_step p es)" and "outs \<equiv> List.map_filter from_session (snd (run etester_step p es))"
  shows "alive q \<longleftrightarrow> calls Test outs < 2" and "alive q \<Longrightarrow> tester_t (tester q) = No_tester \<longleftrightarrow> calls Test outs = 0"
    and "sess_read (switch_session q) = None \<longleftrightarrow> Read_failed \<in> set outs"
proof -
  have t: "tester q = fst (run tester_step (tester p) (events_along etester_step tester_events p es))"
    unfolding q_def by (rule tester_thread.run_proj)
  have n: "tests (events_along etester_step tester_events p es) = calls Test outs"
    unfolding outs_def by (rule tests_along)
  have reading: "sess_read (switch_session p) \<noteq> None"
    by (simp add: p_def etester_main_eq session_start_def session_read_def)
  note total = run_total [OF tester_dispatch [of data_junk hello_junk, folded p_def]]
  have "list_all fine outs" unfolding outs_def tester_session.run_out by (rule total(1))
  then have up: "\<not> failed_out q"
    using run_fine [of p es] main_tester(4) [of data_junk hello_junk] by (simp add: q_def outs_def p_def)
  note main = main_tester(1-3) [of data_junk hello_junk, folded p_def]
  show alive: "alive q \<longleftrightarrow> calls Test outs < 2"
    using halted_iff(1) [OF main(1,2)] up by (auto simp: alive_def t n main(3))
  have "2 = tests_left (tester q) + calls Test outs" if "alive q"
    using halted_iff(2) [OF main(1,2), of "events_along etester_step tester_events p es"] that
    by (simp add: alive_def t n main(3))
  then show "tester_t (tester q) = No_tester \<longleftrightarrow> calls Test outs = 0" if "alive q"
    using that by (auto simp: tests_left_def split: if_splits)
  show "sess_read (switch_session q) = None \<longleftrightarrow> Read_failed \<in> set outs"
    using total(2) [OF reading] unfolding q_def outs_def tester_session.run_proj tester_session.run_out .
qed

section \<open>Properties\<close>

text \<open>
  C23. How the proxy ends, in every run, with any writes failing. A read past the end of \<open>data_\<close> leaves
  its behaviour undefined. Otherwise it is never terminated and no exception ends it: it returns from
  \<open>main\<close>, with status 0 for two lost connections, as soon as at some moment the body read of both
  sessions has failed and all started and posted writes have ended, and whatever would have come
  later does not change that; while there was no such moment it runs. All along, at that moment
  too, the monitor's thread works, which nothing has stopped, on the monitor that \<open>main\<close> destroys.
\<close>

theorem eproxy_end_cases:
  "if list_ex eproxy_overrun (snd (eproxy_life s_junk c_junk es))
   then eproxy_end s_junk c_junk es = Undefined_behaviour
   else eproxy_end s_junk c_junk es =
      (if \<exists>n. both_lost (snd (eproxy_life s_junk c_junk (take n es))) \<and>
            writes_ended (fst (eproxy_life s_junk c_junk (take n es)))
       then Exited 0 else Running (fst (eproxy_life s_junk c_junk es))) \<and>
     is_running (monitor (fst (fst (eproxy_life s_junk c_junk es)))) \<and>
     worker (monitor (fst (fst (eproxy_life s_junk c_junk es)))) \<notin> {Not_started, Finished, Aborted}"
  using life_worker [of s_junk c_junk es]
  by (cases "list_ex eproxy_overrun (snd (eproxy_life s_junk c_junk es))")
    (simp_all add: eproxy_outcome worker_runs_def split del: if_split)

text \<open>
  C24. The build with \<open>OVS_ASSIST\<close> ends in the same way, and needs one more lost connection for it: until
  the switch's, the controller's and the OVS's session have all failed to read a body and all writes
  have ended it runs, so the loss of the switch and the controller together leaves a proxy that
  reads from the OVS alone; from that moment on it has exited with status 0 for good.
\<close>

theorem eproxy_ovs_end_cases:
  "if list_ex eproxy_ovs_overrun (snd (eproxy_ovs_life s_junk c_junk ovs_junk es))
   then eproxy_ovs_end s_junk c_junk ovs_junk es = Undefined_behaviour
   else eproxy_ovs_end s_junk c_junk ovs_junk es =
      (if \<exists>n. all_lost (snd (eproxy_ovs_life s_junk c_junk ovs_junk (take n es))) \<and>
            ovs_writes_ended (fst (eproxy_ovs_life s_junk c_junk ovs_junk (take n es)))
       then Exited 0 else Running (fst (eproxy_ovs_life s_junk c_junk ovs_junk es))) \<and>
     is_running (monitor (base (fst (fst (eproxy_ovs_life s_junk c_junk ovs_junk es))))) \<and>
     worker (monitor (base (fst (fst (eproxy_ovs_life s_junk c_junk ovs_junk es))))) \<notin> {Not_started, Finished, Aborted}"
  using ovs_life_worker [of s_junk c_junk ovs_junk es]
  by (cases "list_ex eproxy_ovs_overrun (snd (eproxy_ovs_life s_junk c_junk ovs_junk es))")
    (simp_all add: eproxy_ovs_outcome worker_runs_def split del: if_split)

text \<open>
  C25. How the tester program ends, in every run: it is terminated by the second features reply, or, if it
  was asked for a test, when the connection is lost in a message: it never returns from \<open>main\<close> after
  a test, even a finished one. Only without a test does it return 0.
\<close>

theorem etester_end_cases:
  "etester_end failed (fst (run etester_step (etester_main data_junk hello_junk) es)) =
    (let n = calls Test (List.map_filter from_session (snd (run etester_step (etester_main data_junk hello_junk) es)));
         p = fst (run etester_step (etester_main data_junk hello_junk) es)
     in if 2 \<le> n then Terminated
        else if Read_failed \<in> set (List.map_filter from_session (snd (run etester_step (etester_main data_junk hello_junk) es))) \<and>
            settled failed (switch_writer p)
        then (if n = 0 then Exited 0 else Terminated)
        else Running p)"
  using tester_end_facts [of data_junk hello_junk es]
  by (auto simp: etester_end_def etester_idle_def Let_def)

end
