(* ===== verification/OFP_Buffer.thy ===== *)
theory OFP_Buffer imports OpenFlow_Message begin

text \<open>
  \<open>OFPBuffer.h\<close> and \<open>OFPShaper.h\<close>: a queue of messages shared by threads, and the skeleton of a
  rate shaper. Neither is part of a program that is built; both are complete enough to state what
  they do. \<open>UTOFPBuffer.cpp\<close> is the loop of a unit test for the buffer.

  A thread that holds \<open>queue_mutex_\<close> runs its critical section in one step. The condition variable
  keeps the threads that wait on it; \<open>notify_one\<close>, called after the mutex is released, is a step of
  its own and wakes any one of them, and a thread may also wake for no reason, as the standard
  allows.
\<close>

section \<open>The buffer\<close>

record ofp_buffer =
  is_empty :: bool
  queued :: "message list"

definition new_ofp_buffer :: ofp_buffer where
  "new_ofp_buffer = \<lparr>is_empty = True, queued = []\<rparr>"

definition pushBack :: "message \<Rightarrow> ofp_buffer \<Rightarrow> ofp_buffer" where
  "pushBack msg b = b\<lparr>is_empty := False, queued := queued b @ [msg]\<rparr>"

text \<open>
  \<open>getFront\<close> from the test of \<open>while(is_empty_)\<close> with the mutex held: it waits, or takes the front
  of the queue. \<open>front\<close> and \<open>pop\<close> of an empty \<open>std::queue\<close> have undefined behaviour.
\<close>

datatype get_result = Waits | Got message | Undefined

definition getFront :: "ofp_buffer \<Rightarrow> ofp_buffer \<times> get_result" where
  "getFront b =
     (if is_empty b then (b, Waits)
      else case queued b of
             [] \<Rightarrow> (b, Undefined)
           | msg # rest \<Rightarrow> (b\<lparr>queued := rest\<rparr>, Got msg))"

definition getSzie :: "ofp_buffer \<Rightarrow> nat" where
  "getSzie b = length (queued b)"

text \<open>
  \<open>producor\<close> of \<open>UTOFPBuffer.cpp\<close>, the thread of a unit test that was never written: an endless loop
  with an empty body. Not returning is \<open>None\<close>.
\<close>

partial_function (option) producor :: "ofp_buffer \<Rightarrow> ofp_buffer option" where
  "producor b = (if True then producor b else Some b)"

lemma producor_never_returns: "producor b = None"
proof (rule ccontr)
  assume "producor b \<noteq> None"
  then obtain b' where ret: "producor b = Some b'" by blast
  show False
  proof (rule producor.raw_induct [where P = "\<lambda>_ _. False", OF _ ret])
    fix f :: "ofp_buffer \<Rightarrow> ofp_buffer option" and c c'
    assume "\<And>d d'. f d = Some d' \<Longrightarrow> False" and "(if True then f c else Some c) = Some c'"
    then show False by simp
  qed
qed

section \<open>Threads around the buffer\<close>

text \<open>
  \<open>waiting\<close>: threads blocked in \<open>empty_.wait\<close>; \<open>woken\<close>: threads that left the wait and have not
  taken the mutex yet; \<open>notifications\<close>: producers between the end of their critical section and
  \<open>notify_one\<close>; \<open>pushed\<close> and \<open>got\<close>: the history of the queue; \<open>failed\<close>: undefined behaviour happened.
\<close>

record 't buffer_sys =
  buf :: ofp_buffer
  waiting :: "'t list"
  woken :: "'t list"
  notifications :: nat
  pushed :: "message list"
  got :: "('t \<times> message) list"
  failed :: bool

definition new_buffer_sys :: "'t buffer_sys" where
  "new_buffer_sys =
     \<lparr>buf = new_ofp_buffer, waiting = [], woken = [], notifications = 0, pushed = [], got = [],
      failed = False\<rparr>"

definition sys_push :: "message \<Rightarrow> 't buffer_sys \<Rightarrow> 't buffer_sys" where
  "sys_push msg s =
     s\<lparr>buf := pushBack msg (buf s), notifications := Suc (notifications s), pushed := pushed s @ [msg]\<rparr>"

definition sys_get :: "'t \<Rightarrow> 't buffer_sys \<Rightarrow> 't buffer_sys" where
  "sys_get t s =
     (case getFront (buf s) of
        (b, Waits) \<Rightarrow> s\<lparr>buf := b, waiting := t # waiting s\<rparr>
      | (b, Got msg) \<Rightarrow> s\<lparr>buf := b, got := got s @ [(t, msg)]\<rparr>
      | (b, Undefined) \<Rightarrow> s\<lparr>buf := b, failed := True\<rparr>)"

definition wake :: "'t \<Rightarrow> 't buffer_sys \<Rightarrow> 't buffer_sys" where
  "wake t s = s\<lparr>waiting := remove1 t (waiting s), woken := t # woken s\<rparr>"

inductive buffer_step :: "'t buffer_sys \<Rightarrow> 't buffer_sys \<Rightarrow> bool" where
  push: "\<not> failed s \<Longrightarrow> buffer_step s (sys_push msg s)"
| notify: "\<not> failed s \<Longrightarrow> notifications s = Suc n \<Longrightarrow> t \<in> set (waiting s) \<Longrightarrow>
     buffer_step s (wake t (s\<lparr>notifications := n\<rparr>))"
| notify_nobody: "\<not> failed s \<Longrightarrow> notifications s = Suc n \<Longrightarrow> waiting s = [] \<Longrightarrow>
     buffer_step s (s\<lparr>notifications := n\<rparr>)"
| spurious: "\<not> failed s \<Longrightarrow> t \<in> set (waiting s) \<Longrightarrow> buffer_step s (wake t s)"
| enter: "\<not> failed s \<Longrightarrow> t \<notin> set (waiting s) \<Longrightarrow> t \<notin> set (woken s) \<Longrightarrow> buffer_step s (sys_get t s)"
| resume: "\<not> failed s \<Longrightarrow> t \<in> set (woken s) \<Longrightarrow>
     buffer_step s (sys_get t (s\<lparr>woken := remove1 t (woken s)\<rparr>))"

inductive buffer_reach :: "'t buffer_sys \<Rightarrow> bool" where
  buffer_init: "buffer_reach new_buffer_sys"
| buffer_next: "buffer_reach s \<Longrightarrow> buffer_step s s' \<Longrightarrow> buffer_reach s'"

inductive_cases buffer_stepE: "buffer_step s s'"

lemmas buffer_defs [op_defs] =
  new_buffer_sys_def new_ofp_buffer_def sys_push_def sys_get_def wake_def pushBack_def getFront_def

section \<open>Invariants\<close>

definition buffer_inv :: "'t buffer_sys \<Rightarrow> bool" where
  "buffer_inv s \<longleftrightarrow>
     pushed s = map snd (got s) @ queued (buf s) \<and>
     (is_empty (buf s) \<longleftrightarrow> pushed s = []) \<and>
     (waiting s \<noteq> [] \<longrightarrow> length (queued (buf s)) \<le> notifications s + length (woken s)) \<and>
     (failed s \<longrightarrow> queued (buf s) = [] \<and> pushed s \<noteq> [])"

lemma buffer_inv_new: "buffer_inv new_buffer_sys"
  by (simp add: buffer_inv_def buffer_defs)

lemma sys_get_inv:
  assumes "pushed s = map snd (got s) @ queued (buf s)" and "is_empty (buf s) \<longleftrightarrow> pushed s = []"
    and "\<not> failed s"
    and "waiting s \<noteq> [] \<longrightarrow> length (queued (buf s)) \<le> Suc (notifications s + length (woken s))"
  shows "buffer_inv (sys_get t s)"
  using assms by (auto simp: buffer_inv_def buffer_defs split: list.split)

lemma buffer_inv_step:
  assumes "buffer_step s s'" and "buffer_inv s"
  shows "buffer_inv s'"
  using assms(1)
proof cases
  case (push msg)
  with assms(2) show ?thesis by (auto simp: buffer_inv_def buffer_defs)
next
  case (notify n t)
  then have "waiting s \<noteq> []" by auto
  with notify assms(2) show ?thesis by (simp add: buffer_inv_def buffer_defs)
next
  case (notify_nobody n)
  with assms(2) show ?thesis by (simp add: buffer_inv_def buffer_defs)
next
  case (spurious t)
  then have "waiting s \<noteq> []" by auto
  with spurious assms(2) show ?thesis by (simp add: buffer_inv_def buffer_defs)
next
  case (enter t)
  show ?thesis
    unfolding enter(1) by (rule sys_get_inv) (use enter(2) assms(2) in \<open>auto simp: buffer_inv_def\<close>)
next
  case (resume t)
  then have "Suc (length (remove1 t (woken s))) = length (woken s)"
    by (auto simp: length_remove1 dest: length_pos_if_in_set)
  then show ?thesis
    unfolding resume(1) by (intro sys_get_inv) (use resume(2) assms(2) in \<open>auto simp: buffer_inv_def\<close>)
qed

lemma buffer_reach_inv: "buffer_reach s \<Longrightarrow> buffer_inv s"
  by (induction rule: buffer_reach.induct) (auto intro: buffer_inv_new buffer_inv_step)

section \<open>The shaper\<close>

text \<open>
  \<open>process_\<close> is the body of the shaper's thread: it takes the mutex, waits while \<open>is_acked_\<close> is
  false, and starts again. The functions it would move messages between are never called.
\<close>

datatype shaper_pc = No_thread | At_lock | At_acked | At_wait

record ('src, 'dst) shaper =
  shape_rate :: u64
  shaper_source :: "'src option"
  shaper_dest :: "'dst option"
  shaper_at :: shaper_pc
  is_acked :: bool

definition new_shaper :: "u64 \<Rightarrow> ('src, 'dst) shaper" where
  "new_shaper rate =
     \<lparr>shape_rate = rate, shaper_source = None, shaper_dest = None, shaper_at = No_thread, is_acked = True\<rparr>"

definition setDest :: "'dst option \<Rightarrow> ('src, 'dst) shaper \<Rightarrow> ('src, 'dst) shaper" where
  "setDest dest s = s"

definition setSource :: "'src option \<Rightarrow> ('src, 'dst) shaper \<Rightarrow> ('src, 'dst) shaper" where
  "setSource source s = s\<lparr>shaper_source := source\<rparr>"

definition startShaper :: "('src, 'dst) shaper \<Rightarrow> ('src, 'dst) shaper \<times> bool" where
  "startShaper s =
     (if shaper_source s \<noteq> None \<and> shaper_dest s \<noteq> None then (s\<lparr>shaper_at := At_lock\<rparr>, True) else (s, False))"

definition OnAck :: "message \<Rightarrow> ('src, 'dst) shaper \<Rightarrow> ('src, 'dst) shaper" where
  "OnAck msg s = s\<lparr>shaper_at := if shaper_at s = At_wait then At_acked else shaper_at s\<rparr>"

definition process_step :: "('src, 'dst) shaper \<Rightarrow> ('src, 'dst) shaper" where
  "process_step s =
     (case shaper_at s of
        At_lock \<Rightarrow> s\<lparr>shaper_at := At_acked\<rparr>
      | At_acked \<Rightarrow> s\<lparr>shaper_at := if \<not> is_acked s then At_wait else At_lock\<rparr>
      | At_wait \<Rightarrow> s
      | No_thread \<Rightarrow> s)"

datatype ('src, 'dst) shaper_call =
  Set_dest "'dst option" | Set_source "'src option" | Start_shaper | On_ack message | Thread_step

text \<open>A call and the results of \<open>startShaper\<close>.\<close>

fun shaper_do :: "('src, 'dst) shaper \<Rightarrow> ('src, 'dst) shaper_call \<Rightarrow> ('src, 'dst) shaper \<times> bool list" where
  "shaper_do s (Set_dest d) = (setDest d s, [])"
| "shaper_do s (Set_source f) = (setSource f s, [])"
| "shaper_do s Start_shaper = (case startShaper s of (s', r) \<Rightarrow> (s', [r]))"
| "shaper_do s (On_ack msg) = (OnAck msg s, [])"
| "shaper_do s Thread_step = (process_step s, [])"

lemma shaper_idle_step:
  assumes "shaper_dest s = None \<and> shaper_at s = No_thread"
  shows "shaper_dest (fst (shaper_do s c)) = None \<and> shaper_at (fst (shaper_do s c)) = No_thread"
    and "list_all Not (snd (shaper_do s c))"
  using assms
  by (cases c; simp add: setDest_def setSource_def startShaper_def OnAck_def process_step_def)+

lemma shaper_idle_run:
  assumes "shaper_dest s = None \<and> shaper_at s = No_thread"
  shows "list_all Not (snd (run shaper_do s cs)) \<and> shaper_at (fst (run shaper_do s cs)) = No_thread"
  using assms
proof (induction cs arbitrary: s)
  case Nil
  then show ?case by simp
next
  case (Cons c cs)
  then show ?case
    using shaper_idle_step [OF Cons.prems, of c] Cons.IH [of "fst (shaper_do s c)"]
    by (simp add: fst_run_Cons snd_run_Cons del: run.simps)
qed

section \<open>Properties\<close>

text \<open>
  C33. The buffer is first in, first out under every interleaving of producers and consumers: what
  the consumers have taken, in the order they took it, followed by what is queued, is what was
  pushed; \<open>getSzie\<close> is the number of messages pushed and not taken.
\<close>

theorem buffer_fifo:
  assumes "buffer_reach s"
  shows "pushed s = map snd (got s) @ queued (buf s) \<and> getSzie (buf s) = length (pushed s) - length (got s)"
  using buffer_reach_inv [OF assms] by (simp add: buffer_inv_def getSzie_def)

definition two_pushed :: "nat buffer_sys" where
  "two_pushed = sys_get 1 (sys_push [2] (sys_push [1] new_buffer_sys))"

lemma two_pushed_reach: "buffer_reach two_pushed"
proof -
  have "buffer_reach (sys_push [2] (sys_push [1] (new_buffer_sys :: nat buffer_sys)))"
    by (intro buffer_next [OF _ push] buffer_init) (simp_all add: buffer_defs)
  then show ?thesis
    unfolding two_pushed_def by (rule buffer_next [OF _ enter]) (simp_all add: buffer_defs)
qed

theorem buffer_fifo_witness: "[[1], [2]] = map snd (got two_pushed) @ [[2]]"
  using buffer_fifo [OF two_pushed_reach] by (simp add: two_pushed_def buffer_defs)

text \<open>
  C34. No wakeup is lost: while a thread waits, for every queued message a notification is still to
  be delivered or a woken thread is on its way to the queue.
\<close>

theorem buffer_no_lost_wakeup:
  assumes "buffer_reach s" and "waiting s \<noteq> []"
  shows "getSzie (buf s) \<le> notifications s + length (woken s)"
  using buffer_reach_inv [OF assms(1)] assms(2) by (simp add: buffer_inv_def getSzie_def)

definition one_waits :: "nat buffer_sys" where
  "one_waits = sys_push [1] (sys_get 1 new_buffer_sys)"

lemma one_waits_reach: "buffer_reach one_waits"
proof -
  have "buffer_reach (sys_get 1 (new_buffer_sys :: nat buffer_sys))"
    by (rule buffer_next [OF buffer_init enter]) (simp_all add: buffer_defs)
  then show ?thesis
    unfolding one_waits_def by (rule buffer_next [OF _ push]) (simp add: buffer_defs)
qed

theorem buffer_no_lost_wakeup_witness: "1 \<le> notifications one_waits + length (woken one_waits)"
  using buffer_no_lost_wakeup [OF one_waits_reach]
  by (simp add: one_waits_def buffer_defs getSzie_def)

text \<open>
  C35. \<open>getFront\<close> blocks only before the first push: \<open>is_empty_\<close> is set to false by the first
  \<open>pushBack\<close> and by nothing to true again, so a consumer that comes back to a queue it has emptied
  runs into the undefined behaviour of \<open>front\<close> on an empty queue instead of waiting.
\<close>

theorem buffer_getFront_blocks_once:
  assumes "buffer_reach s"
  shows "snd (getFront (buf s)) =
    (if pushed s = [] then Waits else if queued (buf s) = [] then Undefined else Got (hd (queued (buf s))))"
  using buffer_reach_inv [OF assms] by (auto simp: buffer_inv_def getFront_def split: list.split)

definition drained :: "nat buffer_sys" where
  "drained = sys_get 1 (sys_push [1] new_buffer_sys)"

lemma drained_reach: "buffer_reach drained"
proof -
  have "buffer_reach (sys_push [1] (new_buffer_sys :: nat buffer_sys))"
    by (rule buffer_next [OF buffer_init push]) (simp add: buffer_defs)
  then show ?thesis
    unfolding drained_def by (rule buffer_next [OF _ enter]) (simp_all add: buffer_defs)
qed

theorem buffer_getFront_blocks_once_witness:
  "snd (getFront (buf drained)) = Undefined"
  using buffer_getFront_blocks_once [OF drained_reach] by (simp add: drained_def buffer_defs)

text \<open>
  The shaper cannot be started: \<open>setDest\<close> drops its argument, so \<open>startShaper\<close> answers false
  after every sequence of calls and no thread is ever created.
\<close>

theorem shaper_never_starts:
  "list_all Not (snd (run shaper_do (new_shaper rate) cs)) \<and>
   shaper_at (fst (run shaper_do (new_shaper rate) cs)) = No_thread"
  by (rule shaper_idle_run) (simp add: new_shaper_def)

end
