(* ===== verification/Spec2Isabelle.thy ===== *)
theory Spec2Isabelle imports OpenFlow_Oxm Eproxy_Net ETester_Net Shutdown OFP_Buffer begin

text \<open>
  Euthenia: an OpenFlow 1.3 control path proxy and a load tester for it.

  \<^bold>\<open>The programs.\<close> \<open>eproxy\<close> (\<open>eproxy.cpp\<close>) sits between a switch and its controller. It has one
  \<open>Session\<close> to each; a session cuts its TCP stream into OpenFlow messages and hands each to its
  \<open>Dispatcher\<close>, which calls the function registered for the message's type. In the proxy these
  functions write the message to the other session; packet-ins go through \<open>PKTINMonitor\<close>, which
  counts them, and when a sampling period saw too many the monitor's thread has \<open>PKTMigrator\<close> write a
  flow modification to the switch that diverts its traffic to a data path port. \<open>eTester\<close>
  (\<open>UnitTest_PacketInTester.cpp\<close>) plays the controller: it greets a switch, then \<open>PacketInTester\<close>
  runs \<open>FlowGen\<close> at twenty rates on a capture device while counting the packet-ins that come back.
  \<open>openflow.h\<close> is the protocol's header; \<open>OFPBuffer.h\<close> and \<open>OFPShaper.h\<close> belong to no program yet.

  \<^bold>\<open>The theories\<close>, in the order they import each other:

    \<^item> \<open>Euth_Prelude\<close>: integer types, byte memory (\<open>mem\<close>, \<open>load\<close>, \<open>store\<close>), runs over event lists
      (\<open>run\<close>), and the locale \<open>projection\<close>, which gives the run of a component inside an interleaved
      program. \<open>Byte_Order\<close>: object representations, \<open>htons\<close> and its relatives, with the locale
      \<open>fixed_codec\<close>. \<open>C_Layout\<close>: C structures by the ABI's layout rules (\<open>sizeof\<close>, \<open>slot\<close>), and
      assignments through structure pointers (\<open>put\<close>, \<open>get\<close>, \<open>assign\<close>) with their frame lemmas.

    \<^item> \<open>OpenFlow_Enums\<close>, \<open>OpenFlow_Structs\<close>, \<open>OpenFlow_Oxm\<close>: \<open>openflow.h\<close>. Every named enumeration is
      a datatype with its values, interpreting the locale \<open>c_enum\<close> or \<open>c_flags\<close>; every structure is a
      layout, and the table \<open>ofp_asserts\<close> holds the header's \<open>OFP_ASSERT\<close>s; the OXM macros compute
      on words.

    \<^item> \<open>Hex_Utility\<close>: \<open>utility.cpp\<close>. \<open>Log_Level\<close>: \<open>boost_log_init\<close>, the severities and the records that
      pass the filter. \<open>OpenFlow_Message\<close>: reading a message's header, \<open>well_framed\<close>,
      and the locale \<open>message_consumer\<close>, the contract between \<open>Session\<close> and \<open>Dispatcher\<close>: a consumer
      looks at the bytes the length field covers and at nothing else. \<open>Dispatcher\<close>: \<open>Dispatcher.h\<close>,
      which interprets that contract.

    \<^item> \<open>Session\<close>: the reading half of \<open>Session.cpp\<close>. A session is a record with its buffer and its
      outstanding read; \<open>complete\<close> runs the handler of a completed read, or reports an \<open>Overrun\<close> of the
      buffer. The framing theorem is
      proved once in \<open>message_consumer\<close> and used for both programs, for whole runs (\<open>frame_all\<close>) and for
      the first reads of a run (\<open>framed\<close>, \<open>frame_some\<close>). \<open>Session_Write\<close>: the writing half
      as a step relation over posted, started and partly transferred writes, and as runs over the
      calls of \<open>write\<close>, the handlers and the transfers (\<open>writer_run\<close>); it interprets the
      locale \<open>message_sink\<close>, which the migrator's lemmas use. \<open>handle_write\<close> is what a write logs.

    \<^item> \<open>Packet_In_Migrator\<close>: \<open>PacketInMigrator.h\<close>, the assignments of \<open>prepare_switch\<close> in order, and
      a decoder of flow modifications as the specification of what they mean.
      \<open>Packet_In_Monitor\<close>: \<open>PacketInMonitor.h\<close>, both threads, one step per access to shared state;
      \<open>onMessage\<close> makes one such access, and the forwarding of the message is part of that step.

    \<^item> \<open>Packet_Headers\<close>: \<open>header_defu.h\<close>. \<open>Flow_Gen\<close>: \<open>FlowGen.cpp\<close>, its time arithmetic, packets and
      sending loop. \<open>Packet_In_Tester\<close>: \<open>PacketInTester.cpp\<close>, both threads: \<open>onMessage\<close> as the fetches of an
      address and the accesses through it (\<open>onMessage_step\<close>), \<open>push_back\<close> with the copying and the release
      of the vector's storage (\<open>copy_groups\<close>, \<open>push_group\<close>), and \<open>raced\<close>, whether the two have met.

    \<^item> \<open>OFP_Buffer\<close>: \<open>OFPBuffer.h\<close> with its mutex and condition variable, \<open>OFPShaper.h\<close>, and the endless
      loop of \<open>UTOFPBuffer.cpp\<close> as a \<open>partial_function\<close> that never returns.

    \<^item> \<open>Eproxy\<close> and \<open>ETester\<close>: the two programs. Their state is the product of the components', the
      bound functions of \<open>main\<close> are values of a datatype, and an event is a completed read, a step
      of the second thread, or a step of the io thread on the writes. Each component is found again
      in the whole by an interpretation of \<open>projection\<close>, so the component theorems speak about the
      program under every interleaving. The locale \<open>writer_closed\<close> says which invariants of a writer
      every event keeps; it is interpreted for the reachable writers and, in \<open>Eproxy_Stream\<close>, for those
      whose transfers take turns.

    \<^item> \<open>Eproxy_Stream\<close>: the proxy end to end, over the steps of \<open>Eproxy\<close>: the bytes the controller
      receives, one sampling period from the switch's reads to the migration, and a lost switch.
      \<open>Eproxy_Ovs\<close>: the \<open>OVS_ASSIST\<close> build as the plain proxy with a third session (\<open>ovs_step\<close>), and the
      relation \<open>agree\<close> that every operation of the proxy keeps.

    \<^item> \<open>Relay_Spec\<close>: the specification of the proxy, an abstract relay with an inductive step relation that
      consumes the messages of the switch, the controller and the OVS from queues, what every
      reachable relay has done with them (\<open>relayed\<close>, \<open>detours_paid\<close>), and the locale \<open>forward_simulation\<close>. \<open>Eproxy_Relay\<close>: its two interpretations, for the plain proxy and
      for the one with \<open>OVS_ASSIST\<close>.

    \<^item> \<open>ETester_Run\<close>: whole runs of the tester: what it answers and counts, how many features replies it survives, and the steps its
      test has left (\<open>test_left\<close>).

    \<^item> \<open>Session_Socket\<close>: the locale \<open>session_on_socket\<close>, a program that owns a session and its socket: a turn
      of the io thread takes from the socket the bytes the session has asked for, and the lemma
      \<open>delivered\<close> says what the session has read after any number of turns. It is interpreted for both
      sessions of the proxy in \<open>Eproxy_Net\<close> (\<open>net_step\<close>) and for the tester's in \<open>ETester_Net\<close>
      (\<open>tester_net_step\<close>), whose theorems speak of the bytes the peers send.

    \<^item> \<open>Startup\<close>: the beginning of both \<open>main\<close> functions: the level in the arguments (\<open>stoi\<close>, \<open>atoi\<close>), the
      records they log, and how they end when a connection or the device cannot be opened. \<open>Shutdown\<close>:
      their end, when \<open>io_service.run()\<close> has returned. The proxy's lives (\<open>eproxy_end\<close>, \<open>eproxy_ovs_end\<close>) are
      folds over all events, failing writes among them, that stop at the first end; the locale
      \<open>lifecycle\<close> is what both builds share. \<open>etester_end\<close> is the table of the tester's ends.

  \<^bold>\<open>What is shown.\<close> The proxy delivers the switch's messages to the controller exactly and in order,
  adds to the controller's messages only the migrator's, and migrates only when ten packet-ins were
  counted, and then once in the period; while transfers take turns the controller's stream is a
  beginning of the switch's and can always be completed. At every moment the controller has been
  written exactly the messages read from the switch's socket, and the switch those read from the
  controller's socket with at most one migration for every ten packet-ins read; both builds refine a
  relay that takes the same messages from its queues, passes each on once and whole, and pays for
  each migration with ten packet-ins. Every message handed to \<open>write\<close> is on its way, in the order of the
  calls, and arrives whole.
  A failed read on one side leaves the other running, and a switch that disconnects after a bare
  header floods the controller with it; the proxy ends only when the body reads of all its sessions have
  failed, with its monitor's thread still running. The \<open>OVS_ASSIST\<close> build behaves towards the switch as the plain
  one and merges the OVS's messages into the controller's; every assignment into a message or packet header fits
  its field; the migrator's message means what it should; framing is exact for well-framed input; the
  monitor counts, triggers, forwards and stops as its code says; the tester, on its connection,
  answers the greetings and counts the packet-ins it has read, at every moment, unless an access of
  \<open>onMessage\<close> meets the one move of the vector, which can lose a packet-in (\<open>packet_in_lost\<close>); it runs its test to the end after one features reply, is terminated by a second
  and never leaves \<open>main\<close> normally after a test; a burst returns when the
  clock passes its duration and its packets are distinct flows; the header's size assertions and OXM constants are consistent. Where the code does
  not do what it means to, the theorem says what it does: length fields below 8, failing header
  reads, overlapping writes, the carry of \<open>timespec_add\<close>, the value \<open>timeval_subtract\<close> returns, bursts after the first, the tester's
  vector, the emptied \<open>OFPBuffer\<close>, the ignored log level of the tester, the exit status of a failed start,
  the ends of both programs.

  \<^bold>\<open>Parameters and bounds.\<close> Fresh memory and uninitialised objects, clock readings, completions of
  reads (\<open>asio_delivers\<close> is what asio documents of them), partial writes, the results of \<open>pcap_sendpacket\<close> and the scheduling of threads are
  arguments of the definitions or events of the runs. \<open>burst_loop\<close> has a bound on its passes;
  \<open>a_burst_sends\<close> shows that one more than the number of rounds the clock allows is enough
  (\<open>burst_ends\<close>). Threads are interleaved at the accesses to shared state, in one global order.
  \<open>onMessage\<close> of the tester makes eight steps at most. The vector's capacity doubles when it is
  moved, as in libstdc++; with 2068 groups at most it is moved once.

  \<^bold>\<open>Not modelled.\<close> Log records other than those of \<open>main\<close> and of \<open>handle_write\<close>, which change
  nothing; establishing TCP connections beyond the ports and addresses recorded and whether they
  succeed; the timer of \<open>calculate_buffered_packet\<close>, which nothing calls, beyond the fact that it is
  armed; the errors of single writes, which are only logged and change no state of the program, outside
  \<open>Shutdown\<close>, where a failed write is an event that ends it; the steps of the monitor's thread on the
  destroyed monitor after \<open>main\<close> has returned. Behaviour that C++ leaves undefined: once a session has
  reported an \<open>Overrun\<close>, or an access of the tester has gone to released storage, the definitions go
  on, but what they say is no statement about the program; \<open>eproxy_end\<close> and \<open>eproxy_ovs_end\<close> say so.
\<close>

section \<open>Assignments through structure pointers\<close>

lemma switch_assignments_typed:
  "list_all (well_typed switch_length)
    (flow_mod_assignments @ match_assignments @ instruction_assignments @ action_assignments port @ length_assignment)"
  by (simp add: flow_mod_assignments_def match_assignments_def instruction_assignments_def
      action_assignments_def length_assignment_def switch_length_def layout_simps del: One_nat_def)

lemma header_assignments_typed:
  "list_all (well_typed (sizeof ofp_header)) (hello_assignments x @ feature_request_assignments x)"
  by (simp add: hello_assignments_def feature_request_assignments_def layout_simps del: One_nat_def)

lemma packet_assignments_typed:
  "list_all (well_typed (sizeof sniff_ethernet)) ethernet_init" "list_all (well_typed (sizeof sniff_ip)) ip_init"
  "list_all (well_typed (sizeof sniff_tcp)) tcp_init"
  by code_simp+

section \<open>Properties\<close>

text \<open>
  C19. Every assignment through a structure pointer is well typed: the field exists in the structure,
  the value has the field's size and the field lies inside the object it is written to, for the
  migrator's message, the tester's two requests and the three packet headers. So building the
  migrator's message leaves the memory behind its buffer alone.
\<close>

theorem assignments_well_typed:
  "list_all (well_typed switch_length)
     (flow_mod_assignments @ match_assignments @ instruction_assignments @ action_assignments port @ length_assignment) \<and>
   list_all (well_typed (sizeof ofp_header)) (hello_assignments x @ feature_request_assignments x) \<and>
   list_all (well_typed (sizeof sniff_ethernet)) ethernet_init \<and>
   list_all (well_typed (sizeof sniff_ip)) ip_init \<and> list_all (well_typed (sizeof sniff_tcp)) tcp_init \<and>
   fold assign (flow_mod_assignments @ match_assignments @ instruction_assignments @ action_assignments port @
     length_assignment) m (switch_length + i) = m (switch_length + i)"
  using switch_assignments_typed [of port] header_assignments_typed [of x] packet_assignments_typed
    well_typed_fold [OF switch_assignments_typed [of port], of "switch_length + i" m]
  by (intro conjI) (assumption | simp del: fold_append)+

end
